(* ===== verification/Posix_Prelude.thy ===== *)
theory Posix_Prelude
  imports Main "HOL-Library.Multiset" "HOL-Library.Char_ord" "HOL-Library.List_Lexorder"
begin

text \<open>
  Shared vocabulary of the development: the failure values of the C programs, the
  error monad in which the pointer code is written, the heap with \<open>malloc\<close> and
  \<open>free\<close>, the string functions of the C library that the programs call
  (\<open>strcmp\<close>, \<open>strtok_r\<close>, \<open>fgets\<close>, the \<open>%d\<close> conversion), and the list lemmas the
  component theories have in common.
\<close>

section \<open>Failures and the error monad\<close>

text \<open>
  \<open>Exit n\<close> is a call of \<open>exit(n)\<close>. The other values are the ways in which the C code
  leaves the defined part of the language: a null or dangling pointer is dereferenced,
  an array is overrun, an indeterminate value is used. \<open>Diverge\<close> is a loop that never
  ends, \<open>Block\<close> a semaphore wait with no token, \<open>DivZero\<close> a remainder by zero.
\<close>

datatype cerr =
    Exit int
  | NullDeref
  | BadAddr
  | Overflow
  | Uninit
  | Diverge
  | Block
  | DivZero

type_synonym 'a res = "cerr + 'a"

definition bindE :: "'a res \<Rightarrow> ('a \<Rightarrow> 'b res) \<Rightarrow> 'b res" where
  "bindE x f = (case x of Inl e \<Rightarrow> Inl e | Inr v \<Rightarrow> f v)"

named_theorems res_simps \<open>evaluation of the error monad and of heap accesses\<close>

lemma bindE_Inr [simp, res_simps]: "bindE (Inr v) f = f v"
  by (simp add: bindE_def)

lemma bindE_Inl [simp, res_simps]: "bindE (Inl e) f = Inl e"
  by (simp add: bindE_def)

lemma bindE_eq_Inr: "bindE x f = Inr y \<longleftrightarrow> (\<exists>v. x = Inr v \<and> f v = Inr y)"
  by (cases x) simp_all

lemma bindE_cong [fundef_cong]:
  "x = y \<Longrightarrow> (\<And>v. y = Inr v \<Longrightarrow> f v = g v) \<Longrightarrow> bindE x f = bindE y g"
  by (cases y) simp_all

lemma bindE_assoc: "bindE (bindE x f) g = bindE x (\<lambda>v. bindE (f v) g)"
  by (cases x) simp_all

section \<open>The heap\<close>

text \<open>
  A pointer is \<open>None\<close> (\<open>NULL\<close>) or the address of a cell. \<open>brk\<close> is the next fresh
  address, \<open>quota\<close> the number of allocations that still succeed before \<open>malloc\<close>
  returns \<open>NULL\<close>; a freed cell gives its allocation back.
\<close>

type_synonym ptr = "nat option"

record 'n mem =
  cells :: "nat \<Rightarrow> 'n option"
  brk :: nat
  quota :: nat

definition malloc :: "'n \<Rightarrow> 'n mem \<Rightarrow> ptr \<times> 'n mem" where
  "malloc n m =
     (if quota m = 0 then (None, m)
      else (Some (brk m),
            m\<lparr>cells := (cells m)(brk m := Some n), brk := Suc (brk m), quota := quota m - 1\<rparr>))"

definition free :: "nat \<Rightarrow> 'n mem \<Rightarrow> 'n mem res" where
  "free a m =
     (case cells m a of
        None \<Rightarrow> Inl BadAddr
      | Some n \<Rightarrow> Inr (m\<lparr>cells := (cells m)(a := None), quota := Suc (quota m)\<rparr>))"

text \<open>An object of another type, of which only the memory it takes matters.\<close>

definition malloc_other :: "'n mem \<Rightarrow> 'n mem option" where
  "malloc_other m = (if quota m = 0 then None else Some (m\<lparr>quota := quota m - 1\<rparr>))"

definition free_other :: "'n mem \<Rightarrow> 'n mem" where
  "free_other m = m\<lparr>quota := Suc (quota m)\<rparr>"

definition deref :: "'n mem \<Rightarrow> ptr \<Rightarrow> 'n res" where
  "deref m p =
     (case p of
        None \<Rightarrow> Inl NullDeref
      | Some a \<Rightarrow> (case cells m a of None \<Rightarrow> Inl BadAddr | Some n \<Rightarrow> Inr n))"

definition store :: "ptr \<Rightarrow> ('n \<Rightarrow> 'n) \<Rightarrow> 'n mem \<Rightarrow> 'n mem res" where
  "store p f m =
     (case p of
        None \<Rightarrow> Inl NullDeref
      | Some a \<Rightarrow>
          (case cells m a of
             None \<Rightarrow> Inl BadAddr
           | Some n \<Rightarrow> Inr (m\<lparr>cells := (cells m)(a := Some (f n))\<rparr>)))"

lemma deref_Some [res_simps]: "cells m a = Some n \<Longrightarrow> deref m (Some a) = Inr n"
  by (simp add: deref_def)

lemma deref_None [simp]: "deref m None = Inl NullDeref"
  by (simp add: deref_def)

lemma store_Some [res_simps]:
  "cells m a = Some n \<Longrightarrow> store (Some a) f m = Inr (m\<lparr>cells := (cells m)(a := Some (f n))\<rparr>)"
  by (simp add: store_def)

lemma store_None [simp]: "store None f m = Inl NullDeref"
  by (simp add: store_def)

definition mem_ok :: "'n mem \<Rightarrow> bool" where
  "mem_ok m \<longleftrightarrow> (\<forall>a. brk m \<le> a \<longrightarrow> cells m a = None)"

lemma mem_ok_fresh: "mem_ok m \<Longrightarrow> cells m (brk m) = None"
  by (simp add: mem_ok_def)

lemma mem_ok_less: "mem_ok m \<Longrightarrow> cells m a = Some n \<Longrightarrow> a < brk m"
  by (metis mem_ok_def not_le option.distinct(1))

lemma mem_ok_upd: "mem_ok m \<Longrightarrow> cells m a = Some n \<Longrightarrow> mem_ok (m\<lparr>cells := (cells m)(a := x)\<rparr>)"
  by (auto simp: mem_ok_def)

definition empty_mem :: "nat \<Rightarrow> 'n mem" where
  "empty_mem q = \<lparr>cells = (\<lambda>_. None), brk = 0, quota = q\<rparr>"

lemma malloc_other_empty: "malloc_other (empty_mem q) = (if q = 0 then None else Some (empty_mem (q - 1)))"
  by (simp add: malloc_other_def empty_mem_def)

lemma mem_ok_empty [simp]: "mem_ok (empty_mem q)"
  by (simp add: mem_ok_def empty_mem_def)

section \<open>Strings of the C library\<close>

text \<open>
  \<open>strcmp\<close> compares bytes as unsigned values; the standard fixes only the sign of the
  result, which is what the programs test.
\<close>

fun strcmp :: "string \<Rightarrow> string \<Rightarrow> int" where
  "strcmp [] [] = 0"
| "strcmp [] (y # ys) = -1"
| "strcmp (x # xs) [] = 1"
| "strcmp (x # xs) (y # ys) =
     (if x = y then strcmp xs ys else if (of_char x :: nat) < of_char y then -1 else 1)"

lemma strcmp_le: "strcmp s t \<le> 0 \<longleftrightarrow> s \<le> t"
  by (induction s t rule: strcmp.induct) (auto simp: less_char_def)

lemma strcmp_gt: "strcmp s t > 0 \<longleftrightarrow> t < s"
  using strcmp_le [of s t] by auto

lemma strcmp_eq: "strcmp s t = 0 \<longleftrightarrow> s = t"
  by (induction s t rule: strcmp.induct) auto

text \<open>The \<open>%d\<close> conversion of the \<open>printf\<close> family.\<close>

fun nat_dec :: "nat \<Rightarrow> string" where
  "nat_dec n =
     (if n < 10 then [char_of (48 + n)] else nat_dec (n div 10) @ [char_of (48 + n mod 10)])"

declare nat_dec.simps [simp del]

definition dec :: "int \<Rightarrow> string" where
  "dec i = (if i < 0 then CHR ''-'' # nat_dec (nat (- i)) else nat_dec (nat i))"

section \<open>Stable insertion from the right\<close>

text \<open>
  \<open>insort_right f t xs\<close> puts \<open>t\<close> behind the last element whose key is at most that of
  \<open>t\<close>, found by walking from the right end to the left. Inserting the elements of a list
  one after the other in this way is a stable sort, hence equal to \<^const>\<open>sort_key\<close>.
\<close>

definition insort_right :: "('a \<Rightarrow> 'k::linorder) \<Rightarrow> 'a \<Rightarrow> 'a list \<Rightarrow> 'a list" where
  "insort_right f t xs =
     (let big = takeWhile (\<lambda>x. f t < f x) (rev xs)
      in rev (drop (length big) (rev xs)) @ t # rev big)"

lemma insort_right_split:
  obtains ys zs where "xs = ys @ zs" and "\<forall>z \<in> set zs. f t < f z"
    and "ys \<noteq> [] \<Longrightarrow> f (last ys) \<le> f t" and "insort_right f t xs = ys @ t # zs"
proof -
  let ?big = "takeWhile (\<lambda>x. f t < f x) (rev xs)"
  let ?rest = "dropWhile (\<lambda>x. f t < f x) (rev xs)"
  have rest: "drop (length ?big) (rev xs) = ?rest"
    by (simp add: dropWhile_eq_drop)
  have "xs = rev ?rest @ rev ?big"
    by (metis rev_append rev_rev_ident takeWhile_dropWhile_id)
  moreover have "\<forall>z \<in> set (rev ?big). f t < f z"
    using set_takeWhileD by fastforce
  moreover have "f (last (rev ?rest)) \<le> f t" if "rev ?rest \<noteq> []"
    using that hd_dropWhile [of "\<lambda>x. f t < f x" "rev xs"] by (simp add: last_rev not_less)
  moreover have "insort_right f t xs = rev ?rest @ t # rev ?big"
    by (simp add: insort_right_def rest)
  ultimately show thesis by (rule that)
qed

lemma mset_insort_right [simp]: "mset (insort_right f t xs) = add_mset t (mset xs)"
  by (rule insort_right_split [of xs f t]) simp

lemma set_insort_right [simp]: "set (insort_right f t xs) = insert t (set xs)"
  by (metis mset_insort_right set_mset_add_mset_insert set_mset_mset)

lemma sorted_insort_right:
  assumes "sorted (map f xs)"
  shows "sorted (map f (insort_right f t xs))"
proof (rule insort_right_split [of xs f t])
  fix ys zs
  assume xs: "xs = ys @ zs" and zs: "\<forall>z \<in> set zs. f t < f z"
    and ys: "ys \<noteq> [] \<Longrightarrow> f (last ys) \<le> f t" and eq: "insort_right f t xs = ys @ t # zs"
  have "\<forall>y \<in> set ys. f y \<le> f t"
  proof (cases ys rule: rev_cases)
    case (snoc us u)
    then have "\<forall>y \<in> set us. f y \<le> f u" and "f u \<le> f t"
      using assms xs ys by (auto simp: sorted_append)
    then show ?thesis using snoc by force
  qed simp
  then show ?thesis
    using assms xs zs eq by (force simp: sorted_append)
qed

lemma filter_insort_right:
  assumes "sorted (map f xs)"
  shows "filter (\<lambda>x. f x = k) (insort_right f t xs) =
    filter (\<lambda>x. f x = k) xs @ (if f t = k then [t] else [])"
proof (rule insort_right_split [of xs f t])
  fix ys zs
  assume xs: "xs = ys @ zs" and zs: "\<forall>z \<in> set zs. f t < f z"
    and eq: "insort_right f t xs = ys @ t # zs"
  have "filter (\<lambda>x. f x = k) zs = []" if "f t = k"
    using zs that by (auto simp: filter_empty_conv)
  then show ?thesis using eq xs by simp
qed

lemma fold_insort_right:
  assumes "sorted (map f ys)"
  shows "sorted (map f (fold (insort_right f) xs ys))"
    and "mset (fold (insort_right f) xs ys) = mset ys + mset xs"
    and "filter (\<lambda>x. f x = k) (fold (insort_right f) xs ys) = filter (\<lambda>x. f x = k) (ys @ xs)"
  using assms
  by (induction xs arbitrary: ys) (auto simp: sorted_insort_right filter_insort_right)

lemma fold_insort_right_sort_key: "fold (insort_right f) xs [] = sort_key f xs"
proof (rule properties_for_sort_key [symmetric])
  show "mset (fold (insort_right f) xs []) = mset xs"
    using fold_insort_right(2) [of f "[]" xs] by simp
  show "sorted (map f (fold (insort_right f) xs []))"
    by (rule fold_insort_right(1)) simp
  show "filter (\<lambda>x. f k = f x) (fold (insort_right f) xs []) = filter (\<lambda>x. f k = f x) xs"
    for k
    using fold_insort_right(3) [of f "[]" "f k" xs] by (simp add: eq_commute)
qed

section \<open>Grouping by key\<close>

lemma sort_key_groups:
  "sort_key f xs = concat (map (\<lambda>k. filter (\<lambda>x. f x = k) xs) (sorted_list_of_set (f ` set xs)))"
proof (rule properties_for_sort_key)
  let ?ks = "sorted_list_of_set (f ` set xs)"
  let ?ys = "concat (map (\<lambda>k. filter (\<lambda>x. f x = k) xs) ?ks)"
  have groups: "filter (\<lambda>x. f x = k) (concat (map (\<lambda>k. filter (\<lambda>x. f x = k) xs) ks)) =
      (if k \<in> set ks then filter (\<lambda>x. f x = k) xs else [])" if "distinct ks" for k ks
    using that
  proof (induction ks)
    case (Cons j ks)
    have "filter (\<lambda>x. f x = k \<and> f x = j) xs = (if j = k then filter (\<lambda>x. f x = k) xs else [])"
      by (auto simp: filter_empty_conv)
    with Cons show ?case by (auto simp: conj_commute)
  qed simp
  have keep: "filter (\<lambda>x. f x = k) ?ys = filter (\<lambda>x. f x = k) xs" for k
  proof (cases "k \<in> f ` set xs")
    case False
    then have "filter (\<lambda>x. f x = k) xs = []" by (auto simp: filter_empty_conv)
    with False show ?thesis using groups [of ?ks k] by simp
  qed (use groups [of ?ks k] in simp)
  then show "filter (\<lambda>x. f k = f x) ?ys = filter (\<lambda>x. f k = f x) xs" for k
    unfolding eq_commute [of "f k"] .
  show "mset ?ys = mset xs"
  proof (rule multiset_eqI)
    fix x
    have flt: "count (mset (filter (\<lambda>y. f y = f x) ys)) x = count (mset ys) x" for ys
      by simp
    from arg_cong [OF keep [of "f x"], of "\<lambda>ys. count (mset ys) x"]
    show "count (mset ?ys) x = count (mset xs) x" unfolding flt .
  qed
  have "sorted (map f (filter (\<lambda>x. f x = k) ys))" for k ys
    by (induction ys) auto
  then have "sorted (map f (concat (map (\<lambda>k. filter (\<lambda>x. f x = k) xs) ks)))" if "sorted ks" for ks
    using that by (induction ks) (auto simp: sorted_append)
  then show "sorted (map f ?ys)" by simp
qed

lemma map_insort_key: "map g (insort_key (\<lambda>x. f (g x)) x xs) = insort_key f (g x) (map g xs)"
  by (induction xs) simp_all

lemma map_sort_key: "map g (sort_key (\<lambda>x. f (g x)) xs) = sort_key f (map g xs)"
  by (induction xs) (simp_all add: map_insort_key)

section \<open>Running a list of operations\<close>

fun foldE :: "('e \<Rightarrow> 's \<Rightarrow> 's res) \<Rightarrow> 'e list \<Rightarrow> 's \<Rightarrow> 's res" where
  "foldE f [] s = Inr s"
| "foldE f (e # es) s = bindE (f e s) (\<lambda>s'. foldE f es s')"

lemma foldE_append [simp]: "foldE f (xs @ ys) s = bindE (foldE f xs s) (\<lambda>s'. foldE f ys s')"
  by (induction xs arbitrary: s) (auto simp: bindE_def split: sum.splits)

section \<open>The file system as the programs see it\<close>

text \<open>
  The file system is an argument of the models: what \<open>readdir\<close> yields for a directory (in
  its order, dot entries included; \<open>None\<close> when \<open>opendir\<close> fails), the file type \<open>stat\<close>
  reports (\<open>None\<close> when it fails), the bytes of a file opened for reading, and whether a file
  can be opened for writing.
\<close>

datatype fmode = S_IFREG | S_IFDIR | S_IFOTHER

record fsys =
  opendir :: "string \<Rightarrow> string list option"
  stat :: "string \<Rightarrow> fmode option"
  fopen_r :: "string \<Rightarrow> string option"
  fopen_w :: "string \<Rightarrow> bool"

text \<open>The test \<open>d_name[0] == '.'\<close>.\<close>

definition dot_name :: "string \<Rightarrow> bool" where
  "dot_name d = (case d of [] \<Rightarrow> False | c # _ \<Rightarrow> c = CHR ''.'')"

text \<open>The path \<open>{dir}/{name}\<close> that the programs build with \<open>strcpy\<close> and \<open>strcat\<close>.\<close>

definition join_path :: "string \<Rightarrow> string \<Rightarrow> string" where
  "join_path p d = p @ ''/'' @ d"

lemma length_join_path [simp]: "length (join_path p d) = length p + 1 + length d"
  by (simp add: join_path_def)

end
