(* ===== verification/Dirlist_Nodes.thy ===== *)
theory Dirlist_Nodes
  imports Posix_Prelude
begin

text \<open>
  The doubly linked list of \<open>dirlist/dirlist.c\<close>: its two structures, node creation,
  \<open>insert_sorted\<close>, \<open>insertion_sort_by_level_increasing\<close> and \<open>destroy_list\<close>, as
  programs over an explicit heap. The operations are polymorphic in the record
  extension, so that \<open>pardirlist.c\<close>, whose node has two more fields, shares the lemmas.

  A walk along the list gets \<open>Suc (brk m)\<close> units of fuel. There are at most \<open>brk m\<close>
  allocated cells, so a walk that needs more has met a cell twice and, since the walks do
  not write, would go round for ever: \<open>Diverge\<close> is exactly that.
\<close>

section \<open>Model\<close>

record node =
  path :: string
  level :: int
  nxt :: ptr
  prv :: ptr

record dlist =
  head :: ptr
  tail :: ptr

definition create_node :: "string \<Rightarrow> int \<Rightarrow> node mem \<Rightarrow> (nat \<times> node mem) res" where
  "create_node p lv m =
     (case malloc \<lparr>path = p, level = lv, nxt = None, prv = None\<rparr> m of
        (None, m') \<Rightarrow> Inl (Exit (-1))
      | (Some a, m') \<Rightarrow> Inr (a, m'))"

definition empty_list :: dlist where
  "empty_list = \<lparr>head = None, tail = None\<rparr>"

definition create_list :: "'a node_scheme mem \<Rightarrow> (dlist \<times> 'a node_scheme mem) res" where
  "create_list m =
     (case malloc_other m of
        None \<Rightarrow> Inl (Exit (-1))
      | Some m' \<Rightarrow> Inr (empty_list, m'))"

text \<open>The loop of \<open>insert_sorted\<close> that looks for the first node not below the new one.\<close>

fun find_pos :: "nat \<Rightarrow> 'a node_scheme mem \<Rightarrow> string \<Rightarrow> ptr \<Rightarrow> ptr res" where
  "find_pos 0 m p q = Inl Diverge"
| "find_pos (Suc k) m p q =
     bindE (deref m q) (\<lambda>n.
       if nxt n \<noteq> None \<and> strcmp p (path n) > 0 then find_pos k m p (nxt n) else Inr q)"

definition insert_sorted ::
    "nat \<Rightarrow> 'a node_scheme mem \<Rightarrow> dlist \<Rightarrow> ('a node_scheme mem \<times> dlist) res" where
  "insert_sorted a m l =
     (if head l = None \<and> tail l = None then Inr (m, l\<lparr>head := Some a, tail := Some a\<rparr>)
      else
        bindE (deref m (Some a)) (\<lambda>n.
        bindE (deref m (head l)) (\<lambda>h.
        if strcmp (path n) (path h) \<le> 0 then
          bindE (store (head l) (prv_update (\<lambda>_. Some a)) m) (\<lambda>m.
          bindE (store (Some a) (nxt_update (\<lambda>_. head l)) m) (\<lambda>m.
          Inr (m, l\<lparr>head := Some a\<rparr>)))
        else
        bindE (deref m (tail l)) (\<lambda>t.
        if strcmp (path n) (path t) > 0 then
          bindE (store (tail l) (nxt_update (\<lambda>_. Some a)) m) (\<lambda>m.
          bindE (store (Some a) (prv_update (\<lambda>_. tail l)) m) (\<lambda>m.
          Inr (m, l\<lparr>tail := Some a\<rparr>)))
        else
          bindE (find_pos (Suc (brk m)) m (path n) (head l)) (\<lambda>q.
          bindE (store (Some a) (nxt_update (\<lambda>_. q)) m) (\<lambda>m.
          bindE (deref m q) (\<lambda>x.
          bindE (store (Some a) (prv_update (\<lambda>_. prv x)) m) (\<lambda>m.
          bindE (deref m q) (\<lambda>x.
          bindE (store (prv x) (nxt_update (\<lambda>_. Some a)) m) (\<lambda>m.
          bindE (store q (prv_update (\<lambda>_. Some a)) m) (\<lambda>m.
          Inr (m, l))))))))))))"

text \<open>The inner loop of the level sort, and its two halves of relinking a node.\<close>

fun walk_back :: "nat \<Rightarrow> 'a node_scheme mem \<Rightarrow> ptr \<Rightarrow> int \<Rightarrow> ptr \<Rightarrow> ptr res" where
  "walk_back 0 m hp key bi = Inl Diverge"
| "walk_back (Suc k) m hp key bi =
     (if bi = hp then Inr bi
      else bindE (deref m bi) (\<lambda>b.
        if level b > key then walk_back k m hp key (prv b) else Inr bi))"

definition unlink_node :: "ptr \<Rightarrow> 'a node_scheme mem \<Rightarrow> 'a node_scheme mem res" where
  "unlink_node tmp m =
     bindE (deref m tmp) (\<lambda>t.
     bindE (if nxt t \<noteq> None then store (nxt t) (prv_update (\<lambda>_. prv t)) m else Inr m) (\<lambda>m.
     bindE (deref m tmp) (\<lambda>t.
     store (prv t) (nxt_update (\<lambda>_. nxt t)) m)))"

definition link_after :: "ptr \<Rightarrow> ptr \<Rightarrow> 'a node_scheme mem \<Rightarrow> 'a node_scheme mem res" where
  "link_after tmp bi m =
     bindE (deref m bi) (\<lambda>b.
     bindE (store tmp (nxt_update (\<lambda>_. nxt b)) m) (\<lambda>m.
     bindE (store tmp (prv_update (\<lambda>_. bi)) m) (\<lambda>m.
     bindE (deref m bi) (\<lambda>b.
     bindE (if nxt b \<noteq> None then store (nxt b) (prv_update (\<lambda>_. tmp)) m else Inr m) (\<lambda>m.
     store bi (nxt_update (\<lambda>_. tmp)) m)))))"

fun sort_loop :: "nat \<Rightarrow> 'a node_scheme mem \<Rightarrow> dlist \<Rightarrow> ptr \<Rightarrow> 'a node_scheme mem res" where
  "sort_loop 0 m l fi = Inl Diverge"
| "sort_loop (Suc k) m l fi =
     (if fi = None then Inr m
      else
        bindE (deref m fi) (\<lambda>f.
        bindE (walk_back (Suc (brk m)) m (head l) (level f) (prv f)) (\<lambda>bi.
        bindE (unlink_node fi m) (\<lambda>m.
        bindE (link_after fi bi m) (\<lambda>m.
        sort_loop k m l (nxt f))))))"

definition insertion_sort_by_level_increasing ::
    "'a node_scheme mem \<Rightarrow> dlist \<Rightarrow> 'a node_scheme mem res" where
  "insertion_sort_by_level_increasing m l =
     bindE (deref m (head l)) (\<lambda>h. sort_loop (Suc (brk m)) m l (nxt h))"

fun destroy_loop :: "nat \<Rightarrow> 'a node_scheme mem \<Rightarrow> ptr \<Rightarrow> 'a node_scheme mem res" where
  "destroy_loop 0 m cur = Inl Diverge"
| "destroy_loop (Suc k) m cur =
     (case cur of
        None \<Rightarrow> Inr m
      | Some a \<Rightarrow>
          bindE (deref m cur) (\<lambda>c.
          bindE (free a m) (\<lambda>m. destroy_loop k m (nxt c))))"

definition destroy_list :: "'a node_scheme mem \<Rightarrow> dlist \<Rightarrow> 'a node_scheme mem res" where
  "destroy_list m l = bindE (destroy_loop (Suc (brk m)) m (head l)) (\<lambda>m. Inr (free_other m))"

section \<open>Lists on the heap\<close>

text \<open>
  \<open>links c pr as nx\<close>: the cells \<open>as\<close> are chained in this order by their two pointers; the
  first one's \<open>prev\<close> is \<open>pr\<close>, the last one's \<open>next\<close> is \<open>nx\<close>.
\<close>

definition first_of :: "nat list \<Rightarrow> ptr \<Rightarrow> ptr" where
  "first_of as nx = (case as of [] \<Rightarrow> nx | a # _ \<Rightarrow> Some a)"

definition final_of :: "ptr \<Rightarrow> nat list \<Rightarrow> ptr" where
  "final_of pr as = (if as = [] then pr else Some (last as))"

lemma first_of_simps [simp]: "first_of [] nx = nx" "first_of (a # as) nx = Some a"
  by (simp_all add: first_of_def)

lemma final_of_simps [simp]: "final_of pr [] = pr" "final_of pr (a # as) = final_of (Some a) as"
  by (simp_all add: final_of_def)

lemma first_of_append [simp]: "first_of (as @ bs) nx = first_of as (first_of bs nx)"
  by (cases as) simp_all

lemma final_of_append [simp]: "final_of pr (as @ bs) = final_of (final_of pr as) bs"
  by (induction as arbitrary: pr) simp_all

fun links :: "(nat \<Rightarrow> 'a node_scheme option) \<Rightarrow> ptr \<Rightarrow> nat list \<Rightarrow> ptr \<Rightarrow> bool" where
  "links c pr [] nx = True"
| "links c pr (a # as) nx =
     (case c a of
        None \<Rightarrow> False
      | Some n \<Rightarrow> prv n = pr \<and> nxt n = first_of as nx \<and> links c (Some a) as nx)"

lemma links_append [simp]:
  "links c pr (as @ bs) nx \<longleftrightarrow>
     links c pr as (first_of bs nx) \<and> links c (final_of pr as) bs nx"
  by (induction as arbitrary: pr) (auto split: option.splits)

lemma links_frame [simp]: "a \<notin> set as \<Longrightarrow> links (c(a := x)) pr as nx = links c pr as nx"
  by (induction as arbitrary: pr) (auto split: option.splits)

lemma links_alloc: "links c pr as nx \<Longrightarrow> a \<in> set as \<Longrightarrow> \<exists>n. c a = Some n"
  by (induction as arbitrary: pr) (auto split: option.splits)

definition chain :: "'a node_scheme mem \<Rightarrow> dlist \<Rightarrow> nat list \<Rightarrow> bool" where
  "chain m l as \<longleftrightarrow> mem_ok m \<and> distinct as \<and> head l = first_of as None \<and> links (cells m) None as None"

definition is_dll :: "'a node_scheme mem \<Rightarrow> dlist \<Rightarrow> nat list \<Rightarrow> bool" where
  "is_dll m l as \<longleftrightarrow> chain m l as \<and> tail l = final_of None as"

lemma chain_length: "chain m l as \<Longrightarrow> length as \<le> brk m"
proof -
  assume c: "chain m l as"
  then have "set as \<subseteq> {..<brk m}"
    by (auto simp: chain_def dest: links_alloc mem_ok_less)
  then have "card (set as) \<le> brk m"
    using card_mono [of "{..<brk m}" "set as"] by simp
  with c show ?thesis by (simp add: chain_def distinct_card)
qed

text \<open>What the pointer operations leave alone: everything but the two links of a node.\<close>

definition node_data :: "'a node_scheme \<Rightarrow> 'a node_scheme" where
  "node_data n = n\<lparr>nxt := None, prv := None\<rparr>"

definition same_data :: "'a node_scheme mem \<Rightarrow> 'a node_scheme mem \<Rightarrow> bool" where
  "same_data m m' \<longleftrightarrow>
     brk m' = brk m \<and> quota m' = quota m \<and>
     (\<forall>a. map_option node_data (cells m' a) = map_option node_data (cells m a))"

lemma same_data_refl [simp]: "same_data m m"
  by (simp add: same_data_def)

lemma same_data_trans [trans]: "same_data m m' \<Longrightarrow> same_data m' m'' \<Longrightarrow> same_data m m''"
  by (simp add: same_data_def)

lemma node_data_upd [simp]:
  "node_data (nxt_update f n) = node_data n" "node_data (prv_update f n) = node_data n"
  by (simp_all add: node_data_def)

lemma same_data_upd:
  "cells m a = Some n \<Longrightarrow> node_data n' = node_data n \<Longrightarrow> same_data m (m\<lparr>cells := (cells m)(a := Some n')\<rparr>)"
  by (simp add: same_data_def)

definition node_at :: "'a node_scheme mem \<Rightarrow> nat \<Rightarrow> 'a node_scheme" where
  "node_at m a = the (cells m a)"

lemma node_at_Some: "cells m a = Some n \<Longrightarrow> node_at m a = n"
  by (simp add: node_at_def)

lemma node_data_fields:
  assumes "node_data n = node_data n'"
  shows "path n = path n'" and "level n = level n'" and "node.more n = node.more n'"
proof -
  from assms have "path (node_data n) = path (node_data n')" by simp
  then show "path n = path n'" by (simp add: node_data_def)
  from assms have "level (node_data n) = level (node_data n')" by simp
  then show "level n = level n'" by (simp add: node_data_def)
  from assms have "node.more (node_data n) = node.more (node_data n')" by simp
  then show "node.more n = node.more n'" by (simp add: node_data_def)
qed

lemma same_data_Some:
  assumes "same_data m m'" and "cells m a = Some n"
  shows "\<exists>n'. cells m' a = Some n' \<and> node_data n' = node_data n"
proof -
  from assms have "map_option node_data (cells m' a) = Some (node_data n)"
    unfolding same_data_def by (metis option.simps(9))
  then show ?thesis by auto
qed

lemma same_data_node_data:
  assumes "same_data m m'" and "cells m a \<noteq> None"
  shows "node_data (node_at m' a) = node_data (node_at m a)"
  using assms(2) same_data_Some [OF assms(1), of a] by (auto simp: node_at_def)

section \<open>Sorted insertion\<close>

abbreviation path_of :: "'a node_scheme mem \<Rightarrow> nat \<Rightarrow> string" where
  "path_of m a \<equiv> path (node_at m a)"

abbreviation level_of :: "'a node_scheme mem \<Rightarrow> nat \<Rightarrow> int" where
  "level_of m a \<equiv> level (node_at m a)"

lemma insort_key_split:
  "\<forall>b \<in> set bs. f b < f a \<Longrightarrow> f a \<le> f x \<Longrightarrow> insort_key f a (bs @ x # cs) = bs @ a # x # cs"
  by (induction bs) auto

lemma insort_key_above: "\<forall>b \<in> set bs. f b < f a \<Longrightarrow> insort_key f a bs = bs @ [a]"
  by (induction bs) auto

lemma find_pos_ok:
  assumes "links (cells m) pr (bs @ x # cs) nx" and "\<forall>b \<in> set bs. path_of m b < p"
    and "p \<le> path_of m x" and "length bs < k"
  shows "find_pos k m p (first_of bs (Some x)) = Inr (Some x)"
  using assms
proof (induction bs arbitrary: pr k)
  case Nil
  then obtain k' where "k = Suc k'" by (cases k) auto
  with Nil show ?case
    by (auto simp: res_simps node_at_def strcmp_gt split: option.splits)
next
  case (Cons b bs)
  then obtain k' where k: "k = Suc k'" by (cases k) auto
  from Cons.prems(1) obtain n where n: "cells m b = Some n" "nxt n = first_of bs (Some x)"
    and rest: "links (cells m) (Some b) (bs @ x # cs) nx"
    by (auto split: option.splits)
  have "find_pos k' m p (first_of bs (Some x)) = Inr (Some x)"
    using Cons.IH [OF rest] Cons.prems k by simp
  moreover have "first_of bs (Some x) \<noteq> None" by (cases bs) simp_all
  moreover have "strcmp p (path n) > 0"
    using Cons.prems(2) n(1) by (simp add: strcmp_gt node_at_def)
  ultimately show ?case using k n by (simp add: res_simps)
qed

lemma insert_sorted_front:
  assumes dll: "is_dll m l as" and as: "as = x # cs" and a: "cells m a = Some n" "nxt n = None" "prv n = None"
    and new: "a \<notin> set as" and le: "path n \<le> path_of m x"
  shows "\<exists>m' l'. insert_sorted a m l = Inr (m', l') \<and> is_dll m' l' (a # as) \<and> same_data m m'"
proof -
  from dll as have ok: "mem_ok m" and hd: "head l = Some x" and tl: "tail l = final_of (Some x) cs"
    and dist: "distinct as" by (auto simp: is_dll_def chain_def)
  from dll as obtain h where h: "cells m x = Some h" "prv h = None" "nxt h = first_of cs None"
    and cs: "links (cells m) (Some x) cs None"
    by (auto simp: is_dll_def chain_def split: option.splits)
  let ?m = "m\<lparr>cells := (cells m)(x := Some (h\<lparr>prv := Some a\<rparr>), a := Some (n\<lparr>nxt := Some x\<rparr>))\<rparr>"
  have ins: "insert_sorted a m l = Inr (?m, l\<lparr>head := Some a\<rparr>)"
    using hd h a le new as by (simp add: insert_sorted_def res_simps strcmp_le node_at_def)
  have "same_data m ?m"
    using h a new as by (auto simp: same_data_def)
  moreover have "mem_ok ?m" using ok h a by (auto simp: mem_ok_def)
  ultimately show ?thesis
    using ins new as dist h a cs tl by (auto simp: is_dll_def chain_def)
qed

lemma insert_sorted_back:
  assumes dll: "is_dll m l as" and as: "as = bs @ [y]" and a: "cells m a = Some n" "nxt n = None" "prv n = None"
    and new: "a \<notin> set as" and above: "\<forall>b \<in> set as. path_of m b < path n"
  shows "\<exists>m' l'. insert_sorted a m l = Inr (m', l') \<and> is_dll m' l' (as @ [a]) \<and> same_data m m'"
proof -
  from dll as have ok: "mem_ok m" and hd: "head l = first_of bs (Some y)" and tl: "tail l = Some y"
    and dist: "distinct as" by (auto simp: is_dll_def chain_def)
  from dll as obtain t where t: "cells m y = Some t" "prv t = final_of None bs" "nxt t = None"
    and bs: "links (cells m) None bs (Some y)"
    by (auto simp: is_dll_def chain_def split: option.splits)
  obtain x h where x: "first_of bs (Some y) = Some x" "cells m x = Some h" "x \<in> set as"
    using bs t as by (cases bs) (auto split: option.splits)
  let ?m = "m\<lparr>cells := (cells m)(y := Some (t\<lparr>nxt := Some a\<rparr>), a := Some (n\<lparr>prv := Some y\<rparr>))\<rparr>"
  have "path h < path n" "path t < path n"
    using above as x t by (auto simp: node_at_def)
  then have ins: "insert_sorted a m l = Inr (?m, l\<lparr>tail := Some a\<rparr>)"
    using hd tl x t a new as
    by (simp add: insert_sorted_def res_simps strcmp_le strcmp_gt not_le del: strcmp.simps)
  have "same_data m ?m"
    using t a new as by (auto simp: same_data_def)
  moreover have "mem_ok ?m" using ok t a by (auto simp: mem_ok_def)
  ultimately show ?thesis
    using ins new as dist t a bs hd x by (auto simp: is_dll_def chain_def)
qed

lemma insert_sorted_middle:
  assumes dll: "is_dll m l as" and as: "as = bs @ y # x # cs"
    and a: "cells m a = Some n" "nxt n = None" "prv n = None" and new: "a \<notin> set as"
    and below: "\<forall>b \<in> set (bs @ [y]). path_of m b < path n" and le: "path n \<le> path_of m x"
    and last: "path n \<le> path_of m (last as)"
  shows "\<exists>m' l'. insert_sorted a m l = Inr (m', l') \<and> is_dll m' l' (bs @ y # a # x # cs) \<and> same_data m m'"
proof -
  from dll as have ok: "mem_ok m" and hd: "head l = first_of (bs @ [y]) (Some x)"
    and tl: "tail l = Some (last as)" and dist: "distinct as"
    and lk: "links (cells m) None as None"
    by (auto simp: is_dll_def chain_def final_of_def)
  from lk as obtain yn xn where y: "cells m y = Some yn" "prv yn = final_of None bs" "nxt yn = Some x"
    and x: "cells m x = Some xn" "prv xn = Some y" "nxt xn = first_of cs None"
    and bs: "links (cells m) None bs (Some y)" and cs: "links (cells m) (Some x) cs None"
    by (auto split: option.splits)
  obtain h hn where h: "first_of (bs @ [y]) (Some x) = Some h" "cells m h = Some hn" "path hn < path n"
    using bs y below by (cases bs) (auto simp: node_at_def split: option.splits)
  obtain tn where t: "cells m (last as) = Some tn" "path n \<le> path tn"
  proof -
    have "last as \<in> set as" using as by (intro last_in_set) simp
    then obtain tn where "cells m (last as) = Some tn" using links_alloc [OF lk] by blast
    then show thesis using that last by (simp add: node_at_def)
  qed
  have "find_pos (Suc (brk m)) m (path n) (head l) = Inr (Some x)"
  proof -
    have "length as \<le> brk m" using dll by (auto simp: is_dll_def intro: chain_length)
    then show ?thesis
      using find_pos_ok [of m None "bs @ [y]" x cs None "path n" "Suc (brk m)"] lk as below le hd
      by simp
  qed
  moreover
  let ?m = "m\<lparr>cells := (cells m)(a := Some (n\<lparr>nxt := Some x, prv := Some y\<rparr>),
                y := Some (yn\<lparr>nxt := Some a\<rparr>), x := Some (xn\<lparr>prv := Some a\<rparr>))\<rparr>"
  have ne: "a \<noteq> y" "a \<noteq> x" "y \<noteq> x" using new dist as by auto
  ultimately have ins: "insert_sorted a m l = Inr (?m, l)"
    using hd tl h t x y a by (simp add: insert_sorted_def res_simps strcmp_le strcmp_gt not_less [symmetric] del: find_pos.simps)
  have "same_data m ?m"
    using x y a ne by (auto simp: same_data_def)
  moreover have "mem_ok ?m" using ok x y a by (auto simp: mem_ok_def)
  moreover have "final_of (Some x) cs = final_of None as" using as by simp
  ultimately show ?thesis
    using ins new as dist x y a bs cs hd tl ne by (auto simp: is_dll_def chain_def final_of_def)
qed

text \<open>Insertion into a sorted list is \<^const>\<open>insort_key\<close> on the addresses.\<close>

lemma insert_sorted_dll:
  assumes dll: "is_dll m l as" and a: "cells m a = Some n" "nxt n = None" "prv n = None"
    and new: "a \<notin> set as" and srt: "sorted (map (path_of m) as)"
  shows "\<exists>m' l'. insert_sorted a m l = Inr (m', l') \<and>
    is_dll m' l' (insort_key (path_of m) a as) \<and> same_data m m'"
proof -
  have pa: "path_of m a = path n" using a by (simp add: node_at_def)
  let ?bs = "takeWhile (\<lambda>b. path_of m b < path n) as"
  consider "as = []" | x cs where "as = x # cs" "path n \<le> path_of m x"
    | "as \<noteq> []" "\<forall>b \<in> set as. path_of m b < path n"
    | bs y x cs where "as = bs @ y # x # cs" "\<forall>b \<in> set (bs @ [y]). path_of m b < path n"
        "path n \<le> path_of m x"
  proof (cases "dropWhile (\<lambda>b. path_of m b < path n) as")
    case Nil
    then have "\<forall>b \<in> set as. path_of m b < path n" by (simp add: dropWhile_eq_Nil_conv)
    then show thesis using that(1,3) by blast
  next
    case (Cons x cs)
    then have as: "as = ?bs @ x # cs" by (metis takeWhile_dropWhile_id)
    have x: "path n \<le> path_of m x"
      using Cons hd_dropWhile [of "\<lambda>b. path_of m b < path n" as] by (simp add: not_less)
    show thesis
    proof (cases ?bs rule: rev_cases)
      case Nil
      then show thesis using as x that(2) by simp
    next
      case (snoc bs y)
      have "\<forall>b \<in> set ?bs. path_of m b < path n" using set_takeWhileD by fast
      then show thesis using as x snoc that(4) [of bs y x cs] by simp
    qed
  qed
  then show ?thesis
  proof cases
    case 1
    then show ?thesis using dll a by (auto simp: insert_sorted_def is_dll_def chain_def)
  next
    case 2
    then show ?thesis using insert_sorted_front [OF dll 2(1) a new] pa by simp
  next
    case 3
    then obtain bs y where "as = bs @ [y]" by (cases as rule: rev_cases) auto
    then show ?thesis
      using insert_sorted_back [OF dll _ a new, of bs y] 3 pa by (simp add: insort_key_above)
  next
    case 4
    have "path n \<le> path_of m (last as)"
    proof (cases "cs = []")
      case False
      then have "path_of m x \<le> path_of m (last cs)" using srt 4(1) by (simp add: sorted_append)
      then show ?thesis using False 4 by simp
    qed (use 4 in simp)
    then show ?thesis
      using insert_sorted_middle [OF dll 4(1) a new 4(2,3)] 4 pa insort_key_split [of "bs @ [y]" "path_of m" a x cs]
      by simp
  qed
qed

lemma same_data_at:
  assumes "same_data m m'"
  shows "node_data (node_at m' a) = node_data (node_at m a)"
proof (cases "cells m a")
  case None
  then have "cells m' a = None"
    using assms by (metis map_option_is_None same_data_def)
  with None show ?thesis by (simp add: node_at_def)
qed (use same_data_node_data [OF assms, of a] in simp)

lemma same_data_keys:
  assumes "same_data m m'"
  shows "path_of m' = path_of m" and "level_of m' = level_of m"
  using node_data_fields [OF same_data_at [OF assms]] by (auto simp: fun_eq_iff)

lemma same_data_key:
  assumes "same_data m m'"
  shows "path_of m' a = path_of m a" and "level_of m' a = level_of m a"
  using fun_cong [OF same_data_keys(1) [OF assms], of a] fun_cong [OF same_data_keys(2) [OF assms], of a]
  by simp_all

section \<open>The sort by level\<close>

lemma unlink_node_ok:
  assumes lk: "links (cells m) None (xs @ e # t # rs) None" and dist: "distinct (xs @ e # t # rs)"
    and ok: "mem_ok m"
  shows "\<exists>m'. unlink_node (Some t) m = Inr m' \<and> links (cells m') None (xs @ e # rs) None \<and>
    cells m' t = cells m t \<and> same_data m m' \<and> mem_ok m'"
proof -
  from lk obtain en tn where e: "cells m e = Some en" "nxt en = Some t" "prv en = final_of None xs"
    and t: "cells m t = Some tn" "prv tn = Some e" "nxt tn = first_of rs None"
    and xs: "links (cells m) None xs (Some e)" and rs: "links (cells m) (Some t) rs None"
    by (auto split: option.splits)
  have ne: "e \<noteq> t" "e \<notin> set xs" "e \<notin> set rs" "t \<notin> set rs" using dist by auto
  show ?thesis
  proof (cases rs)
    case Nil
    let ?m = "m\<lparr>cells := (cells m)(e := Some (en\<lparr>nxt := None\<rparr>))\<rparr>"
    have "unlink_node (Some t) m = Inr ?m"
      using e t Nil ne by (simp add: unlink_node_def res_simps)
    moreover have "same_data m ?m" using e by (auto simp: same_data_def)
    moreover have "mem_ok ?m" using ok e by (auto simp: mem_ok_def)
    ultimately show ?thesis using Nil e xs ne by auto
  next
    case (Cons r rs')
    then obtain rn where r: "cells m r = Some rn" "prv rn = Some t" "nxt rn = first_of rs' None"
      and rs': "links (cells m) (Some r) rs' None" using rs by (auto split: option.splits)
    have ne': "r \<noteq> e" "r \<noteq> t" "r \<notin> set rs'" "r \<notin> set xs" "e \<notin> set rs'" using dist Cons by auto
    let ?m = "m\<lparr>cells := (cells m)(r := Some (rn\<lparr>prv := Some e\<rparr>), e := Some (en\<lparr>nxt := Some r\<rparr>))\<rparr>"
    have "unlink_node (Some t) m = Inr ?m"
      using e t r Cons ne ne' by (simp add: unlink_node_def res_simps)
    moreover have "same_data m ?m" using e r ne' by (auto simp: same_data_def)
    moreover have "mem_ok ?m" using ok e r by (auto simp: mem_ok_def)
    ultimately show ?thesis using Cons e r xs rs' ne ne' by auto
  qed
qed

lemma link_after_ok:
  assumes lk: "links (cells m) None (xs @ b # rs) None" and dist: "distinct (xs @ b # rs)"
    and t: "cells m t = Some tn" "t \<notin> set (xs @ b # rs)" and ok: "mem_ok m"
  shows "\<exists>m'. link_after (Some t) (Some b) m = Inr m' \<and> links (cells m') None (xs @ b # t # rs) None \<and>
    same_data m m' \<and> mem_ok m'"
proof -
  from lk obtain bn where b: "cells m b = Some bn" "nxt bn = first_of rs None" "prv bn = final_of None xs"
    and xs: "links (cells m) None xs (Some b)" and rs: "links (cells m) (Some b) rs None"
    by (auto split: option.splits)
  show ?thesis
  proof (cases rs)
    case Nil
    let ?m = "m\<lparr>cells := (cells m)(t := Some (tn\<lparr>nxt := None, prv := Some b\<rparr>), b := Some (bn\<lparr>nxt := Some t\<rparr>))\<rparr>"
    have "link_after (Some t) (Some b) m = Inr ?m"
      using b t Nil by (simp add: link_after_def res_simps)
    moreover have "same_data m ?m" using b t by (auto simp: same_data_def)
    moreover have "mem_ok ?m" using ok b t by (auto simp: mem_ok_def)
    ultimately show ?thesis using Nil b t xs dist by auto
  next
    case (Cons r rs')
    then obtain rn where r: "cells m r = Some rn" "prv rn = Some b" "nxt rn = first_of rs' None"
      and rs': "links (cells m) (Some r) rs' None" using rs by (auto split: option.splits)
    let ?m = "m\<lparr>cells := (cells m)(t := Some (tn\<lparr>nxt := Some r, prv := Some b\<rparr>),
      r := Some (rn\<lparr>prv := Some t\<rparr>), b := Some (bn\<lparr>nxt := Some t\<rparr>))\<rparr>"
    have "link_after (Some t) (Some b) m = Inr ?m"
      using b t r Cons dist by (auto simp: link_after_def res_simps)
    moreover have "same_data m ?m" using b t r Cons dist by (auto simp: same_data_def)
    moreover have "mem_ok ?m" using ok b t r by (auto simp: mem_ok_def)
    ultimately show ?thesis using Cons b r t xs rs' dist by auto
  qed
qed

lemma walk_back_ok:
  assumes "links (cells m) pr (h # ys @ zs) nx" and "distinct (h # ys @ zs)"
    and "\<forall>z \<in> set zs. key < level_of m z" and "ys \<noteq> [] \<Longrightarrow> level_of m (last ys) \<le> key"
    and "length zs < k"
  shows "walk_back k m (Some h) key (final_of (Some h) (ys @ zs)) = Inr (final_of (Some h) ys)"
  using assms
proof (induction zs arbitrary: k nx rule: rev_induct)
  case Nil
  then obtain k' where k: "k = Suc k'" by (cases k) auto
  show ?case
  proof (cases ys rule: rev_cases)
    case (snoc us u)
    then obtain n where "cells m u = Some n" "u \<noteq> h" using Nil.prems(1,2) by (auto split: option.splits)
    then show ?thesis using k snoc Nil.prems(4) by (simp add: res_simps node_at_def final_of_def)
  qed (simp add: k)
next
  case (snoc z zs)
  then obtain k' where k: "k = Suc k'" by (cases k) auto
  from snoc.prems(1) obtain n where n: "cells m z = Some n" "prv n = final_of (Some h) (ys @ zs)"
    and lk: "links (cells m) pr (h # ys @ zs) (Some z)"
    by (auto split: option.splits)
  have "walk_back k' m (Some h) key (final_of (Some h) (ys @ zs)) = Inr (final_of (Some h) ys)"
    using snoc.IH [OF lk, of k'] snoc.prems k by simp
  moreover have "z \<noteq> h" "key < level n" using snoc.prems(2,3) n by (auto simp: node_at_def)
  ultimately show ?case using k n by (simp add: res_simps)
qed

lemma sort_loop_ok:
  assumes "chain m l (h # ys @ rs)" and "sorted (map (level_of m) ys)" and "length rs < k"
  shows "\<exists>m'. sort_loop k m l (first_of rs None) = Inr m' \<and>
    chain m' l (h # fold (insort_right (level_of m)) rs ys) \<and> same_data m m'"
  using assms
proof (induction rs arbitrary: m ys k)
  case Nil
  then obtain k' where "k = Suc k'" by (cases k) auto
  with Nil show ?case by auto
next
  case (Cons t rs)
  then obtain k' where k: "k = Suc k'" by (cases k) auto
  let ?f = "level_of m"
  obtain us vs where ys: "ys = us @ vs" "\<forall>v \<in> set vs. ?f t < ?f v"
      "us \<noteq> [] \<Longrightarrow> ?f (last us) \<le> ?f t" and ins: "insort_right ?f t ys = us @ t # vs"
    using insort_right_split [of ys ?f t] by metis
  let ?b = "last (h # us)" and ?bs = "butlast (h # us)"
  have hus: "h # us = ?bs @ [?b]" by simp
  from Cons.prems(1) have ok: "mem_ok m" and dist: "distinct (h # ys @ t # rs)"
    and hd: "head l = Some h" and lk: "links (cells m) None (h # ys @ t # rs) None"
    by (auto simp: chain_def)
  from lk obtain tn where t: "cells m t = Some tn" "prv tn = final_of (Some h) ys"
      "nxt tn = first_of rs None" by (auto split: option.splits)
  have "length vs < Suc (brk m)"
    using chain_length [OF Cons.prems(1)] ys(1) by simp
  moreover have "links (cells m) None (h # us @ vs) (Some t)" "distinct (h # us @ vs)"
    using lk dist ys(1) by (auto split: option.splits)
  moreover have lv: "level_of m t = level tn" using t by (simp add: node_at_def)
  ultimately have "walk_back (Suc (brk m)) m (Some h) (level tn) (final_of (Some h) (us @ vs)) =
      Inr (final_of (Some h) us)"
    using ys(2,3) by (intro walk_back_ok) simp_all
  then have wb: "walk_back (Suc (brk m)) m (head l) (level tn) (prv tn) = Inr (Some ?b)"
    using t hd ys(1) by (simp add: final_of_def del: walk_back.simps)
  obtain m1 where m1: "unlink_node (Some t) m = Inr m1" "links (cells m1) None (h # ys @ rs) None"
      "cells m1 t = Some tn" "same_data m m1" "mem_ok m1"
  proof -
    let ?e = "last (h # ys)" and ?es = "butlast (h # ys)"
    have "h # ys = ?es @ [?e]" by simp
    then have eq: "h # ys @ t # rs = ?es @ ?e # t # rs" "h # ys @ rs = ?es @ ?e # rs"
      by (metis append_Cons append_Nil append_assoc)+
    then show thesis
      using unlink_node_ok [of m ?es ?e t rs] lk dist ok t that by metis
  qed
  have split1: "h # ys @ rs = ?bs @ ?b # (vs @ rs)" and split2: "h # (us @ t # vs) @ rs = ?bs @ ?b # t # (vs @ rs)"
    using ys(1) hus by (metis append_Cons append_Nil append_assoc)+
  obtain m2 where m2: "link_after (Some t) (Some ?b) m1 = Inr m2"
      "links (cells m2) None (h # (us @ t # vs) @ rs) None" "same_data m1 m2" "mem_ok m2"
  proof -
    have "distinct (h # ys @ rs)" "t \<notin> set (h # ys @ rs)" using dist by auto
    then show thesis
      using link_after_ok [of m1 ?bs ?b "vs @ rs" t tn] m1 that unfolding split1 split2 by metis
  qed
  have sd: "same_data m m2" using m1(4) m2(3) by (rule same_data_trans)
  have "chain m2 l (h # (us @ t # vs) @ rs)"
    using m2 hd dist ys(1) by (auto simp: chain_def)
  moreover have "sorted (map (level_of m2) (us @ t # vs))"
    using sorted_insort_right [OF Cons.prems(2), of t] ins same_data_keys [OF sd] by simp
  ultimately obtain m' where "sort_loop k' m2 l (first_of rs None) = Inr m'"
      "chain m' l (h # fold (insort_right (level_of m2)) rs (us @ t # vs))" "same_data m2 m'"
    using Cons.IH [of m2 "us @ t # vs" k'] Cons.prems(3) k by auto
  then show ?case
    using k t wb m1(1) m2(1) sd ins same_data_keys [OF sd]
    by (auto simp: res_simps intro: same_data_trans simp del: walk_back.simps)
qed

text \<open>
  The sort leaves the head where it is and sorts the rest stably, whatever the levels are.
\<close>

lemma level_sort_chain:
  assumes "chain m l (h # rs)"
  shows "\<exists>m'. insertion_sort_by_level_increasing m l = Inr m' \<and>
    chain m' l (h # sort_key (level_of m) rs) \<and> same_data m m'"
proof -
  from assms obtain hn where h: "cells m h = Some hn" "nxt hn = first_of rs None" "head l = Some h"
    by (auto simp: chain_def split: option.splits)
  have "length rs < Suc (brk m)" using chain_length [OF assms] by simp
  then show ?thesis
    using sort_loop_ok [of m l h "[]" rs "Suc (brk m)"] assms h
    by (simp add: insertion_sort_by_level_increasing_def res_simps fold_insort_right_sort_key del: sort_loop.simps)
qed

lemma level_sort_min_head:
  assumes "chain m l as" and "as \<noteq> []" and "\<forall>a \<in> set as. level_of m (hd as) \<le> level_of m a"
  shows "\<exists>m'. insertion_sort_by_level_increasing m l = Inr m' \<and>
    chain m' l (sort_key (level_of m) as) \<and> same_data m m'"
proof -
  obtain h rs where as: "as = h # rs" using assms(2) by (cases as) auto
  have "sort_key (level_of m) (h # rs) = h # sort_key (level_of m) rs"
    using assms(3) as by (simp add: insort_is_Cons)
  then show ?thesis using level_sort_chain [of m l h rs] assms(1) as by simp
qed

section \<open>Destroying the list\<close>

lemma destroy_loop_ok:
  assumes "links (cells m) pr as None" and "distinct as" and "length as < k"
  shows "destroy_loop k m (first_of as None) =
    Inr (m\<lparr>cells := (\<lambda>a. if a \<in> set as then None else cells m a), quota := quota m + length as\<rparr>)"
  using assms
proof (induction as arbitrary: m pr k)
  case Nil
  then obtain k' where "k = Suc k'" by (cases k) auto
  then show ?case by simp
next
  case (Cons a as)
  then obtain k' where k: "k = Suc k'" by (cases k) auto
  from Cons.prems(1) obtain n where n: "cells m a = Some n" "nxt n = first_of as None"
    and lk: "links (cells m) (Some a) as None" by (auto split: option.splits)
  let ?m = "m\<lparr>cells := (cells m)(a := None), quota := Suc (quota m)\<rparr>"
  have "links (cells ?m) (Some a) as None" using lk Cons.prems(2) by simp
  from Cons.IH [OF this, of k'] show ?case
    using Cons.prems k n by (auto simp: res_simps free_def fun_eq_iff)
qed

lemma destroy_list_ok:
  assumes "chain m l as"
  shows "destroy_list m l =
    Inr (m\<lparr>cells := (\<lambda>a. if a \<in> set as then None else cells m a), quota := quota m + length as + 1\<rparr>)"
  using destroy_loop_ok [of m None as "Suc (brk m)"] assms chain_length [OF assms]
  by (simp add: destroy_list_def chain_def free_other_def del: destroy_loop.simps)

section \<open>Reading the list back\<close>

fun addrs :: "nat \<Rightarrow> 'a node_scheme mem \<Rightarrow> ptr \<Rightarrow> nat list" where
  "addrs 0 m p = []"
| "addrs (Suc k) m p =
     (case p of
        None \<Rightarrow> []
      | Some a \<Rightarrow> (case cells m a of None \<Rightarrow> [] | Some n \<Rightarrow> a # addrs k m (nxt n)))"

definition addrs_of :: "'a node_scheme mem \<Rightarrow> dlist \<Rightarrow> nat list" where
  "addrs_of m l = addrs (Suc (brk m)) m (head l)"

lemma addrs_links:
  "links (cells m) pr as None \<Longrightarrow> length as < k \<Longrightarrow> addrs k m (first_of as None) = as"
proof (induction as arbitrary: pr k)
  case Nil
  then show ?case by (cases k) auto
next
  case (Cons a as)
  then show ?case by (cases k) (auto split: option.splits)
qed

lemma addrs_of_chain: "chain m l as \<Longrightarrow> addrs_of m l = as"
  using addrs_links [of m None as "Suc (brk m)"] chain_length [of m l as]
  by (simp add: addrs_of_def chain_def del: addrs.simps)

text \<open>Every allocated cell is a node of the list: nothing has leaked.\<close>

definition owns :: "'a node_scheme mem \<Rightarrow> nat list \<Rightarrow> bool" where
  "owns m as \<longleftrightarrow> (\<forall>a. cells m a \<noteq> None \<longleftrightarrow> a \<in> set as)"

lemma same_data_owns: "same_data m m' \<Longrightarrow> owns m as \<Longrightarrow> owns m' as"
  unfolding owns_def same_data_def by (metis map_option_is_None)

lemma same_data_entries:
  assumes "same_data m m'"
  shows "map (\<lambda>a. (path_of m' a, level_of m' a)) as = map (\<lambda>a. (path_of m a, level_of m a)) as"
  using same_data_keys [OF assms] by (simp add: fun_eq_iff)

lemma destroy_list_owns:
  assumes "chain m l as" and "owns m as"
  shows "\<exists>m'. destroy_list m l = Inr m' \<and> (\<forall>a. cells m' a = None) \<and> quota m' = quota m + length as + 1"
  using destroy_list_ok [OF assms(1)] assms(2) by (auto simp: owns_def)

section \<open>The invariant of the sorted list\<close>

text \<open>A well-formed list, sorted by path, that owns every allocated cell.\<close>

definition list_inv :: "'a node_scheme mem \<times> dlist \<Rightarrow> bool" where
  "list_inv s \<longleftrightarrow>
     (let as = addrs_of (fst s) (snd s)
      in is_dll (fst s) (snd s) as \<and> sorted (map (path_of (fst s)) as) \<and> owns (fst s) as)"

lemma list_inv_empty: "list_inv (empty_mem q, empty_list)" "addrs_of (empty_mem q) empty_list = []"
  by (simp_all add: list_inv_def addrs_of_def empty_list_def empty_mem_def is_dll_def
      chain_def mem_ok_def owns_def)

lemma malloc_Some:
  "quota m \<noteq> 0 \<Longrightarrow> malloc n m =
     (Some (brk m), m\<lparr>cells := (cells m)(brk m := Some n), brk := Suc (brk m), quota := quota m - 1\<rparr>)"
  by (simp add: malloc_def)

lemma chain_malloc:
  assumes "chain m l as"
  shows "chain (m\<lparr>cells := (cells m)(brk m := Some n), brk := Suc (brk m), quota := k\<rparr>) l as"
    and "brk m \<notin> set as"
proof -
  show new: "brk m \<notin> set as"
    using assms by (auto simp: chain_def mem_ok_fresh dest: links_alloc)
  then show "chain (m\<lparr>cells := (cells m)(brk m := Some n), brk := Suc (brk m), quota := k\<rparr>) l as"
    using assms by (auto simp: chain_def mem_ok_def)
qed

text \<open>Allocating a node and linking it keeps the invariant.\<close>

lemma insert_fresh:
  fixes m :: "'a node_scheme mem"
  assumes inv: "list_inv (m, l)" and n: "nxt n = None" "prv n = None"
    and m1: "m1 = m\<lparr>cells := (cells m)(brk m := Some n), brk := Suc (brk m), quota := k\<rparr>"
  shows "\<exists>m' l'. insert_sorted (brk m) m1 l = Inr (m', l') \<and> list_inv (m', l') \<and>
    addrs_of m' l' = insort_key (path_of m1) (brk m) (addrs_of m l) \<and> same_data m1 m'"
    and "\<And>a. a \<in> set (addrs_of m l) \<Longrightarrow> cells m1 a = cells m a \<and> a \<noteq> brk m"
proof -
  define as where "as = addrs_of m l"
  have dll: "is_dll m l as" and srt: "sorted (map (path_of m) as)" and own: "owns m as"
    using inv by (auto simp: list_inv_def as_def Let_def)
  have new: "brk m \<notin> set as" and dll1: "is_dll m1 l as"
    using chain_malloc [of m l as] dll by (auto simp: is_dll_def m1)
  then show at: "\<And>a. a \<in> set (addrs_of m l) \<Longrightarrow> cells m1 a = cells m a \<and> a \<noteq> brk m"
    by (auto simp: m1 as_def)
  have srt1: "sorted (map (path_of m1) as)"
    using srt at by (simp add: node_at_def as_def cong: map_cong)
  obtain m' l' where ins: "insert_sorted (brk m) m1 l = Inr (m', l')"
      and dll2: "is_dll m' l' (insort_key (path_of m1) (brk m) as)" and sd: "same_data m1 m'"
    using insert_sorted_dll [OF dll1, of "brk m" n] new n srt1 by (auto simp: m1)
  have as': "addrs_of m' l' = insort_key (path_of m1) (brk m) as"
    using dll2 by (auto simp: is_dll_def intro: addrs_of_chain)
  have "owns m1 (insort_key (path_of m1) (brk m) as)"
    using own by (auto simp: owns_def set_insort_key m1)
  then have "list_inv (m', l')"
    using dll2 as' same_data_owns [OF sd] same_data_keys [OF sd] srt1
    by (simp add: list_inv_def sorted_insort_key)
  then show "\<exists>m' l'. insert_sorted (brk m) m1 l = Inr (m', l') \<and> list_inv (m', l') \<and>
      addrs_of m' l' = insort_key (path_of m1) (brk m) (addrs_of m l) \<and> same_data m1 m'"
    using ins as' sd unfolding as_def by blast
qed

end
