(* ===== verification/Dirlist.thy ===== *)
theory Dirlist
  imports Dirlist_Nodes
begin

text \<open>
  The program \<open>dirlist/dirlist.c\<close>: the traversal \<open>populate_list\<close>, the printer
  \<open>print_list_to_file\<close> and \<open>main\<close>, over the list of \<open>Dirlist_Nodes\<close>. The traversal is
  refined to a pure walk of the file system, the walk to the entries of a directory tree,
  and the printed file to the listing that the assignment describes.
\<close>

section \<open>Model\<close>

text \<open>\<open>insert_sorted(create_node(p, lv), list)\<close>, as both call sites write it.\<close>

definition add_entry :: "string \<times> int \<Rightarrow> node mem \<times> dlist \<Rightarrow> (node mem \<times> dlist) res" where
  "add_entry e s =
     (case e of (p, lv) \<Rightarrow> case s of (m, l) \<Rightarrow>
        bindE (create_node p lv m) (\<lambda>(a, m). insert_sorted a m l))"

text \<open>
  \<open>populate_list\<close> and its \<open>while\<close> loop over the directory entries. The third component of
  the state is the static variable \<open>current_level\<close>; \<open>buf\<close> is the type in the caller's
  \<open>struct stat\<close>, \<open>None\<close> while it is still indeterminate (a failing \<open>stat\<close> leaves it as it
  is). The path is built in \<open>char tmp[255]\<close>: a longer one, its terminator included, is an
  overrun. That bound is also what makes the recursion end.
\<close>

function populate_list ::
    "fsys \<Rightarrow> string \<Rightarrow> node mem \<times> dlist \<times> int \<Rightarrow> (node mem \<times> dlist \<times> int) res"
  and populate_loop ::
    "fsys \<Rightarrow> string \<Rightarrow> string list \<Rightarrow> fmode option \<Rightarrow> node mem \<times> dlist \<times> int \<Rightarrow>
      (node mem \<times> dlist \<times> int) res" where
  "populate_list fs p (m, l, lv) =
     bindE (if lv = 1 then bindE (add_entry (p, lv) (m, l)) (\<lambda>(m, l). Inr (m, l, lv + 1))
            else Inr (m, l, lv)) (\<lambda>st.
       case opendir fs p of
         None \<Rightarrow> Inl NullDeref
       | Some ds \<Rightarrow> populate_loop fs p ds None st)"
| "populate_loop fs p [] buf (m, l, lv) = Inr (m, l, lv)"
| "populate_loop fs p (d # ds) buf (m, l, lv) =
     (if dot_name d then populate_loop fs p ds buf (m, l, lv)
      else if length (join_path p d) + 1 > 255 then Inl Overflow
      else
        let tmp = join_path p d;
            buf' = (case stat fs tmp of None \<Rightarrow> buf | Some md \<Rightarrow> Some md)
        in bindE (add_entry (tmp, lv) (m, l)) (\<lambda>(m, l).
          case buf' of
            None \<Rightarrow> Inl Uninit
          | Some md \<Rightarrow>
              if md = S_IFDIR then
                bindE (populate_list fs tmp (m, l, lv + 1)) (\<lambda>(m, l, lv).
                  populate_loop fs p ds buf' (m, l, lv - 1))
              else populate_loop fs p ds buf' (m, l, lv)))"
  by pat_completeness auto
termination
  by (relation "measures [\<lambda>x. case x of Inl (fs, p, st) \<Rightarrow> 255 - length p
                                     | Inr (fs, p, ds, buf, st) \<Rightarrow> 255 - length p,
                         \<lambda>x. case x of Inl _ \<Rightarrow> 1 | Inr _ \<Rightarrow> 0,
                         \<lambda>x. case x of Inl _ \<Rightarrow> 0 | Inr (fs, p, ds, buf, st) \<Rightarrow> length ds]")
    auto

text \<open>
  The loop of \<open>print_list_to_file\<close>; \<open>order\<close> has no initial value. One line is
  \<open>"%d:%d:%s\n"\<close>.
\<close>

definition print_line :: "int \<Rightarrow> int \<Rightarrow> string \<Rightarrow> string" where
  "print_line lv order p = dec lv @ '':'' @ dec order @ '':'' @ p @ [CHR 0x0A]"

fun print_loop :: "nat \<Rightarrow> node mem \<Rightarrow> ptr \<Rightarrow> int option \<Rightarrow> string \<Rightarrow> string res" where
  "print_loop 0 m cur order out = Inl Diverge"
| "print_loop (Suc k) m cur order out =
     (if cur = None then Inr out
      else
        bindE (deref m cur) (\<lambda>c.
        bindE (if prv c = None then Inr 1
               else bindE (deref m (prv c)) (\<lambda>q.
                 if level c = level q
                 then (case order of None \<Rightarrow> Inl Uninit | Some i \<Rightarrow> Inr (i + 1))
                 else Inr 1)) (\<lambda>i.
        print_loop k m (nxt c) (Some i) (out @ print_line (level c) i (path c)))))"

definition print_list_to_file :: "fsys \<Rightarrow> node mem \<Rightarrow> dlist \<Rightarrow> string \<Rightarrow> string res" where
  "print_list_to_file fs m l filename =
     (if fopen_w fs filename then print_loop (Suc (brk m)) m (head l) None []
      else Inl NullDeref)"

text \<open>
  \<open>main\<close>: the exit status, what goes to standard output, the output file with its content,
  and the heap at the end. \<open>q\<close> is the number of nodes \<open>malloc\<close> can provide.
\<close>

record run =
  status :: int
  stdout :: string
  outfile :: "(string \<times> string) option"
  heap :: "node mem"

definition dirlist_main :: "fsys \<Rightarrow> nat \<Rightarrow> string list \<Rightarrow> run res" where
  "dirlist_main fs q argv =
     (if length argv \<noteq> 3 then
        Inr \<lparr>status = -1, stdout = ''usage: dirlist directory_path file_name'' @ [CHR 0x0A],
             outfile = None, heap = empty_mem q\<rparr>
      else
        bindE (create_list (empty_mem q)) (\<lambda>(l, m).
        bindE (populate_list fs (argv ! 1) (m, l, 1)) (\<lambda>(m, l, lv).
        bindE (insertion_sort_by_level_increasing m l) (\<lambda>m.
        bindE (print_list_to_file fs m l (argv ! 2)) (\<lambda>out.
        bindE (destroy_list m l) (\<lambda>m.
        Inr \<lparr>status = 0, stdout = [], outfile = Some (argv ! 2, out), heap = m\<rparr>))))))"

section \<open>The traversal as a walk\<close>

text \<open>
  The entries in the order in which the traversal meets them, and the failure that ends it,
  if one does.
\<close>

type_synonym entry = "string \<times> int"

function walk :: "fsys \<Rightarrow> string \<Rightarrow> int \<Rightarrow> entry list \<times> cerr option"
  and walk_loop ::
    "fsys \<Rightarrow> string \<Rightarrow> string list \<Rightarrow> fmode option \<Rightarrow> int \<Rightarrow> entry list \<times> cerr option" where
  "walk fs p lv =
     (case opendir fs p of None \<Rightarrow> ([], Some NullDeref) | Some ds \<Rightarrow> walk_loop fs p ds None lv)"
| "walk_loop fs p [] buf lv = ([], None)"
| "walk_loop fs p (d # ds) buf lv =
     (if dot_name d then walk_loop fs p ds buf lv
      else if length (join_path p d) + 1 > 255 then ([], Some Overflow)
      else
        let tmp = join_path p d;
            buf' = (case stat fs tmp of None \<Rightarrow> buf | Some md \<Rightarrow> Some md)
        in case buf' of
             None \<Rightarrow> ([(tmp, lv)], Some Uninit)
           | Some md \<Rightarrow>
               let (es, e) = (if md = S_IFDIR then walk fs tmp (lv + 1) else ([], None));
                   (es', e') = (if e = None then walk_loop fs p ds buf' lv else ([], e))
               in ((tmp, lv) # es @ es', e'))"
  by pat_completeness auto
termination
  by (relation "measures [\<lambda>x. case x of Inl (fs, p, lv) \<Rightarrow> 255 - length p
                                     | Inr (fs, p, ds, buf, lv) \<Rightarrow> 255 - length p,
                         \<lambda>x. case x of Inl _ \<Rightarrow> 1 | Inr _ \<Rightarrow> 0,
                         \<lambda>x. case x of Inl _ \<Rightarrow> 0 | Inr (fs, p, ds, buf, lv) \<Rightarrow> length ds]")
    auto

definition after_walk :: "cerr option \<Rightarrow> 'a \<Rightarrow> 'a res" where
  "after_walk e x = (case e of None \<Rightarrow> Inr x | Some err \<Rightarrow> Inl err)"

lemma after_walk_simps [simp]: "after_walk None x = Inr x" "after_walk (Some e) x = Inl e"
  by (simp_all add: after_walk_def)

declare populate_list.simps [simp del] populate_loop.simps(2) [simp del]
declare walk.simps [simp del] walk_loop.simps(2) [simp del]

text \<open>
  Refinement: below the root the traversal performs exactly the insertions of the walk, in
  its order, and fails exactly where the walk does (or where the memory runs out).
\<close>

lemma populate_walk:
  "2 \<le> lv \<Longrightarrow> populate_list fs p (m, l, lv) =
     bindE (foldE add_entry (fst (walk fs p lv)) (m, l)) (\<lambda>(m, l). after_walk (snd (walk fs p lv)) (m, l, lv))"
  "2 \<le> lv \<Longrightarrow> populate_loop fs p ds buf (m, l, lv) =
     bindE (foldE add_entry (fst (walk_loop fs p ds buf lv)) (m, l))
       (\<lambda>(m, l). after_walk (snd (walk_loop fs p ds buf lv)) (m, l, lv))"
proof (induction fs p lv and fs p ds buf lv arbitrary: m l and m l rule: walk_walk_loop.induct)
  case (1 fs p lv)
  then show ?case
    by (simp add: populate_list.simps walk.simps split: option.split)
next
  case (3 fs p d ds buf lv)
  let ?tmp = "join_path p d"
  define buf' where "buf' = (case stat fs ?tmp of None \<Rightarrow> buf | Some md \<Rightarrow> Some md)"
  note loop = populate_loop.simps(2) [of fs p d ds buf m l lv, unfolded Let_def, folded buf'_def]
    and wloop = walk_loop.simps(2) [of fs p d ds buf lv, unfolded Let_def, folded buf'_def]
  show ?case
  proof (cases "dot_name d \<or> 255 < length ?tmp + 1")
    case True
    then show ?thesis using 3(1,4) by (auto simp: loop wloop)
  next
    case False
    then have fits: "\<not> dot_name d" "\<not> 255 < length ?tmp + 1" by auto
    have sub: "populate_list fs ?tmp (m', l', lv + 1) =
        bindE (foldE add_entry (fst (walk fs ?tmp (lv + 1))) (m', l'))
          (\<lambda>(m, l). after_walk (snd (walk fs ?tmp (lv + 1))) (m, l, lv + 1))"
      if "buf' = Some S_IFDIR" for m' l'
      using 3(2) [OF fits refl buf'_def that refl] "3.prems" by simp
    have rest: "populate_loop fs p ds buf' (m', l', lv) =
        bindE (foldE add_entry (fst (walk_loop fs p ds buf' lv)) (m', l'))
          (\<lambda>(m, l). after_walk (snd (walk_loop fs p ds buf' lv)) (m, l, lv))"
      if "buf' = Some md" "(es, e) = (if md = S_IFDIR then walk fs ?tmp (lv + 1) else ([], None))" "e = None"
      for m' l' md es e
      using 3(3) [OF fits refl buf'_def that(1) refl that(2,3)] "3.prems" by simp
    show ?thesis
    proof (cases buf')
      case None
      then show ?thesis using fits by (auto simp: loop wloop bindE_def split: sum.split)
    next
      case (Some md)
      then show ?thesis using fits sub rest [OF Some]
        by (auto simp: loop wloop foldE_append bindE_def after_walk_def split: sum.split prod.split option.split)
    qed
  qed
qed simp

section \<open>The sorted store\<close>

text \<open>
  What the traversal relies on: a store that keeps its entries sorted by a key and takes one
  item at a time (\<open>val\<close> is the entry an item becomes, \<open>ok\<close> says which items can be taken). A
  bounded store uses up one unit of room per item and refuses with \<open>exit(-1)\<close> when the room
  is used up.
\<close>

locale sorted_store =
  fixes inv :: "'s \<Rightarrow> bool"
    and ents :: "'s \<Rightarrow> 'e list"
    and room :: "'s \<Rightarrow> nat"
    and key :: "'e \<Rightarrow> 'k::linorder"
    and val :: "'i \<Rightarrow> 'e"
    and ok :: "'i \<Rightarrow> bool"
    and put :: "'i \<Rightarrow> 's \<Rightarrow> 's res"
  assumes put_ok: "inv s \<Longrightarrow> ok x \<Longrightarrow> 0 < room s \<Longrightarrow>
      \<exists>s'. put x s = Inr s' \<and> inv s' \<and> ents s' = insort_key key (val x) (ents s) \<and> room s \<le> Suc (room s')"
begin

lemma put_all_ok:
  assumes "inv s" and "\<forall>x \<in> set xs. ok x" and "length xs \<le> room s"
  shows "\<exists>s'. foldE put xs s = Inr s' \<and> inv s' \<and> ents s' = fold (insort_key key) (map val xs) (ents s)"
  using assms
proof (induction xs arbitrary: s)
  case (Cons x xs)
  then obtain s1 where s1: "put x s = Inr s1" "inv s1" "ents s1 = insort_key key (val x) (ents s)"
      "room s \<le> Suc (room s1)"
    using put_ok [of s x] by auto
  then show ?case using Cons.IH [of s1] Cons.prems by auto
qed simp

lemma put_all_sorts:
  assumes "inv s" and "ents s = []" and "\<forall>x \<in> set xs. ok x" and "length xs \<le> room s"
  shows "\<exists>s'. foldE put xs s = Inr s' \<and> inv s' \<and> ents s' = sort_key key (rev (map val xs))"
proof -
  have "fold (insort_key key) (map val xs) [] = sort_key key (rev (map val xs))"
    by (simp add: sort_key_def foldr_conv_fold)
  then show ?thesis using put_all_ok [OF assms(1,3,4)] assms(2) by simp
qed

end

locale bounded_store = sorted_store +
  assumes put_room: "inv s \<Longrightarrow> put x s = Inr s' \<Longrightarrow> room s' = room s - 1"
    and put_full: "inv s \<Longrightarrow> room s = 0 \<Longrightarrow> put x s = Inl (Exit (-1))"
begin

lemma put_all_room:
  assumes "inv s" and "\<forall>x \<in> set xs. ok x" and "length xs \<le> room s" and "foldE put xs s = Inr s'"
  shows "room s' = room s - length xs"
  using assms
proof (induction xs arbitrary: s)
  case (Cons x xs)
  then obtain s1 where "put x s = Inr s1" "inv s1" "room s1 = room s - 1"
    using put_ok [of s x] put_room [of s x] by auto
  then show ?case using Cons.IH [of s1] Cons.prems by auto
qed simp

lemma put_all_full:
  assumes "inv s" and "\<forall>x \<in> set xs. ok x" and "room s < length xs"
  shows "foldE put xs s = Inl (Exit (-1))"
  using assms
proof (induction xs arbitrary: s)
  case (Cons x xs)
  show ?case
  proof (cases "room s")
    case 0
    then show ?thesis using put_full Cons.prems by simp
  next
    case (Suc k)
    then obtain s1 where "put x s = Inr s1" "inv s1" "room s1 = k"
      using put_ok [of s x] put_room [of s x] Cons.prems by auto
    then show ?thesis using Cons.IH [of s1] Cons.prems Suc by simp
  qed
qed simp

end

text \<open>The list of \<open>dirlist.c\<close> is such a store.\<close>

definition entries :: "'a node_scheme mem \<Rightarrow> nat list \<Rightarrow> entry list" where
  "entries m as = map (\<lambda>a. (path_of m a, level_of m a)) as"

definition list_ents :: "node mem \<times> dlist \<Rightarrow> entry list" where
  "list_ents s = entries (fst s) (addrs_of (fst s) (snd s))"

lemma list_ents_empty: "list_ents (empty_mem q, empty_list) = []"
  by (simp add: list_ents_def entries_def list_inv_empty)

lemma entries_insort:
  "entries m (insort_key (path_of m) a as) = insort_key fst (path_of m a, level_of m a) (entries m as)"
  by (induction as) (simp_all add: entries_def)

lemma add_entry_ok:
  assumes inv: "list_inv (m, l)" and q: "0 < quota m"
  shows "\<exists>m' l'. add_entry (p, lv) (m, l) = Inr (m', l') \<and> list_inv (m', l') \<and>
    list_ents (m', l') = insort_key fst (p, lv) (list_ents (m, l)) \<and> quota m' = quota m - 1"
proof -
  let ?n = "\<lparr>path = p, level = lv, nxt = None, prv = None\<rparr>"
  define m1 where "m1 = m\<lparr>cells := (cells m)(brk m := Some ?n), brk := Suc (brk m), quota := quota m - 1\<rparr>"
  define as where "as = addrs_of m l"
  note fresh = insert_fresh [OF inv _ _ m1_def, simplified]
  obtain m' l' where ins: "insert_sorted (brk m) m1 l = Inr (m', l')" and inv': "list_inv (m', l')"
      and as': "addrs_of m' l' = insort_key (path_of m1) (brk m) as" and sd: "same_data m1 m'"
    using fresh(1) by (auto simp: as_def)
  have "list_ents (m', l') = entries m1 (insort_key (path_of m1) (brk m) as)"
    using as' same_data_entries [OF sd] by (simp add: list_ents_def entries_def)
  also have "\<dots> = insort_key fst (p, lv) (entries m1 as)"
    unfolding entries_insort by (simp add: node_at_def m1_def)
  also have "entries m1 as = list_ents (m, l)"
    using fresh(2) by (simp add: list_ents_def entries_def as_def node_at_def cong: map_cong)
  finally have "list_ents (m', l') = insort_key fst (p, lv) (list_ents (m, l))" .
  moreover have "add_entry (p, lv) (m, l) = Inr (m', l')"
    using ins q by (simp add: add_entry_def create_node_def malloc_Some m1_def)
  moreover have "quota m' = quota m - 1" using sd by (simp add: same_data_def m1_def)
  ultimately show ?thesis using inv' by blast
qed

interpretation dls: bounded_store list_inv list_ents "\<lambda>s. quota (fst s)" fst "\<lambda>e. e" "\<lambda>_. True" add_entry
proof unfold_locales
  fix s :: "node mem \<times> dlist" and e :: entry
  obtain m l p lv where [simp]: "s = (m, l)" "e = (p, lv)" by (cases s, cases e)
  show "\<exists>s'. add_entry e s = Inr s' \<and> list_inv s' \<and>
      list_ents s' = insort_key fst e (list_ents s) \<and> quota (fst s) \<le> Suc (quota (fst s'))"
    if "list_inv s" "0 < quota (fst s)"
    using add_entry_ok [of m l p lv] that by fastforce
  show "quota (fst s') = quota (fst s) - 1" if "list_inv s" "add_entry e s = Inr s'" for s'
  proof (cases "quota m")
    case 0
    then show ?thesis using that by (simp add: add_entry_def create_node_def malloc_def)
  next
    case (Suc k)
    then show ?thesis using add_entry_ok [of m l p lv] that by auto
  qed
  show "add_entry e s = Inl (Exit (-1))" if "quota (fst s) = 0"
    using that by (simp add: add_entry_def create_node_def malloc_def)
qed

section \<open>Printing\<close>

text \<open>
  The lines for a list of entries, with the line format as an argument; the state is the level
  and the order of the last line.
\<close>

fun render ::
    "(int \<Rightarrow> int \<Rightarrow> string \<Rightarrow> string) \<Rightarrow> (int \<times> int) option \<Rightarrow> entry list \<Rightarrow> string" where
  "render ln st [] = []"
| "render ln st ((p, lv) # es) =
     (let i = (case st of None \<Rightarrow> 1 | Some (lv', j) \<Rightarrow> if lv = lv' then j + 1 else 1)
      in ln lv i p @ render ln (Some (lv, i)) es)"

lemma print_loop_ok:
  assumes "links (cells m) pr as None" and "length as < k"
    and "case pr of None \<Rightarrow> st = None \<and> order = None
       | Some q \<Rightarrow> (\<exists>qn j. cells m q = Some qn \<and> order = Some j \<and> st = Some (level qn, j))"
  shows "print_loop k m (first_of as None) order out = Inr (out @ render print_line st (entries m as))"
  using assms
proof (induction as arbitrary: pr k st order out)
  case Nil
  then show ?case by (cases k) (auto simp: entries_def)
next
  case (Cons a as)
  then obtain k' where k: "k = Suc k'" by (cases k) auto
  from Cons.prems(1) obtain n where n: "cells m a = Some n" "nxt n = first_of as None" "prv n = pr"
    and lk: "links (cells m) (Some a) as None" by (auto split: option.splits)
  define i where "i = (case st of None \<Rightarrow> 1 | Some (lv', j) \<Rightarrow> if level n = lv' then j + 1 else 1)"
  have "print_loop k' m (first_of as None) (Some i) (out @ print_line (level n) i (path n)) =
      Inr ((out @ print_line (level n) i (path n)) @ render print_line (Some (level n, i)) (entries m as))"
    using Cons.IH [OF lk, of k' "Some (level n, i)" "Some i"] Cons.prems(2) k n by simp
  moreover have "(if prv n = None then Inr 1
      else bindE (deref m (prv n)) (\<lambda>q. if level n = level q
        then (case order of None \<Rightarrow> Inl Uninit | Some i \<Rightarrow> Inr (i + 1)) else Inr 1)) = Inr i"
    using Cons.prems(3) n(3) by (cases pr) (auto simp: i_def res_simps)
  ultimately show ?case
    using k n by (simp add: res_simps entries_def node_at_def i_def Let_def)
qed

lemma print_list_ok:
  assumes "chain m l as" and "fopen_w fs f"
  shows "print_list_to_file fs m l f = Inr (render print_line None (entries m as))"
  using print_loop_ok [of m None as "Suc (brk m)" None None "[]"] assms chain_length [OF assms(1)]
  by (simp add: print_list_to_file_def chain_def del: print_loop.simps)

text \<open>
  The listing that the assignment asks for: level by level, the paths of a level in
  alphabetical order and numbered from 1.
\<close>

definition level_lines :: "(int \<Rightarrow> int \<Rightarrow> string \<Rightarrow> string) \<Rightarrow> int \<Rightarrow> string list \<Rightarrow> string" where
  "level_lines ln lv ps = concat (map (\<lambda>(i, p). ln lv (int i) p) (enumerate 1 ps))"

definition listing :: "(int \<Rightarrow> int \<Rightarrow> string \<Rightarrow> string) \<Rightarrow> entry list \<Rightarrow> string" where
  "listing ln es =
     concat (map (\<lambda>lv. level_lines ln lv (sort (map fst (filter (\<lambda>e. snd e = lv) es))))
       (sorted_list_of_set (snd ` set es)))"

lemma render_same_level:
  assumes "\<forall>e \<in> set g. snd e = lv"
  shows "render ln (Some (lv, int n)) (g @ es) =
    concat (map (\<lambda>(i, p). ln lv (int i) p) (enumerate (Suc n) (map fst g))) @
    render ln (Some (lv, int (n + length g))) es"
  using assms
proof (induction g arbitrary: n)
  case (Cons e g)
  obtain p where e: "e = (p, lv)" using Cons.prems by (cases e) auto
  have "1 + int n = int (Suc n)" by simp
  then show ?case using Cons.IH [of "Suc n"] Cons.prems e by (simp add: Let_def add.commute)
qed simp

lemma render_new_level:
  assumes "\<forall>e \<in> set g. snd e = lv" and "g \<noteq> []" and "\<forall>lv' j. st = Some (lv', j) \<longrightarrow> lv' \<noteq> lv"
  shows "render ln st (g @ es) = level_lines ln lv (map fst g) @ render ln (Some (lv, int (length g))) es"
proof -
  obtain p g' where g: "g = (p, lv) # g'" using assms(1,2) by (cases g) auto
  have "render ln st (g @ es) = ln lv 1 p @ render ln (Some (lv, int 1)) (g' @ es)"
    using assms(3) g by (auto split: option.splits)
  then show ?thesis
    using render_same_level [of g' lv ln 1 es] assms(1) g by (simp add: level_lines_def)
qed

lemma render_groups:
  assumes "distinct ks" and "\<forall>k \<in> set ks. f k \<noteq> [] \<and> (\<forall>e \<in> set (f k). snd e = k)"
    and "\<forall>lv j. st = Some (lv, j) \<longrightarrow> lv \<notin> set ks"
  shows "render ln st (concat (map f ks)) = concat (map (\<lambda>k. level_lines ln k (map fst (f k))) ks)"
  using assms
proof (induction ks arbitrary: st)
  case (Cons k ks)
  have "render ln st (f k @ concat (map f ks)) =
      level_lines ln k (map fst (f k)) @ render ln (Some (k, int (length (f k)))) (concat (map f ks))"
    using Cons.prems by (intro render_new_level) auto
  then show ?case using Cons.IH [of "Some (k, int (length (f k)))"] Cons.prems by simp
qed simp

lemma render_listing:
  assumes "sorted (map fst es)" and "mset es = mset es'"
  shows "render ln None (sort_key snd es) = listing ln es'"
proof -
  have "render ln None (sort_key snd es) =
      concat (map (\<lambda>k. level_lines ln k (map fst (filter (\<lambda>e. snd e = k) es))) (sorted_list_of_set (snd ` set es)))"
    unfolding sort_key_groups by (rule render_groups) (auto simp: filter_empty_conv)
  moreover have "sort (map fst (filter (\<lambda>e. snd e = k) es')) = map fst (filter (\<lambda>e. snd e = k) es)" for k
  proof (rule properties_for_sort)
    show "mset (map fst (filter (\<lambda>e. snd e = k) es)) = mset (map fst (filter (\<lambda>e. snd e = k) es'))"
      using assms(2) by (metis mset_filter mset_map)
    show "sorted (map fst (filter (\<lambda>e. snd e = k) es))"
      using assms(1) by (induction es) auto
  qed
  moreover have "set es = set es'" using assms(2) by (rule mset_eq_setD)
  ultimately show ?thesis by (simp add: listing_def)
qed

section \<open>Directory trees\<close>

datatype ftree = File | Dir "(string \<times> ftree) list"

text \<open>The visible entries below a directory, in the order of the tree.\<close>

fun tree_entries :: "string \<Rightarrow> int \<Rightarrow> (string \<times> ftree) list \<Rightarrow> entry list" where
  "tree_entries p lv [] = []"
| "tree_entries p lv ((n, File) # cs) =
     (if dot_name n then [] else [(join_path p n, lv)]) @ tree_entries p lv cs"
| "tree_entries p lv ((n, Dir ds) # cs) =
     (if dot_name n then []
      else (join_path p n, lv) # tree_entries (join_path p n) (lv + 1) ds) @ tree_entries p lv cs"

text \<open>The file system shows the given children at a path, and every visible path is short enough.\<close>

fun fs_shows :: "fsys \<Rightarrow> string \<Rightarrow> (string \<times> ftree) list \<Rightarrow> bool" where
  "fs_shows fs p [] = True"
| "fs_shows fs p ((n, File) # cs) =
     ((dot_name n \<or>
         length (join_path p n) < 255 \<and>
         (case stat fs (join_path p n) of None \<Rightarrow> False | Some md \<Rightarrow> md \<noteq> S_IFDIR)) \<and>
      fs_shows fs p cs)"
| "fs_shows fs p ((n, Dir ds) # cs) =
     ((dot_name n \<or>
         length (join_path p n) < 255 \<and> stat fs (join_path p n) = Some S_IFDIR \<and>
         opendir fs (join_path p n) = Some (map fst ds) \<and> fs_shows fs (join_path p n) ds) \<and>
      fs_shows fs p cs)"

definition fs_dir :: "fsys \<Rightarrow> string \<Rightarrow> (string \<times> ftree) list \<Rightarrow> bool" where
  "fs_dir fs p cs \<longleftrightarrow> opendir fs p = Some (map fst cs) \<and> fs_shows fs p cs"

lemma walk_loop_tree:
  "fs_shows fs p cs \<Longrightarrow> walk_loop fs p (map fst cs) buf lv = (tree_entries p lv cs, None)"
proof (induction p lv cs arbitrary: buf rule: tree_entries.induct)
  case (2 p lv n cs)
  then show ?case
    by (auto simp: walk_loop.simps(2) Let_def split: option.splits)
next
  case (3 p lv n ds cs)
  then show ?case
    by (auto simp: walk_loop.simps(2) walk.simps Let_def)
qed simp

lemma walk_tree: "fs_dir fs p cs \<Longrightarrow> walk fs p lv = (tree_entries p lv cs, None)"
  by (simp add: fs_dir_def walk.simps walk_loop_tree)

section \<open>The whole program\<close>

lemma less_join_path: "p < join_path p n"
  by (induction p) (simp_all add: join_path_def)

lemma walk_above:
  "e \<in> set (fst (walk fs p lv)) \<Longrightarrow> p < fst e \<and> lv \<le> snd e"
  "e \<in> set (fst (walk_loop fs p ds buf lv)) \<Longrightarrow> p < fst e \<and> lv \<le> snd e"
proof (induction fs p lv and fs p ds buf lv rule: walk_walk_loop.induct)
  case (1 fs p lv)
  then show ?case by (auto simp: walk.simps split: option.splits)
next
  case (3 fs p d ds buf lv)
  let ?tmp = "join_path p d"
  define buf' where "buf' = (case stat fs ?tmp of None \<Rightarrow> buf | Some md \<Rightarrow> Some md)"
  note wloop = walk_loop.simps(2) [of fs p d ds buf lv, unfolded Let_def, folded buf'_def]
  have below: "p < fst e \<and> lv \<le> snd e" if "?tmp < fst e \<and> lv + 1 \<le> snd e"
    using that less_join_path [of p d] by auto
  show ?case
  proof (cases "dot_name d \<or> 255 < length ?tmp + 1")
    case True
    then show ?thesis using "3.prems" 3(1) by (auto simp: wloop split: if_splits)
  next
    case False
    then have fits: "\<not> dot_name d" "\<not> 255 < length ?tmp + 1" by auto
    show ?thesis
      using "3.prems" fits less_join_path [of p d] below
        3(2) [OF fits refl buf'_def] 3(3) [OF fits refl buf'_def _ refl]
      by (auto simp: wloop split: if_splits option.splits prod.splits)
  qed
qed simp

lemma populate_root:
  "populate_list fs p (empty_mem q, empty_list, 1) =
     bindE (foldE add_entry ((p, 1) # fst (walk fs p 2)) (empty_mem q, empty_list))
       (\<lambda>(m, l). after_walk (snd (walk fs p 2)) (m, l, 2))"
proof (cases "add_entry (p, 1) (empty_mem q, empty_list)")
  case (Inr s)
  obtain m l where s: "s = (m, l)" by (cases s)
  have "populate_list fs p (empty_mem q, empty_list, 1) = populate_list fs p (m, l, 2)"
    using Inr s by (simp add: populate_list.simps split: option.split)
  then show ?thesis using Inr s populate_walk(1) [of 2 fs p m l] by simp
qed (simp add: populate_list.simps)

text \<open>The root sorts before everything below it, so the head of the list has the least level.\<close>

lemma root_first:
  assumes "\<forall>e \<in> set es. p < fst e"
  shows "hd (sort_key fst (rev ((p, lv) # es))) = (p, lv)"
proof -
  let ?xs = "sort_key fst (rev ((p, lv) # es))"
  have ne: "?xs \<noteq> []" and st: "set ?xs = insert (p, lv) (set es)"
    by (simp_all add: set_sort, metis length_0_conv length_append_singleton length_sort nat.distinct(1))
  obtain x xs where xs: "?xs = x # xs" using ne by (cases ?xs) auto
  have "sorted (map fst (x # xs))" using sorted_sort_key [of fst "rev ((p, lv) # es)"] xs by metis
  moreover have "(p, lv) \<in> set (x # xs)" using st unfolding xs by simp
  ultimately have "fst x \<le> p" by auto
  moreover have "x \<in> insert (p, lv) (set es)" using st unfolding xs by auto
  ultimately show ?thesis using assms xs by auto
qed

text \<open>
  The phase between traversal and output, for both programs: once the list holds the root and
  the entries below it, the level sort gives the order of the listing.
\<close>

lemma level_sort_listing:
  assumes inv: "list_inv (m, l)" and em: "entries m (addrs_of m l) = sort_key fst (rev ((root, 1) # es))"
    and above: "\<forall>e \<in> set es. root < fst e \<and> 2 \<le> snd e"
  defines "as \<equiv> sort_key (level_of m) (addrs_of m l)"
  shows "\<exists>m2. insertion_sort_by_level_increasing m l = Inr m2 \<and> chain m2 l as \<and> same_data m m2 \<and>
    owns m2 as \<and> length as = Suc (length es) \<and> (\<forall>ln. render ln None (entries m2 as) = listing ln ((root, 1) # es))"
proof -
  let ?as = "addrs_of m l" and ?es = "(root, 1) # es"
  have ch: "chain m l ?as" and own: "owns m ?as" using inv by (auto simp: list_inv_def is_dll_def Let_def)
  have len: "length ?as = length ?es" using arg_cong [OF em, of length] by (simp add: entries_def)
  then have ne: "?as \<noteq> []" by auto
  have "level_of m (hd ?as) \<le> level_of m a" if "a \<in> set ?as" for a
  proof -
    have "(path_of m a, level_of m a) \<in> set (entries m ?as)" using that by (auto simp: entries_def)
    then have "1 \<le> level_of m a" using em above by (auto simp: set_sort)
    moreover have "hd (entries m ?as) = (root, 1)" unfolding em using above by (intro root_first) simp
    then have "(path_of m (hd ?as), level_of m (hd ?as)) = (root, 1)"
      using ne by (simp add: entries_def list.map_sel(1))
    ultimately show ?thesis by simp
  qed
  then obtain m2 where m2: "insertion_sort_by_level_increasing m l = Inr m2" "chain m2 l as" and sd: "same_data m m2"
    using level_sort_min_head [OF ch ne] by (auto simp: as_def)
  have "entries m2 as = sort_key snd (entries m ?as)"
    using map_sort_key [of "\<lambda>a. (path_of m a, level_of m a)" snd ?as]
    unfolding entries_def same_data_entries [OF sd] as_def by simp
  moreover have "render ln None (sort_key snd (entries m ?as)) = listing ln ?es" for ln
    unfolding em by (rule render_listing) simp_all
  moreover have "owns m2 as" using own same_data_owns [OF sd] by (simp add: owns_def as_def)
  ultimately show ?thesis using m2 sd len by (auto simp: as_def)
qed

lemma add_entries_ok:
  assumes "length es \<le> q"
  shows "\<exists>m l. foldE add_entry es (empty_mem q, empty_list) = Inr (m, l) \<and> list_inv (m, l) \<and>
    list_ents (m, l) = sort_key fst (rev es) \<and> quota m = q - length es"
proof -
  have room: "length es \<le> quota (fst (empty_mem q, empty_list))" using assms by (simp add: empty_mem_def)
  obtain s where s: "foldE add_entry es (empty_mem q, empty_list) = Inr s" "list_inv s"
      "list_ents s = sort_key fst (rev es)"
    using dls.put_all_sorts [OF list_inv_empty(1) list_ents_empty _ room] by auto
  moreover have "quota (fst s) = q - length es"
    using dls.put_all_room [OF list_inv_empty(1) _ room s(1)] by (simp add: empty_mem_def)
  ultimately show ?thesis by (cases s) auto
qed

lemma dirlist_run:
  assumes w: "walk fs root 2 = (es, None)" and q: "length es < q" and f: "fopen_w fs out"
  shows "\<exists>m. dirlist_main fs (Suc q) [a0, root, out] =
      Inr \<lparr>status = 0, stdout = [], outfile = Some (out, listing print_line ((root, 1) # es)), heap = m\<rparr> \<and>
    (\<forall>a. cells m a = None) \<and> quota m = Suc q"
proof -
  let ?es = "(root, 1) # es"
  obtain m l where pop: "foldE add_entry ?es (empty_mem q, empty_list) = Inr (m, l)"
      and inv: "list_inv (m, l)" and ents: "list_ents (m, l) = sort_key fst (rev ?es)"
      and quo: "quota m = q - length ?es"
    using add_entries_ok [of ?es q] q by auto
  have above: "\<forall>e \<in> set es. root < fst e \<and> 2 \<le> snd e" using walk_above(1) [of _ fs root 2] w by simp
  define as where "as = sort_key (level_of m) (addrs_of m l)"
  have "entries m (addrs_of m l) = sort_key fst (rev ?es)" using ents by (simp add: list_ents_def)
  then obtain m2 where m2: "insertion_sort_by_level_increasing m l = Inr m2" "chain m2 l as" "same_data m m2"
      "owns m2 as" "length as = length ?es" "render print_line None (entries m2 as) = listing print_line ?es"
    using level_sort_listing [OF inv _ above] by (auto simp: as_def)
  have pr: "print_list_to_file fs m2 l out = Inr (listing print_line ?es)"
    using print_list_ok [OF m2(2) f] m2(6) by simp
  obtain m3 where m3: "destroy_list m2 l = Inr m3" "\<forall>a. cells m3 a = None" "quota m3 = quota m2 + length as + 1"
    using destroy_list_owns [OF m2(2,4)] by blast
  then have "quota m3 = Suc q" using m2(3,5) quo q by (simp add: same_data_def)
  then show ?thesis
    using m2(1) pr m3(1,2) pop w by (simp add: dirlist_main_def create_list_def malloc_other_empty populate_root del: foldE.simps)
qed

section \<open>Properties\<close>

text \<open>A small file system, after the example of the assignment, for the witnesses.\<close>

definition demo_tree :: "(string \<times> ftree) list" where
  "demo_tree =
     [(''.'', Dir []), (''..'', Dir []), (''chap4'', Dir [(''t.c'', File), (''D.java'', File)]), (''README'', File),
      (''chap3'', Dir [(''win.c'', File), (''Sim'', Dir [(''dup.c'', File)])])]"

definition demo_fs :: fsys where
  "demo_fs =
     \<lparr>opendir = map_of
        [(''/r'', [''.'', ''..'', ''chap4'', ''README'', ''chap3'']), (''/r/chap4'', [''t.c'', ''D.java'']),
         (''/r/chap3'', [''win.c'', ''Sim'']), (''/r/chap3/Sim'', [''dup.c''])],
      stat = map_of
        [(''/r/chap4'', S_IFDIR), (''/r/chap3'', S_IFDIR), (''/r/chap3/Sim'', S_IFDIR),
         (''/r/README'', S_IFREG), (''/r/chap4/t.c'', S_IFREG), (''/r/chap4/D.java'', S_IFREG),
         (''/r/chap3/win.c'', S_IFREG), (''/r/chap3/Sim/dup.c'', S_IFREG)],
      fopen_r = map_of
        [(''/r/README'', ''int x;''), (''/r/chap4/t.c'', ''int x; int y;''), (''/r/chap4/D.java'', ''int x;''),
         (''/r/chap3/win.c'', ''int x;''), (''/r/chap3/Sim/dup.c'', ''int x; int y; int z;'')],
      fopen_w = (\<lambda>f. f = ''out'')\<rparr>"

text \<open>
  C1. On a file system that shows a directory tree below \<open>root\<close> with every visible path
  shorter than 255 bytes, and with memory for all entries, \<open>dirlist\<close> exits with status 0,
  writes exactly the listing of the assignment (level by level, each level in \<open>strcmp\<close> order
  and numbered from 1, dot entries left out, the root as \<open>1:1:root\<close>) and frees every node.
\<close>

theorem dirlist_listing:
  assumes "fs_dir fs root cs" and "length (tree_entries root 2 cs) + 1 < q" and "fopen_w fs out"
  shows "\<exists>m. dirlist_main fs q [a0, root, out] =
      Inr \<lparr>status = 0, stdout = [],
           outfile = Some (out, listing print_line ((root, 1) # tree_entries root 2 cs)), heap = m\<rparr> \<and>
    (\<forall>a. cells m a = None) \<and> quota m = q"
  using dirlist_run [OF walk_tree [OF assms(1)], of "q - 1" out a0] assms(2,3) by simp

theorem dirlist_listing_witness:
  "\<exists>m. dirlist_main demo_fs 10 [''dirlist'', ''/r'', ''out''] =
     Inr \<lparr>status = 0, stdout = [],
          outfile = Some (''out'', concat (map (\<lambda>s. s @ [CHR 0x0A])
            [''1:1:/r'', ''2:1:/r/README'', ''2:2:/r/chap3'', ''2:3:/r/chap4'',
             ''3:1:/r/chap3/Sim'', ''3:2:/r/chap3/win.c'', ''3:3:/r/chap4/D.java'', ''3:4:/r/chap4/t.c'',
             ''4:1:/r/chap3/Sim/dup.c''])), heap = m\<rparr> \<and> (\<forall>a. cells m a = None)"
proof -
  have dir: "fs_dir demo_fs ''/r'' demo_tree" by code_simp
  have q: "length (tree_entries ''/r'' 2 demo_tree) + 1 < 10" by code_simp
  have w: "fopen_w demo_fs ''out''" by code_simp
  have "listing print_line ((''/r'', 1) # tree_entries ''/r'' 2 demo_tree) = concat (map (\<lambda>s. s @ [CHR 0x0A])
            [''1:1:/r'', ''2:1:/r/README'', ''2:2:/r/chap3'', ''2:3:/r/chap4'',
             ''3:1:/r/chap3/Sim'', ''3:2:/r/chap3/win.c'', ''3:3:/r/chap4/D.java'', ''3:4:/r/chap4/t.c'',
             ''4:1:/r/chap3/Sim/dup.c''])" by code_simp
  then show ?thesis using dirlist_listing [OF dir q w, of "''dirlist''"] by auto
qed



text \<open>
  The first visible entry whose path, terminator included, needs more than the 255 bytes
  of \<open>tmp\<close> overruns that array, although the assignment allows paths of any length.
\<close>

theorem dirlist_long_path:
  assumes "opendir fs root = Some (d # ds)" and "\<not> dot_name d"
    and "255 \<le> length (join_path root d)" and "1 < q"
  shows "dirlist_main fs q [a0, root, out] = Inl Overflow"
proof -
  obtain m l where "add_entry (root, 1) (empty_mem (q - 1), empty_list) = Inr (m, l)"
    using add_entry_ok [OF list_inv_empty(1), of "q - 1" root 1] assms(4) by (auto simp: empty_mem_def)
  moreover have "walk fs root 2 = ([], Some Overflow)"
    using assms by (simp add: walk.simps walk_loop.simps(2))
  ultimately show ?thesis
    using assms(4) by (simp add: dirlist_main_def create_list_def malloc_other_empty populate_root)
qed

theorem dirlist_long_path_witness:
  "dirlist_main (demo_fs\<lparr>opendir := (\<lambda>_. Some [replicate 252 CHR ''x''])\<rparr>) 5
     [''dirlist'', ''/r'', ''out''] = Inl Overflow"
proof (rule dirlist_long_path)
  show "opendir (demo_fs\<lparr>opendir := (\<lambda>_. Some [replicate 252 CHR ''x''])\<rparr>) ''/r'' =
    Some [replicate 252 CHR ''x'']" by simp
  show "\<not> dot_name (replicate 252 CHR ''x'')" by code_simp
  show "255 \<le> length (join_path ''/r'' (replicate 252 CHR ''x''))" by simp
qed simp

text \<open>
  C12. \<open>insert_sorted\<close> refines sorted insertion: on a well-formed doubly linked list whose
  paths are in order, linking a fresh node succeeds, gives a well-formed doubly linked list,
  puts the node before the first node with a path not below its own, and changes nothing but
  link fields.
\<close>

theorem insert_sorted_refines:
  assumes "is_dll m l as" and "sorted (map (path_of m) as)"
    and "cells m a = Some n" and "nxt n = None" and "prv n = None" and "a \<notin> set as"
  shows "\<exists>m' l'. insert_sorted a m l = Inr (m', l') \<and>
    is_dll m' l' (insort_key (path_of m) a as) \<and>
    sorted (map (path_of m') (insort_key (path_of m) a as)) \<and> same_data m m'"
proof -
  obtain m' l' where "insert_sorted a m l = Inr (m', l')"
      "is_dll m' l' (insort_key (path_of m) a as)" "same_data m m'"
    using insert_sorted_dll [OF assms(1,3-6,2)] by blast
  then show ?thesis using assms(2) same_data_keys(1) [of m m'] by (auto simp: sorted_insort_key)
qed

definition demo_mem :: "node mem" where
  "demo_mem =
     \<lparr>cells = (\<lambda>_. None)
        (0 := Some \<lparr>path = ''a'', level = 1, nxt = Some 1, prv = None\<rparr>,
         1 := Some \<lparr>path = ''c'', level = 3, nxt = None, prv = Some 0\<rparr>,
         2 := Some \<lparr>path = ''b'', level = 2, nxt = None, prv = None\<rparr>), brk = 3, quota = 5\<rparr>"

lemma demo_mem_dll: "is_dll demo_mem \<lparr>head = Some 0, tail = Some 1\<rparr> [0, 1]"
  by (simp add: is_dll_def chain_def demo_mem_def mem_ok_def)

theorem insert_sorted_refines_witness:
  "\<exists>m' l'. insert_sorted 2 demo_mem \<lparr>head = Some 0, tail = Some 1\<rparr> = Inr (m', l') \<and>
     is_dll m' l' [0, 2, 1]"
proof -
  have "insort_key (path_of demo_mem) 2 [0, 1] = [0, 2, 1]" by code_simp
  moreover have "sorted (map (path_of demo_mem) [0, 1])" by code_simp
  ultimately show ?thesis
    using insert_sorted_refines [OF demo_mem_dll, of 2 "\<lparr>path = ''b'', level = 2, nxt = None, prv = None\<rparr>"]
    by (simp add: demo_mem_def) blast
qed

text \<open>
  C13. \<open>insertion_sort_by_level_increasing\<close> is a stable sort of everything behind the head:
  on any well-formed list it returns, leaves the head in place, and the remaining nodes are in
  the order of \<^const>\<open>sort_key\<close> on their levels; only link fields change.
\<close>

theorem level_sort_stable:
  assumes "chain m l (h # rs)"
  shows "\<exists>m'. insertion_sort_by_level_increasing m l = Inr m' \<and>
    chain m' l (h # sort_key (level_of m) rs) \<and> same_data m m'"
  using assms by (rule level_sort_chain)

definition demo_sort_mem :: "node mem" where
  "demo_sort_mem =
     \<lparr>cells = (\<lambda>_. None)
        (0 := Some \<lparr>path = ''a'', level = 1, nxt = Some 1, prv = None\<rparr>,
         1 := Some \<lparr>path = ''b'', level = 3, nxt = Some 2, prv = Some 0\<rparr>,
         2 := Some \<lparr>path = ''c'', level = 2, nxt = None, prv = Some 1\<rparr>), brk = 3, quota = 5\<rparr>"

lemma demo_sort_dll: "is_dll demo_sort_mem \<lparr>head = Some 0, tail = Some 2\<rparr> [0, 1, 2]"
  by (simp add: is_dll_def chain_def demo_sort_mem_def mem_ok_def)

theorem level_sort_stable_witness:
  "\<exists>m'. insertion_sort_by_level_increasing demo_sort_mem \<lparr>head = Some 0, tail = Some 2\<rparr> = Inr m' \<and>
     chain m' \<lparr>head = Some 0, tail = Some 2\<rparr> [0, 2, 1]"
proof -
  have "sort_key (level_of demo_sort_mem) [1, 2] = [2, 1]" by code_simp
  moreover have "chain demo_sort_mem \<lparr>head = Some 0, tail = Some 2\<rparr> [0, 1, 2]"
    using demo_sort_dll by (simp add: is_dll_def)
  ultimately show ?thesis using level_sort_stable [of demo_sort_mem _ 0 "[1, 2]"] by auto
qed

text \<open>
  The level sort never updates \<open>list->tail\<close>: whenever it changes which node is last, the
  list it leaves behind is no longer a well-formed \<open>struct list\<close>.
\<close>

theorem level_sort_stale_tail:
  assumes "is_dll m l (h # rs)" and "last (h # sort_key (level_of m) rs) \<noteq> last (h # rs)"
  shows "\<exists>m'. insertion_sort_by_level_increasing m l = Inr m' \<and> (\<forall>as. \<not> is_dll m' l as)"
proof -
  obtain m' where m': "insertion_sort_by_level_increasing m l = Inr m'"
      "chain m' l (h # sort_key (level_of m) rs)"
    using level_sort_chain [of m l h rs] assms(1) by (auto simp: is_dll_def)
  have "\<not> is_dll m' l as" for as
  proof
    assume dll: "is_dll m' l as"
    then have "as = h # sort_key (level_of m) rs"
      using addrs_of_chain m'(2) by (metis is_dll_def)
    then have "final_of None (h # sort_key (level_of m) rs) = final_of None (h # rs)"
      using dll assms(1) by (simp add: is_dll_def)
    then show False using assms(2) by (simp only: final_of_def) simp
  qed
  then show ?thesis using m'(1) by blast
qed

theorem level_sort_stale_tail_witness:
  "\<exists>m'. insertion_sort_by_level_increasing demo_sort_mem \<lparr>head = Some 0, tail = Some 2\<rparr> = Inr m' \<and>
     (\<forall>as. \<not> is_dll m' \<lparr>head = Some 0, tail = Some 2\<rparr> as)"
proof -
  have "sort_key (level_of demo_sort_mem) [1, 2] = [2, 1]" by code_simp
  then show ?thesis using level_sort_stale_tail [OF demo_sort_dll] by simp
qed

text \<open>
  \<open>destroy_list\<close> frees exactly the nodes of the list, each once and never reading a freed
  one, and the list structure itself; no other cell changes.
\<close>

theorem destroy_list_frees:
  assumes "chain m l as"
  shows "\<exists>m'. destroy_list m l = Inr m' \<and>
    (\<forall>a. cells m' a = (if a \<in> set as then None else cells m a)) \<and>
    quota m' = quota m + length as + 1"
  using destroy_list_ok [OF assms] by simp

theorem destroy_list_frees_witness:
  "\<exists>m'. destroy_list demo_sort_mem \<lparr>head = Some 0, tail = Some 2\<rparr> = Inr m' \<and> quota m' = 9"
proof -
  have "chain demo_sort_mem \<lparr>head = Some 0, tail = Some 2\<rparr> [0, 1, 2]"
    using demo_sort_dll by (simp add: is_dll_def)
  from destroy_list_frees [OF this] show ?thesis by (auto simp: demo_sort_mem_def)
qed

text \<open>
  C11. Below the root the recursive traversal is the walk of the file system: it inserts the
  entries of the walk in the walk's order, restores \<open>current_level\<close>, and fails where the walk
  fails.
\<close>

theorem populate_list_is_walk:
  assumes "2 \<le> lv"
  shows "populate_list fs p (m, l, lv) =
    bindE (foldE add_entry (fst (walk fs p lv)) (m, l))
      (\<lambda>(m, l). after_walk (snd (walk fs p lv)) (m, l, lv))"
  using assms by (rule populate_walk(1))

theorem populate_list_is_walk_witness:
  "populate_list demo_fs ''/r/chap3'' (empty_mem 9, empty_list, 3) =
    bindE (foldE add_entry [(''/r/chap3/win.c'', 3), (''/r/chap3/Sim'', 3), (''/r/chap3/Sim/dup.c'', 4)]
      (empty_mem 9, empty_list)) (\<lambda>(m, l). Inr (m, l, 3))"
proof -
  have "walk demo_fs ''/r/chap3'' 3 =
      ([(''/r/chap3/win.c'', 3), (''/r/chap3/Sim'', 3), (''/r/chap3/Sim/dup.c'', 4)], None)" by code_simp
  then show ?thesis
    using populate_list_is_walk [of 3 demo_fs "''/r/chap3''" "empty_mem 9" empty_list] by simp
qed

end
