(* ===== verification/Posix_Text.thy ===== *)
theory Posix_Text
  imports Posix_Prelude
begin

text \<open>
  Reading text the way the programs do: \<open>fgets\<close> into a buffer of fixed size, \<open>strtok_r\<close>
  over the buffer, and the loop that counts the tokens equal to a keyword
  (\<open>pardirlist.c\<close> uses it twice). The loop is compared with the words of the whole text.
\<close>

section \<open>Model\<close>

text \<open>
  \<open>fgets(buf, n, fs)\<close> with the unread bytes of \<open>fs\<close>: at most \<open>n - 1\<close> bytes, up to and
  including a newline; \<open>None\<close> at the end of the file.
\<close>

fun take_line :: "nat \<Rightarrow> string \<Rightarrow> string \<times> string" where
  "take_line 0 s = ([], s)"
| "take_line (Suc k) [] = ([], [])"
| "take_line (Suc k) (c # s) =
     (if c = CHR 0x0A then ([c], s) else (case take_line k s of (b, r) \<Rightarrow> (c # b, r)))"

definition fgets :: "nat \<Rightarrow> string \<Rightarrow> (string \<times> string) option" where
  "fgets n s = (if s = [] then None else Some (take_line (n - 1) s))"

text \<open>The C string that starts a buffer: the bytes before the first zero byte.\<close>

definition cstr :: "string \<Rightarrow> string" where
  "cstr s = takeWhile (\<lambda>c. c \<noteq> CHR 0x00) s"

text \<open>
  \<open>strtok_r\<close>: the next token and what \<open>saveptr\<close> is left at (the byte behind the delimiter
  that ended the token).
\<close>

definition strtok_r :: "string \<Rightarrow> string \<Rightarrow> (string \<times> string) option" where
  "strtok_r ex s =
     (let s' = dropWhile (\<lambda>c. c \<in> set ex) s
      in if s' = [] then None
         else Some (takeWhile (\<lambda>c. c \<notin> set ex) s', drop 1 (dropWhile (\<lambda>c. c \<notin> set ex) s')))"

lemma strtok_r_shorter: "strtok_r ex s = Some (t, r) \<Longrightarrow> length r < length s"
proof -
  assume "strtok_r ex s = Some (t, r)"
  then have ne: "dropWhile (\<lambda>c. c \<in> set ex) s \<noteq> []"
    and r: "r = drop 1 (dropWhile (\<lambda>c. c \<notin> set ex) (dropWhile (\<lambda>c. c \<in> set ex) s))"
    by (auto simp: strtok_r_def Let_def split: if_splits)
  have "length (dropWhile (\<lambda>c. c \<notin> set ex) (dropWhile (\<lambda>c. c \<in> set ex) s)) \<le> length s"
    by (meson le_trans length_dropWhile_le)
  moreover have "0 < length s" using ne by (cases s) auto
  ultimately show ?thesis unfolding r length_drop by linarith
qed

lemma take_line_app: "take_line k s = (b, r) \<Longrightarrow> s = b @ r"
  by (induction k s arbitrary: b r rule: take_line.induct) (auto split: if_splits prod.splits)

lemma take_line_nonempty: "take_line (Suc k) s = (b, r) \<Longrightarrow> s \<noteq> [] \<Longrightarrow> b \<noteq> []"
  by (cases s) (auto split: if_splits prod.splits)

lemma fgets_app: "fgets n s = Some (b, r) \<Longrightarrow> s = b @ r"
  by (auto simp: fgets_def dest: take_line_app split: if_splits)

lemma fgets_shorter: "fgets n s = Some (b, r) \<Longrightarrow> 2 \<le> n \<Longrightarrow> length r < length s"
proof -
  assume f: "fgets n s = Some (b, r)" and n: "2 \<le> n"
  then obtain k where "n - 1 = Suc k" by (cases "n - 1") auto
  then have "b \<noteq> []" using f take_line_nonempty [of k s b r] by (auto simp: fgets_def split: if_splits)
  then show ?thesis using fgets_app [OF f] by simp
qed

text \<open>The token loop and the line loop, for the delimiters \<open>" \t\n"\<close> and a buffer of \<open>n\<close> bytes.\<close>

definition blanks :: string where
  "blanks = [CHR '' '', CHR 0x09, CHR 0x0A]"

function count_tokens :: "string \<Rightarrow> string \<Rightarrow> int \<Rightarrow> int" where
  "count_tokens kw s frequency =
     (case strtok_r blanks s of
        None \<Rightarrow> frequency
      | Some (token, context) \<Rightarrow>
          count_tokens kw context (if strcmp token kw = 0 then frequency + 1 else frequency))"
  by pat_completeness auto
termination
  by (relation "measure (\<lambda>(kw, s, f). length s)") (auto dest: strtok_r_shorter)

function search_stream :: "string \<Rightarrow> string \<Rightarrow> int \<Rightarrow> int" where
  "search_stream kw s frequency =
     (case fgets 1025 s of
        None \<Rightarrow> frequency
      | Some (buff, rest) \<Rightarrow> search_stream kw rest (count_tokens kw (cstr buff) frequency))"
  by pat_completeness auto
termination
  by (relation "measure (\<lambda>(kw, s, f). length s)") (auto dest: fgets_shorter)

declare count_tokens.simps [simp del] search_stream.simps [simp del]

text \<open>\<open>atoi\<close>: leading white space, a sign, then decimal digits; the rest is ignored.\<close>

definition is_digit :: "char \<Rightarrow> bool" where
  "is_digit c \<longleftrightarrow> (48::nat) \<le> of_char c \<and> (of_char c :: nat) \<le> 57"

definition digits_val :: "string \<Rightarrow> int" where
  "digits_val s = foldl (\<lambda>v c. 10 * v + (of_char c - 48)) 0 (takeWhile is_digit s)"

definition atoi :: "string \<Rightarrow> int" where
  "atoi s =
     (case dropWhile (\<lambda>c. c = CHR '' '' \<or> (9::nat) \<le> of_char c \<and> (of_char c :: nat) \<le> 13) s of
        [] \<Rightarrow> 0
      | c # r \<Rightarrow>
          if c = CHR ''-'' then - digits_val r
          else if c = CHR ''+'' then digits_val r
          else digits_val (c # r))"

section \<open>Words\<close>

text \<open>
  The maximal runs of characters that are not in \<open>ex\<close>: \<open>pieces\<close> splits at every
  delimiter, \<open>tok_words\<close> drops the empty pieces.
\<close>

fun pieces :: "string \<Rightarrow> string \<Rightarrow> string list" where
  "pieces ex [] = [[]]"
| "pieces ex (c # s) =
     (if c \<in> set ex then [] # pieces ex s
      else (case pieces ex s of [] \<Rightarrow> [[c]] | w # ws \<Rightarrow> (c # w) # ws))"

definition tok_words :: "string \<Rightarrow> string \<Rightarrow> string list" where
  "tok_words ex s = filter (\<lambda>w. w \<noteq> []) (pieces ex s)"

lemma pieces_nonempty [simp]: "pieces ex s \<noteq> []"
  by (induction s) (auto split: list.split)

lemma pieces_split: "c \<in> set ex \<Longrightarrow> pieces ex (a @ c # b) = pieces ex a @ pieces ex b"
  by (induction a) (auto split: list.split)

lemma tok_words_Nil [simp]: "tok_words ex [] = []"
  by (simp add: tok_words_def)

lemma tok_words_split: "c \<in> set ex \<Longrightarrow> tok_words ex (a @ c # b) = tok_words ex a @ tok_words ex b"
  by (simp add: tok_words_def pieces_split)

lemma tok_words_delim [simp]: "c \<in> set ex \<Longrightarrow> tok_words ex (c # b) = tok_words ex b"
  using tok_words_split [of c ex "[]" b] by simp

lemma pieces_word: "\<forall>c \<in> set w. c \<notin> set ex \<Longrightarrow> pieces ex w = [w]"
  by (induction w) auto

lemma tok_words_word: "\<forall>c \<in> set w. c \<notin> set ex \<Longrightarrow> w \<noteq> [] \<Longrightarrow> tok_words ex w = [w]"
  by (simp add: tok_words_def pieces_word)

lemma tok_words_skip: "tok_words ex (dropWhile (\<lambda>c. c \<in> set ex) s) = tok_words ex s"
  by (induction s) auto

lemma strtok_r_words:
  "tok_words ex s = (case strtok_r ex s of None \<Rightarrow> [] | Some (t, r) \<Rightarrow> t # tok_words ex r)"
proof -
  define s' where "s' = dropWhile (\<lambda>c. c \<in> set ex) s"
  have eq: "tok_words ex s = tok_words ex s'" by (simp add: s'_def tok_words_skip)
  show ?thesis
  proof (cases "s' = []")
    case True
    then show ?thesis unfolding eq by (simp add: strtok_r_def flip: s'_def)
  next
    case False
    define t where "t = takeWhile (\<lambda>c. c \<notin> set ex) s'"
    define r where "r = dropWhile (\<lambda>c. c \<notin> set ex) s'"
    have "hd s' \<notin> set ex" using hd_dropWhile [of "\<lambda>c. c \<in> set ex" s] False by (simp add: s'_def)
    then have t: "t \<noteq> []" "\<forall>c \<in> set t. c \<notin> set ex"
      using False by (cases s'; auto simp: t_def dest: set_takeWhileD)+
    have s': "s' = t @ r" by (simp add: t_def r_def)
    have "tok_words ex s' = t # tok_words ex (drop 1 r)"
    proof (cases r)
      case Nil
      then show ?thesis using s' t tok_words_word [of t ex] by simp
    next
      case (Cons c r')
      then have "c \<in> set ex" using hd_dropWhile [of "\<lambda>c. c \<notin> set ex" s'] by (simp add: r_def)
      then show ?thesis
        using s' Cons t tok_words_word [of t ex] tok_words_split [of c ex t r'] by simp
    qed
    moreover have "strtok_r ex s = Some (t, drop 1 r)"
      using False by (simp add: strtok_r_def t_def r_def flip: s'_def)
    ultimately show ?thesis unfolding eq by simp
  qed
qed

lemma count_tokens_words: "count_tokens kw s f = f + int (count_list (tok_words blanks s) kw)"
proof (induction kw s f rule: count_tokens.induct)
  case (1 kw s f)
  show ?case
    using 1 strtok_r_words [of blanks s] by (subst count_tokens.simps) (auto simp: strcmp_eq split: option.splits)
qed

section \<open>Buffers and line ends\<close>

text \<open>No line of the text, its newline not counted, is longer than \<open>n\<close> bytes.\<close>

definition short_lines :: "nat \<Rightarrow> string \<Rightarrow> bool" where
  "short_lines n s \<longleftrightarrow> (\<forall>l \<in> set (pieces [CHR 0x0A] s). length l \<le> n)"

definition at_line_end :: "string \<Rightarrow> string \<Rightarrow> bool" where
  "at_line_end b r \<longleftrightarrow> b \<noteq> [] \<and> last b = CHR 0x0A \<or> r = [] \<or> hd r = CHR 0x0A"

lemma at_line_end_words:
  assumes "at_line_end b r" and "CHR 0x0A \<in> set ex"
  shows "tok_words ex (b @ r) = tok_words ex b @ tok_words ex r"
proof -
  consider b' where "b = b' @ [CHR 0x0A]" | "r = []" | r' where "r = CHR 0x0A # r'"
    using assms(1) unfolding at_line_end_def by (metis append_butlast_last_id list.collapse)
  then show ?thesis
  proof cases
    case 1
    then show ?thesis
      using tok_words_split [OF assms(2), of b' r] tok_words_split [OF assms(2), of b' "[]"] by simp
  next
    case 3
    then show ?thesis using tok_words_split [OF assms(2), of b r'] assms(2) by simp
  qed simp
qed

lemma take_line_short:
  assumes "take_line k s = (b, r)" and "length (hd (pieces [CHR 0x0A] s)) \<le> k"
    and "\<forall>l \<in> set (tl (pieces [CHR 0x0A] s)). length l \<le> n"
  shows "at_line_end b r \<and> short_lines n r"
  using assms
proof (induction k s arbitrary: b r rule: take_line.induct)
  case (1 s)
  then show ?case
    by (cases s) (auto simp: at_line_end_def short_lines_def split: if_splits list.splits)
next
  case (2 k)
  then show ?case by (simp add: at_line_end_def short_lines_def)
next
  case (3 k c s)
  show ?case
  proof (cases "c = CHR 0x0A")
    case True
    then show ?thesis using "3.prems" by (auto simp: at_line_end_def short_lines_def)
  next
    case False
    obtain b' where b: "b = c # b'" "take_line k s = (b', r)"
      using "3.prems"(1) False by (auto split: prod.splits)
    then have "at_line_end b' r \<and> short_lines n r"
      using "3.IH" [OF False, of b' r] "3.prems" False by (auto split: list.splits)
    then show ?thesis using b by (auto simp: at_line_end_def)
  qed
qed

lemma fgets_short:
  assumes "fgets n s = Some (b, r)" and "short_lines (n - 1) s"
  shows "at_line_end b r" and "short_lines (n - 1) r"
proof -
  have "take_line (n - 1) s = (b, r)" using assms(1) by (auto simp: fgets_def split: if_splits)
  moreover have "length (hd (pieces [CHR 0x0A] s)) \<le> n - 1"
    "\<forall>l \<in> set (tl (pieces [CHR 0x0A] s)). length l \<le> n - 1"
    using assms(2) pieces_nonempty [of "[CHR 0x0A]" s]
    by (cases "pieces [CHR 0x0A] s"; auto simp: short_lines_def)+
  ultimately have "at_line_end b r \<and> short_lines (n - 1) r" by (rule take_line_short)
  then show "at_line_end b r" and "short_lines (n - 1) r" by auto
qed

lemma cstr_id: "CHR 0x00 \<notin> set s \<Longrightarrow> cstr s = s"
  by (auto simp: cstr_def takeWhile_eq_all_conv)

lemma newline_blank [simp]: "CHR 0x0A \<in> set blanks"
  by (simp add: blanks_def)

lemma search_stream_words:
  assumes "CHR 0x00 \<notin> set s" and "short_lines 1024 s"
  shows "search_stream kw s f = f + int (count_list (tok_words blanks s) kw)"
  using assms
proof (induction kw s f rule: search_stream.induct)
  case (1 kw s f)
  show ?case
  proof (cases "fgets 1025 s")
    case None
    then show ?thesis by (subst search_stream.simps) (auto simp: fgets_def split: if_splits)
  next
    case (Some br)
    obtain b r where br: "fgets 1025 s = Some (b, r)" using Some by (cases br) auto
    note s = fgets_app [OF br]
    have "at_line_end b r" "short_lines 1024 r" using fgets_short [OF br] "1.prems"(2) by auto
    then have "tok_words blanks s = tok_words blanks b @ tok_words blanks r"
      unfolding s by (intro at_line_end_words) simp_all
    moreover have "cstr b = b" using "1.prems"(1) s by (auto intro: cstr_id)
    moreover have "CHR 0x00 \<notin> set r" using "1.prems"(1) s by auto
    ultimately show ?thesis
      using "1.IH" [OF br refl] \<open>short_lines 1024 r\<close> br
      by (subst search_stream.simps) (simp add: count_tokens_words count_list_append)
  qed
qed

end
