(* ===== verification/Pardirlist.thy ===== *)
theory Pardirlist
  imports Dirlist Posix_Text
begin

text \<open>
  The program \<open>pardirlist/pardirlist.c\<close>: \<open>dirlist\<close> with a keyword count for every file,
  computed in the main thread or in one thread per file. The scheduler is an argument: at
  every point where the main thread can be interrupted it names the threads that get to run.
  The main result is that the output does not depend on it.
\<close>

section \<open>Model\<close>

record par_node = node +
  keyword_frequency :: int
  tid :: nat

record psf_args =
  arg_node :: nat
  arg_keyword :: string

text \<open>
  The threads that have been created and not finished, the next thread id (ids are never 0,
  which the program uses for "no thread"), how many more threads \<open>pthread_create\<close> can start,
  and the scheduler's choices: one list of thread ids per interruption point.
\<close>

record pool =
  pending :: "(nat \<times> psf_args) list"
  next_tid :: nat
  threads_left :: nat
  sched :: "nat list list"

definition par_create_node :: "string \<Rightarrow> int \<Rightarrow> int \<Rightarrow> par_node mem \<Rightarrow> (nat \<times> par_node mem) res" where
  "par_create_node p lv kf m =
     (case malloc \<lparr>path = p, level = lv, nxt = None, prv = None, keyword_frequency = kf, tid = 0\<rparr> m of
        (None, m') \<Rightarrow> Inl (Exit (-1))
      | (Some a, m') \<Rightarrow> Inr (a, m'))"

definition seq_search_file :: "fsys \<Rightarrow> nat \<Rightarrow> string \<Rightarrow> par_node mem \<Rightarrow> par_node mem res" where
  "seq_search_file fs a kw m =
     bindE (deref m (Some a)) (\<lambda>n.
       case fopen_r fs (path n) of
         None \<Rightarrow> Inl NullDeref
       | Some s \<Rightarrow> store (Some a) (keyword_frequency_update (\<lambda>_. search_stream kw s 0)) m)"

definition psf_runner :: "fsys \<Rightarrow> psf_args \<Rightarrow> par_node mem \<Rightarrow> par_node mem res" where
  "psf_runner fs args m =
     bindE (deref m (Some (arg_node args))) (\<lambda>n.
       case fopen_r fs (path n) of
         None \<Rightarrow> Inl NullDeref
       | Some s \<Rightarrow>
           store (Some (arg_node args))
             (keyword_frequency_update (\<lambda>_. search_stream (arg_keyword args) s 0)) m)"

text \<open>
  \<open>create_list\<close>, \<open>insert_sorted\<close>, \<open>insertion_sort_by_level_increasing\<close> and \<open>destroy_list\<close> are
  written as in \<open>dirlist.c\<close>, word for word; here they work on the larger node.
\<close>

definition par_create_list :: "par_node mem \<Rightarrow> (dlist \<times> par_node mem) res" where
  "par_create_list = create_list"

definition par_insert_sorted :: "nat \<Rightarrow> par_node mem \<Rightarrow> dlist \<Rightarrow> (par_node mem \<times> dlist) res" where
  "par_insert_sorted = insert_sorted"

definition par_insertion_sort_by_level_increasing :: "par_node mem \<Rightarrow> dlist \<Rightarrow> par_node mem res" where
  "par_insertion_sort_by_level_increasing = insertion_sort_by_level_increasing"

definition par_destroy_list :: "par_node mem \<Rightarrow> dlist \<Rightarrow> par_node mem res" where
  "par_destroy_list = destroy_list"

lemmas par_list_defs = par_create_list_def par_insert_sorted_def
  par_insertion_sort_by_level_increasing_def par_destroy_list_def

text \<open>\<open>pthread_create\<close> stores the new id in the node and makes the thread runnable.\<close>

definition par_search_file ::
    "nat \<Rightarrow> string \<Rightarrow> par_node mem \<Rightarrow> pool \<Rightarrow> (par_node mem \<times> pool) res" where
  "par_search_file a kw m pl =
     (if threads_left pl = 0 then Inl (Exit (-1))
      else
        bindE (store (Some a) (tid_update (\<lambda>_. next_tid pl)) m) (\<lambda>m.
          Inr (m, pl\<lparr>pending := pending pl @ [(next_tid pl, \<lparr>arg_node = a, arg_keyword = kw\<rparr>)],
                     next_tid := Suc (next_tid pl), threads_left := threads_left pl - 1\<rparr>)))"

text \<open>The named threads run to their end; a thread that has ended does nothing.\<close>

fun run_threads :: "fsys \<Rightarrow> nat list \<Rightarrow> par_node mem \<Rightarrow> pool \<Rightarrow> (par_node mem \<times> pool) res" where
  "run_threads fs [] m pl = Inr (m, pl)"
| "run_threads fs (t # ts) m pl =
     (case map_of (pending pl) t of
        None \<Rightarrow> run_threads fs ts m pl
      | Some args \<Rightarrow>
          bindE (psf_runner fs args m) (\<lambda>m.
            run_threads fs ts m (pl\<lparr>pending := filter (\<lambda>x. fst x \<noteq> t) (pending pl)\<rparr>)))"

definition yield :: "fsys \<Rightarrow> par_node mem \<Rightarrow> pool \<Rightarrow> (par_node mem \<times> pool) res" where
  "yield fs m pl =
     (case sched pl of
        [] \<Rightarrow> Inr (m, pl)
      | ts # rest \<Rightarrow> run_threads fs ts m (pl\<lparr>sched := rest\<rparr>))"

text \<open>\<open>pthread_join\<close> returns when the thread has ended, and fails on an id never given out.\<close>

definition pthread_join :: "fsys \<Rightarrow> nat \<Rightarrow> par_node mem \<Rightarrow> pool \<Rightarrow> (par_node mem \<times> pool) res" where
  "pthread_join fs t m pl = (if t < next_tid pl then run_threads fs [t] m pl else Inl (Exit (-1)))"

text \<open>The search part of the traversal's loop body.\<close>

definition search_new ::
    "fsys \<Rightarrow> string \<Rightarrow> int \<Rightarrow> nat \<Rightarrow> par_node mem \<Rightarrow> pool \<Rightarrow> (par_node mem \<times> pool) res" where
  "search_new fs kw ispar a m pl =
     (if ispar = 1 then par_search_file a kw m pl
      else bindE (seq_search_file fs a kw m) (\<lambda>m. Inr (m, pl)))"

function par_populate_list ::
    "fsys \<Rightarrow> string \<Rightarrow> int \<Rightarrow> string \<Rightarrow> par_node mem \<times> dlist \<times> int \<times> pool \<Rightarrow>
      (par_node mem \<times> dlist \<times> int \<times> pool) res"
  and par_populate_loop ::
    "fsys \<Rightarrow> string \<Rightarrow> int \<Rightarrow> string \<Rightarrow> string list \<Rightarrow> fmode option \<Rightarrow>
      par_node mem \<times> dlist \<times> int \<times> pool \<Rightarrow> (par_node mem \<times> dlist \<times> int \<times> pool) res" where
  "par_populate_list fs kw ispar p (m, l, lv, pl) =
     bindE (if lv = 1 then
              bindE (yield fs m pl) (\<lambda>(m, pl).
              bindE (par_create_node p lv 0 m) (\<lambda>(a, m).
              bindE (par_insert_sorted a m l) (\<lambda>(m, l). Inr (m, l, lv + 1, pl))))
            else Inr (m, l, lv, pl)) (\<lambda>st.
       case opendir fs p of
         None \<Rightarrow> Inl NullDeref
       | Some ds \<Rightarrow> par_populate_loop fs kw ispar p ds None st)"
| "par_populate_loop fs kw ispar p [] buf (m, l, lv, pl) = Inr (m, l, lv, pl)"
| "par_populate_loop fs kw ispar p (d # ds) buf (m, l, lv, pl) =
     (if dot_name d then par_populate_loop fs kw ispar p ds buf (m, l, lv, pl)
      else if length (join_path p d) + 1 > 255 then Inl Overflow
      else
        let tmp = join_path p d;
            buf' = (case stat fs tmp of None \<Rightarrow> buf | Some md \<Rightarrow> Some md)
        in
          bindE (yield fs m pl) (\<lambda>(m, pl).
          bindE (par_create_node tmp lv 0 m) (\<lambda>(a, m).
          bindE (par_insert_sorted a m l) (\<lambda>(m, l).
          case buf' of
            None \<Rightarrow> Inl Uninit
          | Some md \<Rightarrow>
              if md = S_IFDIR then
                bindE (par_populate_list fs kw ispar tmp (m, l, lv + 1, pl)) (\<lambda>(m, l, lv, pl).
                  par_populate_loop fs kw ispar p ds buf' (m, l, lv - 1, pl))
              else
                bindE (search_new fs kw ispar a m pl) (\<lambda>(m, pl).
                  par_populate_loop fs kw ispar p ds buf' (m, l, lv, pl))))))"
  by pat_completeness auto
termination
  by (relation "measures [\<lambda>x. case x of Inl (fs, kw, i, p, st) \<Rightarrow> 255 - length p
                                     | Inr (fs, kw, i, p, ds, buf, st) \<Rightarrow> 255 - length p,
                         \<lambda>x. case x of Inl _ \<Rightarrow> 1 | Inr _ \<Rightarrow> 0,
                         \<lambda>x. case x of Inl _ \<Rightarrow> 0 | Inr (fs, kw, i, p, ds, buf, st) \<Rightarrow> length ds]")
    auto

text \<open>
  The printer: in parallel mode it joins the node's thread before it reads the frequency. A
  line is \<open>"%d:%d:%d:%s\n"\<close>.
\<close>

definition par_print_line :: "int \<Rightarrow> int \<Rightarrow> int \<Rightarrow> string \<Rightarrow> string" where
  "par_print_line lv order fr p = dec lv @ '':'' @ dec order @ '':'' @ dec fr @ '':'' @ p @ [CHR 0x0A]"

fun par_print_loop ::
    "nat \<Rightarrow> fsys \<Rightarrow> int \<Rightarrow> par_node mem \<Rightarrow> pool \<Rightarrow> ptr \<Rightarrow> int option \<Rightarrow> string \<Rightarrow>
      (string \<times> par_node mem \<times> pool) res" where
  "par_print_loop 0 fs ispar m pl cur order out = Inl Diverge"
| "par_print_loop (Suc k) fs ispar m pl cur order out =
     (if cur = None then Inr (out, m, pl)
      else
        bindE (yield fs m pl) (\<lambda>(m, pl).
        bindE (deref m cur) (\<lambda>c.
        bindE (if ispar = 1 \<and> tid c \<noteq> 0 then pthread_join fs (tid c) m pl else Inr (m, pl)) (\<lambda>(m, pl).
        bindE (deref m cur) (\<lambda>c.
        bindE (if prv c = None then Inr 1
               else bindE (deref m (prv c)) (\<lambda>q.
                 if level c = level q
                 then (case order of None \<Rightarrow> Inl Uninit | Some i \<Rightarrow> Inr (i + 1))
                 else Inr 1)) (\<lambda>i.
        par_print_loop k fs ispar m pl (nxt c) (Some i)
          (out @ par_print_line (level c) i (keyword_frequency c) (path c))))))))"

definition par_print_list_to_file ::
    "fsys \<Rightarrow> int \<Rightarrow> par_node mem \<Rightarrow> pool \<Rightarrow> dlist \<Rightarrow> string \<Rightarrow> (string \<times> par_node mem \<times> pool) res" where
  "par_print_list_to_file fs ispar m pl l filename =
     (if fopen_w fs filename then par_print_loop (Suc (brk m)) fs ispar m pl (head l) None []
      else Inl NullDeref)"

record par_run =
  par_status :: int
  par_stderr :: string
  par_outfile :: "(string \<times> string) option"
  par_heap :: "par_node mem"
  par_threads :: "(nat \<times> psf_args) list"

definition init_pool :: "nat \<Rightarrow> nat list list \<Rightarrow> pool" where
  "init_pool tq sc = \<lparr>pending = [], next_tid = 1, threads_left = tq, sched = sc\<rparr>"

definition pardirlist_main :: "fsys \<Rightarrow> nat \<Rightarrow> nat \<Rightarrow> nat list list \<Rightarrow> string list \<Rightarrow> par_run res" where
  "pardirlist_main fs q tq sc argv =
     (if length argv \<noteq> 5 then
        Inr \<lparr>par_status = 1,
             par_stderr = ''dirlist: usage: dirlist <directory_path> <keyword> <output_file> <ispar>'' @ [CHR 0x0A],
             par_outfile = None, par_heap = empty_mem q, par_threads = []\<rparr>
      else
        let ispar = atoi (argv ! 4)
        in if ispar \<noteq> 0 \<and> ispar \<noteq> 1 then
             Inr \<lparr>par_status = 1, par_stderr = ''dirlist: <ispar> must be 0 or 1'',
                  par_outfile = None, par_heap = empty_mem q, par_threads = []\<rparr>
           else
             bindE (par_create_list (empty_mem q)) (\<lambda>(l, m).
             bindE (par_populate_list fs (argv ! 2) ispar (argv ! 1) (m, l, 1, init_pool tq sc)) (\<lambda>(m, l, lv, pl).
             bindE (yield fs m pl) (\<lambda>(m, pl).
             bindE (par_insertion_sort_by_level_increasing m l) (\<lambda>m.
             bindE (par_print_list_to_file fs ispar m pl l (argv ! 3)) (\<lambda>(out, m, pl).
             bindE (par_destroy_list m l) (\<lambda>m.
             Inr \<lparr>par_status = 0, par_stderr = [], par_outfile = Some (argv ! 3, out),
                  par_heap = m, par_threads = pending pl\<rparr>)))))))"

section \<open>Threads change no path, level or link\<close>

definition par_shape :: "par_node \<Rightarrow> par_node" where
  "par_shape n = n\<lparr>keyword_frequency := 0, tid := 0\<rparr>"

definition same_shape :: "par_node mem \<Rightarrow> par_node mem \<Rightarrow> bool" where
  "same_shape m m' \<longleftrightarrow>
     brk m' = brk m \<and> quota m' = quota m \<and>
     (\<forall>a. map_option par_shape (cells m' a) = map_option par_shape (cells m a))"

lemma same_shape_refl [simp]: "same_shape m m"
  by (simp add: same_shape_def)

lemma same_shape_trans [trans]: "same_shape m m' \<Longrightarrow> same_shape m' m'' \<Longrightarrow> same_shape m m''"
  by (simp add: same_shape_def)

lemma par_shape_fields:
  assumes "par_shape n' = par_shape n"
  shows "path n' = path n" "level n' = level n" "nxt n' = nxt n" "prv n' = prv n"
proof -
  have sel: "path (par_shape k) = path k" "level (par_shape k) = level k" "nxt (par_shape k) = nxt k"
      "prv (par_shape k) = prv k" for k
    by (simp_all add: par_shape_def)
  show "path n' = path n" "level n' = level n" "nxt n' = nxt n" "prv n' = prv n"
    using assms by (metis sel)+
qed

lemma same_shape_Some:
  assumes "same_shape m m'" and "cells m a = Some n"
  obtains n' where "cells m' a = Some n'" and "par_shape n' = par_shape n"
proof -
  from assms have "map_option par_shape (cells m' a) = Some (par_shape n)"
    unfolding same_shape_def by (metis option.simps(9))
  then show thesis using that by auto
qed

lemma same_shape_None: "same_shape m m' \<Longrightarrow> cells m' a = None \<longleftrightarrow> cells m a = None"
  unfolding same_shape_def by (metis map_option_is_None)

lemma same_shape_at:
  assumes "same_shape m m'"
  shows "path_of m' = path_of m" and "level_of m' = level_of m"
proof -
  have "path_of m' a = path_of m a \<and> level_of m' a = level_of m a" for a
  proof (cases "cells m a")
    case None
    then show ?thesis using same_shape_None [OF assms, of a] by (simp add: node_at_def)
  next
    case (Some n)
    then obtain n' where "cells m' a = Some n'" "par_shape n' = par_shape n"
      by (rule same_shape_Some [OF assms])
    then show ?thesis using Some par_shape_fields [of n' n] by (simp add: node_at_def)
  qed
  then show "path_of m' = path_of m" and "level_of m' = level_of m" by auto
qed

lemma same_shape_key:
  assumes "same_shape m m'"
  shows "path_of m' a = path_of m a" and "level_of m' a = level_of m a"
  using fun_cong [OF same_shape_at(1) [OF assms], of a] fun_cong [OF same_shape_at(2) [OF assms], of a]
  by simp_all

lemma same_shape_links:
  assumes "same_shape m m'" and "links (cells m) pr as nx"
  shows "links (cells m') pr as nx"
  using assms(2)
proof (induction as arbitrary: pr)
  case (Cons a as)
  then obtain n where n: "cells m a = Some n" "prv n = pr" "nxt n = first_of as nx"
    "links (cells m) (Some a) as nx" by (auto split: option.splits)
  obtain n' where "cells m' a = Some n'" "par_shape n' = par_shape n"
    using assms(1) n(1) by (rule same_shape_Some)
  then show ?case using n Cons.IH [of "Some a"] par_shape_fields [of n' n] by simp
qed simp

lemma same_shape_chain:
  assumes "same_shape m m'" and "chain m l as"
  shows "chain m' l as"
proof -
  have "mem_ok m'"
    using assms same_shape_None [OF assms(1)] by (auto simp: chain_def mem_ok_def same_shape_def)
  then show ?thesis
    using assms same_shape_links [OF assms(1)] by (simp add: chain_def)
qed

lemma same_shape_list_inv:
  assumes "same_shape m m'" and "list_inv (m, l)"
  shows "list_inv (m', l)" and "addrs_of m' l = addrs_of m l"
proof -
  define as where "as = addrs_of m l"
  have dll: "is_dll m l as" "sorted (map (path_of m) as)" "owns m as"
    using assms(2) by (auto simp: list_inv_def as_def Let_def)
  have ch: "chain m' l as" using dll(1) same_shape_chain [OF assms(1)] by (auto simp: is_dll_def)
  then have as': "addrs_of m' l = as" by (rule addrs_of_chain)
  then show "addrs_of m' l = addrs_of m l" by (simp add: as_def)
  have "owns m' as" using dll(3) same_shape_None [OF assms(1)] by (simp add: owns_def)
  then show "list_inv (m', l)"
    using dll ch as' same_shape_at [OF assms(1)] by (simp add: list_inv_def is_dll_def)
qed

section \<open>Frequencies promised and frequencies written\<close>

definition freq_file :: "fsys \<Rightarrow> string \<Rightarrow> string \<Rightarrow> int" where
  "freq_file fs kw p = (case fopen_r fs p of None \<Rightarrow> 0 | Some s \<Rightarrow> search_stream kw s 0)"

text \<open>The keyword a pending thread searches for in the file of a node.\<close>

definition claims_of :: "(nat \<times> psf_args) list \<Rightarrow> (nat \<times> string) list" where
  "claims_of ts = map (\<lambda>(t, x). (arg_node x, arg_keyword x)) ts"

text \<open>The frequency a node will have once its thread, if it has one, is done.\<close>

definition final_freq :: "fsys \<Rightarrow> par_node mem \<Rightarrow> pool \<Rightarrow> nat \<Rightarrow> int" where
  "final_freq fs m pl a =
     (case map_of (claims_of (pending pl)) a of
        Some kw \<Rightarrow> freq_file fs kw (path_of m a)
      | None \<Rightarrow> keyword_frequency (node_at m a))"

definition pool_ok :: "fsys \<Rightarrow> par_node mem \<Rightarrow> pool \<Rightarrow> bool" where
  "pool_ok fs m pl \<longleftrightarrow>
     0 < next_tid pl \<and> distinct (map fst (pending pl)) \<and> distinct (map fst (claims_of (pending pl))) \<and>
     (\<forall>t x. (t, x) \<in> set (pending pl) \<longrightarrow>
        t < next_tid pl \<and> t \<noteq> 0 \<and>
        (\<exists>n s. cells m (arg_node x) = Some n \<and> tid n = t \<and> fopen_r fs (path n) = Some s)) \<and>
     (\<forall>a n. cells m a = Some n \<longrightarrow> tid n < next_tid pl)"

lemma claims_of_filter:
  assumes "distinct (map fst ts)" and "distinct (map fst (claims_of ts))" and "(t, x) \<in> set ts"
  shows "map_of (claims_of (filter (\<lambda>y. fst y \<noteq> t) ts)) a =
    (if a = arg_node x then None else map_of (claims_of ts) a)"
  using assms
proof (induction ts)
  case (Cons y ts)
  obtain u z where y: "y = (u, z)" by (cases y)
  show ?case
  proof (cases "u = t")
    case True
    then have "z = x" using Cons.prems y by (auto simp: image_iff)
    moreover have "filter (\<lambda>y. fst y \<noteq> t) ts = ts"
      using Cons.prems(1) y True by (auto intro!: filter_True simp: image_iff)
    moreover have "map_of (claims_of ts) (arg_node x) = None"
      using Cons.prems(2) y \<open>z = x\<close> by (simp add: claims_of_def map_of_eq_None_iff image_iff)
    ultimately show ?thesis using y True by (simp add: claims_of_def)
  next
    case False
    then have "(t, x) \<in> set ts" using Cons.prems(3) y by auto
    moreover from this have "arg_node z \<noteq> arg_node x"
      using Cons.prems(2) y by (auto simp: claims_of_def image_iff)
    ultimately show ?thesis using Cons y False by (auto simp: claims_of_def)
  qed
qed simp

lemma claims_of_mem:
  assumes "distinct (map fst (claims_of ts))" and "(t, x) \<in> set ts"
  shows "map_of (claims_of ts) (arg_node x) = Some (arg_keyword x)"
  using assms by (intro map_of_is_SomeI) (auto simp: claims_of_def image_iff split: prod.splits intro: rev_bexI)

lemma pool_okD:
  assumes "pool_ok fs m pl" and "(t, x) \<in> set (pending pl)"
  obtains n s where "cells m (arg_node x) = Some n" and "tid n = t" and "fopen_r fs (path n) = Some s"
    and "t < next_tid pl" and "t \<noteq> 0"
  using assms unfolding pool_ok_def by blast

lemma psf_runner_ok:
  assumes ok: "pool_ok fs m pl" and t: "map_of (pending pl) t = Some x"
    and pl': "pl' = pl\<lparr>pending := filter (\<lambda>y. fst y \<noteq> t) (pending pl)\<rparr>"
  shows "\<exists>m'. psf_runner fs x m = Inr m' \<and> same_shape m m' \<and> pool_ok fs m' pl' \<and>
    final_freq fs m' pl' = final_freq fs m pl"
proof -
  have mem: "(t, x) \<in> set (pending pl)" using t by (rule map_of_SomeD)
  then obtain n s where n: "cells m (arg_node x) = Some n" "tid n = t" "fopen_r fs (path n) = Some s"
    using ok by (auto elim: pool_okD)
  let ?f = "search_stream (arg_keyword x) s 0"
  let ?m = "m\<lparr>cells := (cells m)(arg_node x := Some (n\<lparr>keyword_frequency := ?f\<rparr>))\<rparr>"
  have run: "psf_runner fs x m = Inr ?m" using n by (simp add: psf_runner_def res_simps)
  have shape: "same_shape m ?m" using n by (auto simp: same_shape_def par_shape_def)
  have dist: "distinct (map fst (pending pl))" "distinct (map fst (claims_of (pending pl)))"
    using ok by (auto simp: pool_ok_def)
  have "pool_ok fs ?m pl'"
  proof -
    have "distinct (map fst (claims_of (filter (\<lambda>y. fst y \<noteq> t) (pending pl))))"
      using dist(2) by (simp add: claims_of_def distinct_map_filter comp_def)
    moreover have "distinct (map fst (filter (\<lambda>y. fst y \<noteq> t) (pending pl)))"
      using dist(1) by (rule distinct_map_filter)
    moreover have "\<exists>k s. cells ?m (arg_node y) = Some k \<and> tid k = u \<and> fopen_r fs (path k) = Some s"
      if "(u, y) \<in> set (pending pl)" for u y
      using ok that by (rule pool_okD) (use n in \<open>auto\<close>)
    ultimately show ?thesis using ok n unfolding pool_ok_def pl' by simp blast
  qed
  moreover have "final_freq fs ?m pl' a = final_freq fs m pl a" for a
  proof (cases "a = arg_node x")
    case True
    then show ?thesis
      using n claims_of_mem [OF dist(2) mem] claims_of_filter [OF dist mem, of a]
      by (simp add: final_freq_def pl' freq_file_def node_at_def)
  next
    case False
    then have "node_at ?m a = node_at m a" by (simp add: node_at_def)
    then show ?thesis
      using False claims_of_filter [OF dist mem, of a] by (simp add: final_freq_def pl' split: option.split)
  qed
  ultimately show ?thesis using run shape by blast
qed

lemma run_threads_ok:
  assumes "pool_ok fs m pl"
  shows "\<exists>m' pl'. run_threads fs ts m pl = Inr (m', pl') \<and> same_shape m m' \<and> pool_ok fs m' pl' \<and>
    final_freq fs m' pl' = final_freq fs m pl \<and>
    pending pl' = filter (\<lambda>y. fst y \<notin> set ts) (pending pl) \<and> threads_left pl' = threads_left pl"
  using assms
proof (induction ts arbitrary: m pl)
  case (Cons t ts)
  show ?case
  proof (cases "map_of (pending pl) t")
    case None
    then have "filter (\<lambda>y. fst y \<notin> set (t # ts)) (pending pl) = filter (\<lambda>y. fst y \<notin> set ts) (pending pl)"
      by (intro filter_cong) (auto simp: map_of_eq_None_iff image_iff)
    then show ?thesis using Cons None by simp
  next
    case (Some x)
    let ?pl = "pl\<lparr>pending := filter (\<lambda>y. fst y \<noteq> t) (pending pl)\<rparr>"
    obtain m1 where m1: "psf_runner fs x m = Inr m1" "same_shape m m1" "pool_ok fs m1 ?pl"
        "final_freq fs m1 ?pl = final_freq fs m pl"
      using psf_runner_ok [OF Cons.prems Some refl] by blast
    obtain m2 pl2 where "run_threads fs ts m1 ?pl = Inr (m2, pl2)" "same_shape m1 m2" "pool_ok fs m2 pl2"
        "final_freq fs m2 pl2 = final_freq fs m1 ?pl"
        "pending pl2 = filter (\<lambda>y. fst y \<notin> set ts) (pending ?pl)" "threads_left pl2 = threads_left ?pl"
      using Cons.IH [OF m1(3)] by blast
    then show ?thesis
      using m1 Some same_shape_trans [of m m1 m2] by (auto simp: conj_commute)
  qed
qed simp

lemma pool_ok_sched [simp]: "pool_ok fs m (pl\<lparr>sched := sc\<rparr>) = pool_ok fs m pl"
  by (simp add: pool_ok_def)

lemma final_freq_sched [simp]: "final_freq fs m (pl\<lparr>sched := sc\<rparr>) = final_freq fs m pl"
  by (simp add: final_freq_def fun_eq_iff)

lemma yield_ok:
  assumes "pool_ok fs m pl"
  shows "\<exists>m' pl'. yield fs m pl = Inr (m', pl') \<and> same_shape m m' \<and> pool_ok fs m' pl' \<and>
    final_freq fs m' pl' = final_freq fs m pl \<and>
    set (pending pl') \<subseteq> set (pending pl) \<and> threads_left pl' = threads_left pl"
proof (cases "sched pl")
  case (Cons ts rest)
  then show ?thesis
    using run_threads_ok [of fs m "pl\<lparr>sched := rest\<rparr>" ts] assms by (auto simp: yield_def)
qed (use assms in \<open>simp add: yield_def\<close>)

section \<open>The parallel list is a sorted store\<close>

text \<open>One step of the traversal: an entry is inserted and, if it is a file, searched.\<close>

type_synonym item = "string \<times> int \<times> bool"

definition par_add ::
    "fsys \<Rightarrow> string \<Rightarrow> int \<Rightarrow> item \<Rightarrow> par_node mem \<times> dlist \<times> pool \<Rightarrow>
      (par_node mem \<times> dlist \<times> pool) res" where
  "par_add fs kw ispar x s =
     (case x of (p, lv, f) \<Rightarrow> case s of (m, l, pl) \<Rightarrow>
        bindE (yield fs m pl) (\<lambda>(m, pl).
        bindE (par_create_node p lv 0 m) (\<lambda>(a, m).
        bindE (par_insert_sorted a m l) (\<lambda>(m, l).
        if f then bindE (search_new fs kw ispar a m pl) (\<lambda>(m, pl). Inr (m, l, pl))
        else Inr (m, l, pl)))))"

lemma same_data_par:
  assumes "same_data m m'" and "cells m a = Some (n :: par_node)"
  obtains n' where "cells m' a = Some n'" and "path n' = path n" and "level n' = level n"
    and "keyword_frequency n' = keyword_frequency n" and "tid n' = tid n"
proof -
  obtain n' where n': "cells m' a = Some n'" "node_data n' = node_data n"
    using same_data_Some [OF assms] by blast
  have sel: "keyword_frequency (node_data k) = keyword_frequency k" "tid (node_data k) = tid k" for k :: par_node
    by (simp_all add: node_data_def)
  have "keyword_frequency n' = keyword_frequency n" "tid n' = tid n"
    using n'(2) by (metis sel)+
  then show thesis using that n' node_data_fields [OF n'(2)] by blast
qed

text \<open>Linking a fresh node disturbs neither the threads nor what they promise.\<close>

lemma pool_ok_insert:
  assumes ok: "pool_ok fs m pl" and mem: "mem_ok m"
    and m1: "m1 = m\<lparr>cells := (cells m)(brk m := Some n), brk := Suc (brk m), quota := k\<rparr>"
    and n: "tid n = 0" and sd: "same_data m1 m2"
  shows "pool_ok fs m2 pl" and "a \<noteq> brk m \<Longrightarrow> final_freq fs m2 pl a = final_freq fs m pl a"
    and "map_of (claims_of (pending pl)) (brk m) = None"
    and "final_freq fs m2 pl (brk m) = keyword_frequency n"
proof -
  have old: "\<exists>n'. cells m2 a = Some n' \<and> path n' = path j \<and> keyword_frequency n' = keyword_frequency j \<and> tid n' = tid j"
    if "cells m1 a = Some j" for a j
    using sd that by (rule same_data_par) blast
  have conv: "\<exists>j. cells m1 a = Some j \<and> tid j = tid n'" if "cells m2 a = Some n'" for a n'
  proof -
    have "cells m1 a \<noteq> None" using sd that unfolding same_data_def by (metis map_option_is_None option.distinct(1))
    then show ?thesis using old [of a] that by fastforce
  qed
  have alloc: "cells m1 (arg_node x) = cells m (arg_node x)" "arg_node x \<noteq> brk m"
    if px: "(t, x) \<in> set (pending pl)" for t x
  proof -
    obtain j where "cells m (arg_node x) = Some j" using ok px by (rule pool_okD)
    then show "cells m1 (arg_node x) = cells m (arg_node x)" "arg_node x \<noteq> brk m"
      using mem_ok_fresh [OF mem] by (auto simp: m1)
  qed
  have thr: "\<exists>n s. cells m2 (arg_node x) = Some n \<and> tid n = t \<and> fopen_r fs (path n) = Some s"
    if "(t, x) \<in> set (pending pl)" for t x
    using ok that
  proof (rule pool_okD)
    fix j s assume "cells m (arg_node x) = Some j" "tid j = t" "fopen_r fs (path j) = Some s"
    then show ?thesis using old [of "arg_node x" j] alloc(1) [OF that] by auto
  qed
  have "tid j < next_tid pl" if aj: "cells m2 a = Some j" for a j
  proof -
    obtain i where i: "cells m1 a = Some i" "tid i = tid j" using conv [OF aj] by blast
    have "tid i < next_tid pl"
      using i(1) ok n by (cases "a = brk m") (auto simp: m1 pool_ok_def)
    then show ?thesis using i(2) by simp
  qed
  then show "pool_ok fs m2 pl" using ok thr by (simp add: pool_ok_def)
  show none: "map_of (claims_of (pending pl)) (brk m) = None"
    using alloc(2) by (force simp: map_of_eq_None_iff claims_of_def)
  show "final_freq fs m2 pl (brk m) = keyword_frequency n"
    using none old [of "brk m" n] by (auto simp: final_freq_def node_at_def m1)
  show "final_freq fs m2 pl a = final_freq fs m pl a" if "a \<noteq> brk m"
  proof -
    have c: "cells m1 a = cells m a" using that by (simp add: m1)
    show ?thesis
    proof (cases "cells m a")
      case None
      then have "cells m2 a = None" using c sd unfolding same_data_def by (metis map_option_is_None)
      with None show ?thesis by (simp add: final_freq_def node_at_def split: option.split)
    next
      case (Some j)
      then obtain n' where "cells m2 a = Some n'" "path n' = path j" "keyword_frequency n' = keyword_frequency j"
        using old [of a j] c by auto
      with Some show ?thesis by (simp add: final_freq_def node_at_def split: option.split)
    qed
  qed
qed

lemma map_of_claims_snoc:
  "map_of (claims_of (ts @ [(t, x)])) a =
     (case map_of (claims_of ts) a of
        Some kw \<Rightarrow> Some kw
      | None \<Rightarrow> if a = arg_node x then Some (arg_keyword x) else None)"
  by (simp add: claims_of_def map_add_def split: option.split)

lemma par_search_ok:
  assumes ok: "pool_ok fs m pl" and n: "cells m a = Some n" "fopen_r fs (path n) = Some s"
    and unclaimed: "map_of (claims_of (pending pl)) a = None" and left: "0 < threads_left pl"
  shows "\<exists>m' pl'. par_search_file a kw m pl = Inr (m', pl') \<and> same_shape m m' \<and> pool_ok fs m' pl' \<and>
    (\<forall>b. final_freq fs m' pl' b = (if b = a then freq_file fs kw (path n) else final_freq fs m pl b)) \<and>
    threads_left pl' = threads_left pl - 1"
proof -
  let ?m = "m\<lparr>cells := (cells m)(a := Some (n\<lparr>tid := next_tid pl\<rparr>))\<rparr>"
  let ?new = "(next_tid pl, \<lparr>arg_node = a, arg_keyword = kw\<rparr>)"
  let ?pl = "pl\<lparr>pending := pending pl @ [?new], next_tid := Suc (next_tid pl), threads_left := threads_left pl - 1\<rparr>"
  have run: "par_search_file a kw m pl = Inr (?m, ?pl)"
    using left n by (simp add: par_search_file_def res_simps)
  have shape: "same_shape m ?m" using n by (auto simp: same_shape_def par_shape_def)
  have a: "arg_node x \<noteq> a" if "(t, x) \<in> set (pending pl)" for t x
    using unclaimed that by (force simp: map_of_eq_None_iff claims_of_def)
  have thr: "\<exists>j s. cells ?m (arg_node x) = Some j \<and> tid j = t \<and> fopen_r fs (path j) = Some s"
    if "(t, x) \<in> set (pending pl)" for t x
    using ok that by (rule pool_okD) (use a [OF that] in auto)
  have low: "t < next_tid pl \<and> t \<noteq> 0" if "(t, x) \<in> set (pending pl)" for t x
    using ok that by (rule pool_okD) auto
  have dist: "distinct (map fst (pending pl))" "distinct (map fst (claims_of (pending pl)))"
    and tids: "\<forall>b j. cells m b = Some j \<longrightarrow> tid j < next_tid pl" and pos: "0 < next_tid pl"
    using ok by (auto simp: pool_ok_def)
  have "distinct (map fst (pending pl @ [?new]))" using dist(1) low by (force simp: image_iff)
  moreover have "distinct (map fst (claims_of (pending pl @ [?new])))"
    using dist(2) a by (fastforce simp: claims_of_def)
  moreover have "tid j < Suc (next_tid pl)" if "cells ?m b = Some j" for b j
    using that tids by (auto split: if_splits intro: less_SucI)
  ultimately have "pool_ok fs ?m ?pl"
    using thr low pos n by (auto simp: pool_ok_def less_SucI)
  moreover have "final_freq fs ?m ?pl b = (if b = a then freq_file fs kw (path n) else final_freq fs m pl b)" for b
    using unclaimed n by (auto simp: final_freq_def map_of_claims_snoc node_at_def split: option.split)
  ultimately show ?thesis using run shape by auto
qed

lemma seq_search_ok:
  assumes ok: "pool_ok fs m pl" and n: "cells m a = Some n" "fopen_r fs (path n) = Some s"
    and unclaimed: "map_of (claims_of (pending pl)) a = None"
  shows "\<exists>m'. seq_search_file fs a kw m = Inr m' \<and> same_shape m m' \<and> pool_ok fs m' pl \<and>
    (\<forall>b. final_freq fs m' pl b = (if b = a then freq_file fs kw (path n) else final_freq fs m pl b))"
proof -
  let ?m = "m\<lparr>cells := (cells m)(a := Some (n\<lparr>keyword_frequency := search_stream kw s 0\<rparr>))\<rparr>"
  have run: "seq_search_file fs a kw m = Inr ?m" using n by (simp add: seq_search_file_def res_simps)
  have shape: "same_shape m ?m" using n by (auto simp: same_shape_def par_shape_def)
  have "\<exists>j s. cells ?m (arg_node x) = Some j \<and> tid j = t \<and> fopen_r fs (path j) = Some s"
    if "(t, x) \<in> set (pending pl)" for t x
    using ok that by (rule pool_okD) (use n in auto)
  then have "pool_ok fs ?m pl" using ok n by (simp add: pool_ok_def)
  moreover have "final_freq fs ?m pl b = (if b = a then freq_file fs kw (path n) else final_freq fs m pl b)" for b
    using unclaimed n by (auto simp: final_freq_def node_at_def freq_file_def split: option.split)
  ultimately show ?thesis using run shape by blast
qed

type_synonym par_entry = "string \<times> int \<times> int"

definition par_inv :: "fsys \<Rightarrow> par_node mem \<times> dlist \<times> pool \<Rightarrow> bool" where
  "par_inv fs s \<longleftrightarrow> (case s of (m, l, pl) \<Rightarrow> list_inv (m, l) \<and> pool_ok fs m pl)"

definition par_ents :: "fsys \<Rightarrow> par_node mem \<Rightarrow> pool \<Rightarrow> nat list \<Rightarrow> par_entry list" where
  "par_ents fs m pl as = map (\<lambda>a. (path_of m a, level_of m a, final_freq fs m pl a)) as"

definition par_list_ents :: "fsys \<Rightarrow> par_node mem \<times> dlist \<times> pool \<Rightarrow> par_entry list" where
  "par_list_ents fs s = (case s of (m, l, pl) \<Rightarrow> par_ents fs m pl (addrs_of m l))"

definition par_room :: "int \<Rightarrow> par_node mem \<times> dlist \<times> pool \<Rightarrow> nat" where
  "par_room ispar s =
     (case s of (m, l, pl) \<Rightarrow> if ispar = 1 then min (quota m) (threads_left pl) else quota m)"

definition item_entry :: "fsys \<Rightarrow> string \<Rightarrow> item \<Rightarrow> par_entry" where
  "item_entry fs kw x = (case x of (p, lv, f) \<Rightarrow> (p, lv, if f then freq_file fs kw p else 0))"

definition item_ok :: "fsys \<Rightarrow> item \<Rightarrow> bool" where
  "item_ok fs x = (case x of (p, lv, f) \<Rightarrow> f \<longrightarrow> fopen_r fs p \<noteq> None)"

lemma par_ents_shape:
  assumes "same_shape m m'" and "\<And>a. a \<in> set as \<Longrightarrow> final_freq fs m' pl' a = final_freq fs m pl a"
  shows "par_ents fs m' pl' as = par_ents fs m pl as"
  using same_shape_key [OF assms(1)] assms(2) by (simp add: par_ents_def)

lemma par_ents_insort:
  "par_ents fs m pl (insort_key (path_of m) a as) =
     insort_key fst (path_of m a, level_of m a, final_freq fs m pl a) (par_ents fs m pl as)"
  by (induction as) (simp_all add: par_ents_def)

text \<open>Inserting without a search: the entry has frequency 0 and no thread claims the node.\<close>

lemma par_insert_ok:
  assumes inv: "par_inv fs (m, l, pl)" and q: "0 < quota m"
  shows "\<exists>m' l' n. par_create_node p lv 0 m = Inr (brk m, m\<lparr>cells := (cells m)(brk m := Some n),
        brk := Suc (brk m), quota := quota m - 1\<rparr>) \<and>
    par_insert_sorted (brk m) (m\<lparr>cells := (cells m)(brk m := Some n), brk := Suc (brk m),
        quota := quota m - 1\<rparr>) l = Inr (m', l') \<and>
    par_inv fs (m', l', pl) \<and>
    par_list_ents fs (m', l', pl) = insort_key fst (p, lv, 0) (par_list_ents fs (m, l, pl)) \<and>
    quota m' = quota m - 1 \<and> map_of (claims_of (pending pl)) (brk m) = None \<and>
    (\<exists>n'. cells m' (brk m) = Some n' \<and> path n' = p \<and> level n' = lv) \<and>
    addrs_of m' l' = insort_key (path_of m') (brk m) (addrs_of m l) \<and> brk m \<notin> set (addrs_of m l) \<and>
    par_ents fs m' pl (addrs_of m l) = par_list_ents fs (m, l, pl)"
proof -
  let ?n = "\<lparr>path = p, level = lv, nxt = None, prv = None, keyword_frequency = 0, tid = 0\<rparr> :: par_node"
  define m1 where "m1 = m\<lparr>cells := (cells m)(brk m := Some ?n), brk := Suc (brk m), quota := quota m - 1\<rparr>"
  define as where "as = addrs_of m l"
  have linv: "list_inv (m, l)" and pok: "pool_ok fs m pl" using inv by (auto simp: par_inv_def)
  then have mok: "mem_ok m" by (simp add: list_inv_def is_dll_def chain_def Let_def)
  note fresh = insert_fresh [OF linv _ _ m1_def, simplified]
  obtain m' l' where ins: "insert_sorted (brk m) m1 l = Inr (m', l')" and inv': "list_inv (m', l')"
      and as': "addrs_of m' l' = insort_key (path_of m1) (brk m) as" and sd: "same_data m1 m'"
    using fresh(1) by (auto simp: as_def)
  note pool = pool_ok_insert [OF pok mok m1_def _ sd, simplified]
  have keys: "path_of m' = path_of m1" "level_of m' = level_of m1" using same_data_keys [OF sd] .
  have "par_list_ents fs (m', l', pl) = par_ents fs m' pl (insort_key (path_of m') (brk m) as)"
    using as' keys by (simp add: par_list_ents_def)
  also have "\<dots> = insort_key fst (p, lv, 0) (par_ents fs m' pl as)"
    unfolding par_ents_insort using pool(4) same_data_key [OF sd, of "brk m"] by (simp add: node_at_def m1_def)
  also have old: "par_ents fs m' pl as = par_list_ents fs (m, l, pl)"
    using fresh(2) pool(2) same_data_key [OF sd]
    by (simp add: par_list_ents_def par_ents_def as_def node_at_def cong: map_cong)
  finally have ents: "par_list_ents fs (m', l', pl) = insort_key fst (p, lv, 0) (par_list_ents fs (m, l, pl))" .
  have cr: "par_create_node p lv 0 m = Inr (brk m, m1)"
    using q by (simp add: par_create_node_def malloc_Some m1_def)
  have "cells m1 (brk m) = Some ?n" by (simp add: m1_def)
  then obtain n' where n': "cells m' (brk m) = Some n'" "path n' = p" "level n' = lv"
    by (rule same_data_par [OF sd]) auto
  have "addrs_of m' l' = insort_key (path_of m') (brk m) as" using as' keys by simp
  moreover have "brk m \<notin> set as" using fresh(2) by (auto simp: as_def)
  ultimately show ?thesis
    using cr ins inv' ents old sd pool(1,3) n' unfolding m1_def as_def
    by (intro exI [of _ m'] exI [of _ l'] exI [of _ ?n])
      (auto simp: par_inv_def par_insert_sorted_def same_data_def)
qed

lemma search_new_ok:
  assumes ok: "pool_ok fs m pl" and n: "cells m a = Some n" "fopen_r fs (path n) = Some s"
    and unclaimed: "map_of (claims_of (pending pl)) a = None" and left: "ispar = 1 \<Longrightarrow> 0 < threads_left pl"
  shows "\<exists>m' pl'. search_new fs kw ispar a m pl = Inr (m', pl') \<and> same_shape m m' \<and> pool_ok fs m' pl' \<and>
    (\<forall>b. final_freq fs m' pl' b = (if b = a then freq_file fs kw (path n) else final_freq fs m pl b)) \<and>
    threads_left pl' = (if ispar = 1 then threads_left pl - 1 else threads_left pl)"
  using par_search_ok [OF ok n unclaimed, of kw] seq_search_ok [OF ok n unclaimed, of kw] left
  by (auto simp: search_new_def)

lemma par_add_ok:
  assumes inv: "par_inv fs (m, l, pl)" and ok: "item_ok fs (p, lv, f)" and room: "0 < par_room ispar (m, l, pl)"
  shows "\<exists>s'. par_add fs kw ispar (p, lv, f) (m, l, pl) = Inr s' \<and> par_inv fs s' \<and>
    par_list_ents fs s' = insort_key fst (item_entry fs kw (p, lv, f)) (par_list_ents fs (m, l, pl)) \<and>
    par_room ispar (m, l, pl) \<le> Suc (par_room ispar s')"
proof -
  have linv: "list_inv (m, l)" using inv by (simp add: par_inv_def)
  obtain m1 pl1 where y: "yield fs m pl = Inr (m1, pl1)" "same_shape m m1" "pool_ok fs m1 pl1"
      "final_freq fs m1 pl1 = final_freq fs m pl" "threads_left pl1 = threads_left pl"
    using yield_ok [of fs m pl] inv by (auto simp: par_inv_def)
  have inv1: "par_inv fs (m1, l, pl1)" and as1: "addrs_of m1 l = addrs_of m l"
    using same_shape_list_inv [OF y(2) linv] y(3) by (simp_all add: par_inv_def)
  have ents1: "par_list_ents fs (m1, l, pl1) = par_list_ents fs (m, l, pl)"
    using par_ents_shape [OF y(2)] y(4) as1 by (simp add: par_list_ents_def)
  have q: "0 < quota m1" "quota m1 = quota m"
    using room y(2) by (auto simp: par_room_def same_shape_def split: if_splits)
  obtain m2 l2 n n' where cr: "par_create_node p lv 0 m1 = Inr (brk m1, m1\<lparr>cells := (cells m1)(brk m1 := Some n),
        brk := Suc (brk m1), quota := quota m1 - 1\<rparr>)"
      and ins: "par_insert_sorted (brk m1) (m1\<lparr>cells := (cells m1)(brk m1 := Some n), brk := Suc (brk m1),
        quota := quota m1 - 1\<rparr>) l = Inr (m2, l2)"
      and inv2: "par_inv fs (m2, l2, pl1)"
      and ents2: "par_list_ents fs (m2, l2, pl1) = insort_key fst (p, lv, 0) (par_list_ents fs (m1, l, pl1))"
      and q2: "quota m2 = quota m1 - 1" and unc: "map_of (claims_of (pending pl1)) (brk m1) = None"
      and n': "cells m2 (brk m1) = Some n'" "path n' = p" "level n' = lv"
      and as2: "addrs_of m2 l2 = insort_key (path_of m2) (brk m1) (addrs_of m1 l)"
      and new: "brk m1 \<notin> set (addrs_of m1 l)"
      and old: "par_ents fs m2 pl1 (addrs_of m1 l) = par_list_ents fs (m1, l, pl1)"
    using par_insert_ok [OF inv1 q(1), of p lv] by blast
  show ?thesis
  proof (cases f)
    case False
    then have "par_add fs kw ispar (p, lv, f) (m, l, pl) = Inr (m2, l2, pl1)"
      using y(1) cr ins by (simp add: par_add_def)
    then show ?thesis
      using False inv2 ents2 ents1 q2 q(2) y(5) by (auto simp: item_entry_def par_room_def)
  next
    case True
    then obtain s where s: "fopen_r fs p = Some s" using ok by (auto simp: item_ok_def)
    have left: "ispar = 1 \<Longrightarrow> 0 < threads_left pl1" using room y(5) by (simp add: par_room_def)
    have pok2: "pool_ok fs m2 pl1" and linv2: "list_inv (m2, l2)" using inv2 by (auto simp: par_inv_def)
    obtain m3 pl3 where se: "search_new fs kw ispar (brk m1) m2 pl1 = Inr (m3, pl3)" "same_shape m2 m3"
        "pool_ok fs m3 pl3"
        "\<And>b. final_freq fs m3 pl3 b = (if b = brk m1 then freq_file fs kw p else final_freq fs m2 pl1 b)"
        "threads_left pl3 = (if ispar = 1 then threads_left pl1 - 1 else threads_left pl1)"
      using search_new_ok [OF pok2 n'(1) _ unc, of s ispar kw] n'(2) s left by auto
    have run: "par_add fs kw ispar (p, lv, f) (m, l, pl) = Inr (m3, l2, pl3)"
      using True y(1) cr ins se(1) by (simp add: par_add_def)
    have inv3: "par_inv fs (m3, l2, pl3)" and as3: "addrs_of m3 l2 = addrs_of m2 l2"
      using same_shape_list_inv [OF se(2) linv2] se(3) by (simp_all add: par_inv_def)
    have "par_list_ents fs (m3, l2, pl3) = par_ents fs m3 pl3 (insort_key (path_of m3) (brk m1) (addrs_of m1 l))"
      using as3 as2 same_shape_at(1) [OF se(2)] by (simp add: par_list_ents_def)
    also have "\<dots> = insort_key fst (p, lv, freq_file fs kw p) (par_ents fs m3 pl3 (addrs_of m1 l))"
      unfolding par_ents_insort using se(4) n' same_shape_key [OF se(2), of "brk m1"] by (simp add: node_at_def)
    also have "par_ents fs m3 pl3 (addrs_of m1 l) = par_list_ents fs (m, l, pl)"
      using par_ents_shape [OF se(2)] se(4) new old ents1 by metis
    finally show ?thesis
      using run inv3 True q2 q(2) y(5) se(2,5)
      by (auto simp: item_entry_def par_room_def same_shape_def)
  qed
qed

interpretation pls: sorted_store "par_inv fs" "par_list_ents fs" "par_room ispar" fst
    "item_entry fs kw" "item_ok fs" "par_add fs kw ispar" for fs kw ispar
proof unfold_locales
  fix s :: "par_node mem \<times> dlist \<times> pool" and x :: item
  assume "par_inv fs s" "item_ok fs x" "0 < par_room ispar s"
  then show "\<exists>s'. par_add fs kw ispar x s = Inr s' \<and> par_inv fs s' \<and>
      par_list_ents fs s' = insort_key fst (item_entry fs kw x) (par_list_ents fs s) \<and>
      par_room ispar s \<le> Suc (par_room ispar s')"
    by (cases s rule: prod_cases3, cases x rule: prod_cases3) (metis par_add_ok)
qed

section \<open>The traversal as a walk\<close>

text \<open>The walk of \<open>dirlist\<close>, with a flag that says which entries are searched.\<close>

function par_walk :: "fsys \<Rightarrow> string \<Rightarrow> int \<Rightarrow> item list \<times> cerr option"
  and par_walk_loop ::
    "fsys \<Rightarrow> string \<Rightarrow> string list \<Rightarrow> fmode option \<Rightarrow> int \<Rightarrow> item list \<times> cerr option" where
  "par_walk fs p lv =
     (case opendir fs p of None \<Rightarrow> ([], Some NullDeref) | Some ds \<Rightarrow> par_walk_loop fs p ds None lv)"
| "par_walk_loop fs p [] buf lv = ([], None)"
| "par_walk_loop fs p (d # ds) buf lv =
     (if dot_name d then par_walk_loop fs p ds buf lv
      else if length (join_path p d) + 1 > 255 then ([], Some Overflow)
      else
        let tmp = join_path p d;
            buf' = (case stat fs tmp of None \<Rightarrow> buf | Some md \<Rightarrow> Some md)
        in case buf' of
             None \<Rightarrow> ([(tmp, lv, False)], Some Uninit)
           | Some md \<Rightarrow>
               let (es, e) = (if md = S_IFDIR then par_walk fs tmp (lv + 1) else ([], None));
                   (es', e') = (if e = None then par_walk_loop fs p ds buf' lv else ([], e))
               in ((tmp, lv, md \<noteq> S_IFDIR) # es @ es', e'))"
  by pat_completeness auto
termination
  by (relation "measures [\<lambda>x. case x of Inl (fs, p, lv) \<Rightarrow> 255 - length p
                                     | Inr (fs, p, ds, buf, lv) \<Rightarrow> 255 - length p,
                         \<lambda>x. case x of Inl _ \<Rightarrow> 1 | Inr _ \<Rightarrow> 0,
                         \<lambda>x. case x of Inl _ \<Rightarrow> 0 | Inr (fs, p, ds, buf, lv) \<Rightarrow> length ds]")
    auto

declare par_populate_list.simps [simp del] par_populate_loop.simps(2) [simp del]
declare par_walk.simps [simp del] par_walk_loop.simps(2) [simp del]

lemma par_populate_walk:
  "2 \<le> lv \<Longrightarrow> par_populate_list fs kw ispar p (m, l, lv, pl) =
     bindE (foldE (par_add fs kw ispar) (fst (par_walk fs p lv)) (m, l, pl))
       (\<lambda>(m, l, pl). after_walk (snd (par_walk fs p lv)) (m, l, lv, pl))"
  "2 \<le> lv \<Longrightarrow> par_populate_loop fs kw ispar p ds buf (m, l, lv, pl) =
     bindE (foldE (par_add fs kw ispar) (fst (par_walk_loop fs p ds buf lv)) (m, l, pl))
       (\<lambda>(m, l, pl). after_walk (snd (par_walk_loop fs p ds buf lv)) (m, l, lv, pl))"
proof (induction fs p lv and fs p ds buf lv arbitrary: m l pl and m l pl rule: par_walk_par_walk_loop.induct)
  case (1 fs p lv)
  then show ?case
    by (simp add: par_populate_list.simps par_walk.simps split: option.split)
next
  case (3 fs p d ds buf lv)
  let ?tmp = "join_path p d"
  define buf' where "buf' = (case stat fs ?tmp of None \<Rightarrow> buf | Some md \<Rightarrow> Some md)"
  note loop = par_populate_loop.simps(2) [of fs kw ispar p d ds buf m l lv pl, unfolded Let_def, folded buf'_def]
    and wloop = par_walk_loop.simps(2) [of fs p d ds buf lv, unfolded Let_def, folded buf'_def]
  show ?case
  proof (cases "dot_name d \<or> 255 < length ?tmp + 1")
    case True
    then show ?thesis using 3(1,4) by (auto simp: loop wloop)
  next
    case False
    then have fits: "\<not> dot_name d" "\<not> 255 < length ?tmp + 1" by auto
    have sub: "par_populate_list fs kw ispar ?tmp (m', l', lv + 1, pl') =
        bindE (foldE (par_add fs kw ispar) (fst (par_walk fs ?tmp (lv + 1))) (m', l', pl'))
          (\<lambda>(m, l, pl). after_walk (snd (par_walk fs ?tmp (lv + 1))) (m, l, lv + 1, pl))"
      if "buf' = Some S_IFDIR" for m' l' pl'
      using 3(2) [OF fits refl buf'_def that refl] "3.prems" by simp
    have rest: "par_populate_loop fs kw ispar p ds buf' (m', l', lv, pl') =
        bindE (foldE (par_add fs kw ispar) (fst (par_walk_loop fs p ds buf' lv)) (m', l', pl'))
          (\<lambda>(m, l, pl). after_walk (snd (par_walk_loop fs p ds buf' lv)) (m, l, lv, pl))"
      if "buf' = Some md" "(es, e) = (if md = S_IFDIR then par_walk fs ?tmp (lv + 1) else ([], None))" "e = None"
      for m' l' pl' md es e
      using 3(3) [OF fits refl buf'_def that(1) refl that(2,3)] "3.prems" by simp
    show ?thesis
    proof (cases buf')
      case None
      then show ?thesis using fits by (auto simp: loop wloop par_add_def bindE_def split: sum.split)
    next
      case (Some md)
      show ?thesis
      proof (cases "md = S_IFDIR")
        case True
        have "par_populate_loop fs kw ispar p (d # ds) buf (m, l, lv, pl) =
            bindE (par_add fs kw ispar (?tmp, lv, False) (m, l, pl)) (\<lambda>(m, l, pl).
            bindE (par_populate_list fs kw ispar ?tmp (m, l, lv + 1, pl)) (\<lambda>(m, l, lv, pl).
              par_populate_loop fs kw ispar p ds buf' (m, l, lv - 1, pl)))"
          using fits Some True by (simp add: loop par_add_def bindE_assoc case_prod_unfold)
        then show ?thesis using fits Some True sub rest [OF Some]
          by (auto simp: wloop bindE_def after_walk_def split: sum.split prod.split option.split)
      next
        case False
        have "par_populate_loop fs kw ispar p (d # ds) buf (m, l, lv, pl) =
            bindE (par_add fs kw ispar (?tmp, lv, True) (m, l, pl)) (\<lambda>(m, l, pl).
              par_populate_loop fs kw ispar p ds buf' (m, l, lv, pl))"
          using fits Some False by (simp add: loop par_add_def bindE_assoc case_prod_unfold)
        then show ?thesis using fits Some False rest [OF Some]
          by (auto simp: wloop bindE_def after_walk_def split: sum.split prod.split option.split)
      qed
    qed
  qed
qed simp

text \<open>The parallel program visits what \<open>dirlist\<close> visits.\<close>

lemma par_walk_walk:
  "walk fs p lv = (map (\<lambda>(p, lv, f). (p, lv)) (fst (par_walk fs p lv)), snd (par_walk fs p lv))"
  "walk_loop fs p ds buf lv =
     (map (\<lambda>(p, lv, f). (p, lv)) (fst (par_walk_loop fs p ds buf lv)), snd (par_walk_loop fs p ds buf lv))"
proof (induction fs p lv and fs p ds buf lv rule: par_walk_par_walk_loop.induct)
  case (1 fs p lv)
  then show ?case by (simp add: walk.simps par_walk.simps split: option.split)
next
  case (3 fs p d ds buf lv)
  let ?tmp = "join_path p d"
  define buf' where "buf' = (case stat fs ?tmp of None \<Rightarrow> buf | Some md \<Rightarrow> Some md)"
  note loop = walk_loop.simps(2) [of fs p d ds buf lv, unfolded Let_def, folded buf'_def]
    and wloop = par_walk_loop.simps(2) [of fs p d ds buf lv, unfolded Let_def, folded buf'_def]
  show ?case
  proof (cases "dot_name d \<or> 255 < length ?tmp + 1")
    case True
    then show ?thesis using 3(1) by (auto simp: loop wloop)
  next
    case False
    then have fits: "\<not> dot_name d" "\<not> 255 < length ?tmp + 1" by auto
    note ih = 3(2,3) [OF fits refl buf'_def]
    show ?thesis
    proof (cases buf')
      case (Some md)
      show ?thesis using fits Some ih(1) [OF Some] ih(2) [OF Some refl _ refl]
        by (auto simp: loop wloop split: prod.splits if_splits)
    qed (use fits in \<open>simp add: loop wloop\<close>)
  qed
qed simp

definition tree_items :: "fsys \<Rightarrow> entry list \<Rightarrow> item list" where
  "tree_items fs es = map (\<lambda>(p, lv). (p, lv, stat fs p \<noteq> Some S_IFDIR)) es"

lemma par_walk_loop_tree:
  "fs_shows fs p cs \<Longrightarrow> par_walk_loop fs p (map fst cs) buf lv = (tree_items fs (tree_entries p lv cs), None)"
proof (induction p lv cs arbitrary: buf rule: tree_entries.induct)
  case (2 p lv n cs)
  then show ?case
    by (auto simp: par_walk_loop.simps(2) Let_def tree_items_def split: option.splits)
next
  case (3 p lv n ds cs)
  then show ?case
    by (auto simp: par_walk_loop.simps(2) par_walk.simps Let_def tree_items_def)
qed (simp add: tree_items_def)

lemma par_walk_tree: "fs_dir fs p cs \<Longrightarrow> par_walk fs p lv = (tree_items fs (tree_entries p lv cs), None)"
  by (simp add: fs_dir_def par_walk.simps par_walk_loop_tree)

section \<open>Printing\<close>

lemma same_data_sym: "same_data m m' \<Longrightarrow> same_data m' m"
  by (simp add: same_data_def)

lemma pool_ok_same_data:
  assumes sd: "same_data m m'" and ok: "pool_ok fs m pl"
  shows "pool_ok fs m' pl" and "final_freq fs m' pl = final_freq fs m pl"
proof -
  have "\<exists>n s. cells m' (arg_node x) = Some n \<and> tid n = t \<and> fopen_r fs (path n) = Some s"
    if px: "(t, x) \<in> set (pending pl)" for t x
  proof (rule pool_okD [OF ok px])
    fix n s assume n: "cells m (arg_node x) = Some n" "tid n = t" "fopen_r fs (path n) = Some s"
    obtain n' where "cells m' (arg_node x) = Some n'" "path n' = path n" "tid n' = tid n"
      by (rule same_data_par [OF sd n(1)])
    then show ?thesis using n(2,3) by auto
  qed
  moreover have "tid n < next_tid pl" if n: "cells m' a = Some n" for a n
  proof -
    obtain j where "cells m a = Some j" "tid j = tid n"
      by (rule same_data_par [OF same_data_sym [OF sd] n])
    then show ?thesis using ok unfolding pool_ok_def by metis
  qed
  ultimately show "pool_ok fs m' pl" using ok by (simp add: pool_ok_def)
  have "path_of m' a = path_of m a \<and> keyword_frequency (node_at m' a) = keyword_frequency (node_at m a)" for a
  proof (cases "cells m a")
    case None
    then have "cells m' a = None" using sd unfolding same_data_def by (metis map_option_is_None)
    with None show ?thesis by (simp add: node_at_def)
  next
    case (Some n)
    obtain n' where "cells m' a = Some n'" "path n' = path n" "keyword_frequency n' = keyword_frequency n"
      by (rule same_data_par [OF sd Some])
    with Some show ?thesis by (simp add: node_at_def)
  qed
  then show "final_freq fs m' pl = final_freq fs m pl"
    by (simp add: fun_eq_iff final_freq_def split: option.split)
qed

definition unjoined :: "pool \<Rightarrow> nat set" where
  "unjoined pl = (\<lambda>(t, x). arg_node x) ` set (pending pl)"

text \<open>Once the printer has joined a node's thread, the node holds its final frequency.\<close>

lemma join_ok:
  assumes ok: "pool_ok fs m pl" and n: "cells m a = Some n" and par: "ispar = 1 \<or> pending pl = []"
  shows "\<exists>m' pl'. (if ispar = 1 \<and> tid n \<noteq> 0 then pthread_join fs (tid n) m pl else Inr (m, pl)) = Inr (m', pl') \<and>
    same_shape m m' \<and> pool_ok fs m' pl' \<and> final_freq fs m' pl' = final_freq fs m pl \<and>
    set (pending pl') \<subseteq> set (pending pl) \<and> a \<notin> unjoined pl' \<and>
    keyword_frequency (node_at m' a) = final_freq fs m pl a"
proof -
  have own: "t = tid n \<and> t \<noteq> 0" if px: "(t, x) \<in> set (pending pl)" "arg_node x = a" for t x
    by (rule pool_okD [OF ok px(1)]) (use n px(2) in auto)
  have read: "keyword_frequency (node_at m' a) = final_freq fs m' pl' a" if "a \<notin> unjoined pl'" for m' pl'
  proof -
    have "map_of (claims_of (pending pl')) a = None"
      using that by (force simp: map_of_eq_None_iff claims_of_def unjoined_def)
    then show ?thesis by (simp add: final_freq_def)
  qed
  show ?thesis
  proof (cases "ispar = 1 \<and> tid n \<noteq> 0")
    case True
    have "tid n < next_tid pl" using ok n by (auto simp: pool_ok_def)
    then obtain m' pl' where j: "pthread_join fs (tid n) m pl = Inr (m', pl')" "same_shape m m'" "pool_ok fs m' pl'"
        "final_freq fs m' pl' = final_freq fs m pl" "pending pl' = filter (\<lambda>y. fst y \<noteq> tid n) (pending pl)"
      using run_threads_ok [OF ok, of "[tid n]"] by (auto simp: pthread_join_def)
    have "a \<notin> unjoined pl'" using own j(5) by (auto simp: unjoined_def)
    then show ?thesis using True j read [of pl' m'] by auto
  next
    case False
    have "a \<notin> unjoined pl"
    proof
      assume "a \<in> unjoined pl"
      then obtain t x where "(t, x) \<in> set (pending pl)" "arg_node x = a" by (auto simp: unjoined_def)
      then show False using own par False by fastforce
    qed
    then show ?thesis using False ok read [of pl m] by auto
  qed
qed

text \<open>A line of the parallel program, with the frequency as a function of the path.\<close>

definition freq_line :: "(string \<Rightarrow> int) \<Rightarrow> int \<Rightarrow> int \<Rightarrow> string \<Rightarrow> string" where
  "freq_line fr lv i p = par_print_line lv i (fr p) p"

definition promises :: "fsys \<Rightarrow> (string \<Rightarrow> int) \<Rightarrow> par_node mem \<Rightarrow> pool \<Rightarrow> nat list \<Rightarrow> bool" where
  "promises fs fr m pl as \<longleftrightarrow> (\<forall>a \<in> set as. final_freq fs m pl a = fr (path_of m a))"

lemma promises_shape:
  "promises fs fr m pl as \<Longrightarrow> same_shape m m' \<Longrightarrow> final_freq fs m' pl' = final_freq fs m pl \<Longrightarrow>
     promises fs fr m' pl' as"
  using same_shape_key [of m m'] by (simp add: promises_def)

text \<open>The printer's state at a node: what it knows of the line before.\<close>

definition line_before :: "par_node mem \<Rightarrow> ptr \<Rightarrow> int option \<Rightarrow> (int \<times> int) option \<Rightarrow> bool" where
  "line_before m pr order st \<longleftrightarrow>
     (case pr of None \<Rightarrow> st = None \<and> order = None
      | Some q \<Rightarrow> (\<exists>j. cells m q \<noteq> None \<and> order = Some j \<and> st = Some (level_of m q, j)))"

lemma line_before_shape: "line_before m pr order st \<Longrightarrow> same_shape m m' \<Longrightarrow> line_before m' pr order st"
  using same_shape_key [of m m'] same_shape_None [of m m'] by (auto simp: line_before_def split: option.splits)

lemma same_shape_entries: "same_shape m m' \<Longrightarrow> entries m' as = entries m as"
  using same_shape_key [of m m'] by (simp add: entries_def)

lemma order_ok:
  assumes "line_before m (prv n) order st"
  shows "(if prv n = None then Inr 1
      else bindE (deref m (prv n)) (\<lambda>q. if level n = level q
        then (case order of None \<Rightarrow> Inl Uninit | Some i \<Rightarrow> Inr (i + 1)) else Inr 1)) =
    Inr (case st of None \<Rightarrow> 1 | Some (lv', j) \<Rightarrow> if level n = lv' then j + 1 else 1)"
  using assms by (cases "prv n") (auto simp: line_before_def node_at_def res_simps)

lemma par_print_loop_ok:
  assumes "links (cells m) pr as None" and "length as < k" and "pool_ok fs m pl"
    and "unjoined pl \<subseteq> set as" and "ispar = 1 \<or> pending pl = []" and "promises fs fr m pl as"
    and "line_before m pr order st"
  shows "\<exists>m' pl'. par_print_loop k fs ispar m pl (first_of as None) order out =
      Inr (out @ render (freq_line fr) st (entries m as), m', pl') \<and> same_shape m m' \<and> pending pl' = []"
  using assms
proof (induction as arbitrary: m pl pr k st order out)
  case Nil
  then show ?case by (cases k) (auto simp: entries_def unjoined_def)
next
  case (Cons a as)
  then obtain k' where k: "k = Suc k'" by (cases k) auto
  obtain m1 pl1 where y: "yield fs m pl = Inr (m1, pl1)" "same_shape m m1" "pool_ok fs m1 pl1"
      "final_freq fs m1 pl1 = final_freq fs m pl" "set (pending pl1) \<subseteq> set (pending pl)"
    using yield_ok [OF Cons.prems(3)] by blast
  obtain n1 where n1: "cells m1 a = Some n1"
    using Cons.prems(1) same_shape_None [OF y(2), of a] by (auto split: option.splits)
  have "ispar = 1 \<or> pending pl1 = []" using Cons.prems(5) y(5) by auto
  from join_ok [OF y(3) n1 this] obtain m2 pl2 where
      j: "(if ispar = 1 \<and> tid n1 \<noteq> 0 then pthread_join fs (tid n1) m1 pl1 else Inr (m1, pl1)) = Inr (m2, pl2)"
      "same_shape m1 m2" "pool_ok fs m2 pl2" "final_freq fs m2 pl2 = final_freq fs m1 pl1"
      "set (pending pl2) \<subseteq> set (pending pl1)" "a \<notin> unjoined pl2"
      "keyword_frequency (node_at m2 a) = final_freq fs m1 pl1 a" by blast
  have sh: "same_shape m m2" using y(2) j(2) by (rule same_shape_trans)
  have "unjoined pl2 \<subseteq> unjoined pl" using y(5) j(5) by (auto simp: unjoined_def)
  then have sub: "unjoined pl2 \<subseteq> set as" "ispar = 1 \<or> pending pl2 = []"
    using Cons.prems(4,5) y(5) j(5,6) by auto
  obtain n where n: "cells m2 a = Some n" "nxt n = first_of as None" "prv n = pr"
      and lk: "links (cells m2) (Some a) as None"
    using same_shape_links [OF sh Cons.prems(1)] by (auto split: option.splits)
  define i where "i = (case st of None \<Rightarrow> 1 | Some (lv', j) \<Rightarrow> if level n = lv' then j + 1 else 1)"
  have fr: "keyword_frequency n = fr (path n)" "promises fs fr m2 pl2 as"
    using promises_shape [OF Cons.prems(6) sh] y(4) j(4,7) n(1) by (auto simp: promises_def node_at_def)
  have ord: "(if prv n = None then Inr 1
      else bindE (deref m2 (prv n)) (\<lambda>q. if level n = level q
        then (case order of None \<Rightarrow> Inl Uninit | Some i \<Rightarrow> Inr (i + 1)) else Inr 1)) = Inr i"
    unfolding i_def using line_before_shape [OF Cons.prems(7) sh] n(3) by (intro order_ok) simp
  have "line_before m2 (Some a) (Some i) (Some (level n, i))" using n by (simp add: line_before_def node_at_def)
  from Cons.IH [OF lk _ j(3) sub fr(2) this, of k' "out @ par_print_line (level n) i (fr (path n)) (path n)"]
  obtain m3 pl3 where "par_print_loop k' fs ispar m2 pl2 (first_of as None) (Some i)
        (out @ par_print_line (level n) i (fr (path n)) (path n)) =
      Inr ((out @ par_print_line (level n) i (fr (path n)) (path n)) @
        render (freq_line fr) (Some (level n, i)) (entries m2 as), m3, pl3)"
      "same_shape m2 m3" "pending pl3 = []"
    using Cons.prems(2) k by auto
  moreover have "entries m (a # as) = (path n, level n) # entries m2 as"
    using same_shape_entries [OF sh, of "a # as"] n(1) by (simp add: entries_def node_at_def)
  moreover have "freq_line fr (level n) i (path n) = par_print_line (level n) i (fr (path n)) (path n)"
    by (simp add: freq_line_def)
  ultimately show ?case
    using k y(1) n1 j(1) n ord fr(1) same_shape_trans [OF sh] by (simp add: res_simps i_def Let_def)
qed

lemma par_print_list_ok:
  assumes "chain m l as" and "owns m as" and "fopen_w fs f" and ok: "pool_ok fs m pl"
    and "ispar = 1 \<or> pending pl = []" and "promises fs fr m pl as"
  shows "\<exists>m' pl'. par_print_list_to_file fs ispar m pl l f =
      Inr (render (freq_line fr) None (entries m as), m', pl') \<and> same_shape m m' \<and> pending pl' = []"
proof -
  have "unjoined pl \<subseteq> set as"
  proof
    fix a assume "a \<in> unjoined pl"
    then obtain t x where px: "(t, x) \<in> set (pending pl)" "a = arg_node x" by (auto simp: unjoined_def)
    obtain n where "cells m a = Some n" by (rule pool_okD [OF ok px(1)]) (use px(2) in auto)
    then show "a \<in> set as" using assms(2) by (auto simp: owns_def)
  qed
  then show ?thesis
    using par_print_loop_ok [of m None as "Suc (brk m)" fs pl ispar fr None None "[]"] assms chain_length [OF assms(1)]
    by (simp add: par_print_list_to_file_def chain_def line_before_def del: par_print_loop.simps)
qed

section \<open>The whole program\<close>

text \<open>In sequential mode no thread is ever created.\<close>

lemma run_threads_none: "pending pl = [] \<Longrightarrow> run_threads fs ts m pl = Inr (m, pl)"
  by (induction ts) simp_all

lemma yield_none: "pending pl = [] \<Longrightarrow> yield fs m pl = Inr (m', pl') \<Longrightarrow> pending pl' = []"
  by (auto simp: yield_def run_threads_none split: list.splits)

lemma par_add_none:
  "ispar \<noteq> 1 \<Longrightarrow> pending pl = [] \<Longrightarrow> par_add fs kw ispar x (m, l, pl) = Inr (m', l', pl') \<Longrightarrow> pending pl' = []"
  by (auto simp: par_add_def search_new_def bindE_eq_Inr split: prod.splits if_splits dest: yield_none)

lemma par_adds_none:
  "ispar \<noteq> 1 \<Longrightarrow> pending pl = [] \<Longrightarrow> foldE (par_add fs kw ispar) xs (m, l, pl) = Inr (m', l', pl') \<Longrightarrow> pending pl' = []"
proof (induction xs arbitrary: m l pl)
  case (Cons x xs)
  then obtain m1 l1 pl1 where "par_add fs kw ispar x (m, l, pl) = Inr (m1, l1, pl1)"
      "foldE (par_add fs kw ispar) xs (m1, l1, pl1) = Inr (m', l', pl')"
    by (auto simp: bindE_eq_Inr)
  then show ?case using Cons par_add_none by blast
qed simp

lemma cells_empty [simp]: "cells (empty_mem q) a = None"
  by (simp add: empty_mem_def)

lemma par_inv_empty: "par_inv fs (empty_mem q, empty_list, init_pool tq sc)"
    "par_list_ents fs (empty_mem q, empty_list, init_pool tq sc) = []"
  by (simp_all add: par_inv_def list_inv_empty pool_ok_def init_pool_def claims_of_def
      par_list_ents_def par_ents_def)

lemma par_populate_root:
  "par_populate_list fs kw ispar p (empty_mem q, empty_list, 1, pl) =
     bindE (foldE (par_add fs kw ispar) ((p, 1, False) # fst (par_walk fs p 2)) (empty_mem q, empty_list, pl))
       (\<lambda>(m, l, pl). after_walk (snd (par_walk fs p 2)) (m, l, 2, pl))"
proof -
  have "par_populate_list fs kw ispar p (empty_mem q, empty_list, 1, pl) =
      bindE (par_add fs kw ispar (p, 1, False) (empty_mem q, empty_list, pl))
        (\<lambda>(m, l, pl). par_populate_list fs kw ispar p (m, l, 2, pl))"
    by (simp add: par_populate_list.simps par_add_def bindE_assoc case_prod_unfold cong: option.case_cong)
  then show ?thesis by (simp add: par_populate_walk(1) bindE_assoc case_prod_unfold)
qed

text \<open>The frequency the listing shows for a path: 0 for a directory, the file's count otherwise.\<close>

definition shown_freq :: "fsys \<Rightarrow> string \<Rightarrow> string \<Rightarrow> int" where
  "shown_freq fs kw p = (if stat fs p = Some S_IFDIR then 0 else freq_file fs kw p)"

definition readable :: "fsys \<Rightarrow> entry list \<Rightarrow> bool" where
  "readable fs es \<longleftrightarrow> (\<forall>(p, lv) \<in> set es. stat fs p \<noteq> Some S_IFDIR \<longrightarrow> fopen_r fs p \<noteq> None)"

lemma item_entry_tree:
  assumes "stat fs root = Some S_IFDIR"
  shows "map (item_entry fs kw) ((root, 1, False) # tree_items fs es) =
    map (\<lambda>(p, lv). (p, lv, shown_freq fs kw p)) ((root, 1) # es)"
  using assms by (auto simp: tree_items_def item_entry_def shown_freq_def)

text \<open>What the traversal leaves, in either mode and under any schedule.\<close>

lemma par_adds_ok:
  assumes root: "stat fs root = Some S_IFDIR" and rd: "readable fs es"
    and q: "length es < q" and t: "ispar = 1 \<longrightarrow> length es < tq"
  shows "\<exists>m l pl. foldE (par_add fs kw ispar) ((root, 1, False) # tree_items fs es)
        (empty_mem q, empty_list, init_pool tq sc) = Inr (m, l, pl) \<and>
    list_inv (m, l) \<and> pool_ok fs m pl \<and> (ispar = 1 \<or> pending pl = []) \<and>
    entries m (addrs_of m l) = sort_key fst (rev ((root, 1) # es)) \<and>
    promises fs (shown_freq fs kw) m pl (addrs_of m l)"
proof -
  let ?xs = "(root, 1, False) # tree_items fs es" and ?s = "(empty_mem q, empty_list, init_pool tq sc)"
  have len: "length ?xs \<le> par_room ispar ?s"
    using q t by (auto simp: par_room_def tree_items_def empty_mem_def init_pool_def)
  have ok: "\<forall>x \<in> set ?xs. item_ok fs x" using rd by (auto simp: item_ok_def tree_items_def readable_def)
  obtain m l pl where f: "foldE (par_add fs kw ispar) ?xs ?s = Inr (m, l, pl)" "par_inv fs (m, l, pl)"
      and ents: "par_list_ents fs (m, l, pl) = sort_key fst (rev (map (item_entry fs kw) ?xs))"
    using pls.put_all_sorts [OF par_inv_empty ok len, of kw] by auto
  let ?g = "\<lambda>(p, lv). (p, lv, shown_freq fs kw p)"
  have pe: "par_ents fs m pl (addrs_of m l) = map ?g (sort_key fst (rev ((root, 1) # es)))"
    using ents map_sort_key [of ?g fst "rev ((root, 1) # es)"]
    unfolding item_entry_tree [OF root] rev_map par_list_ents_def by (simp add: case_prod_unfold comp_def)
  have "entries m (addrs_of m l) = map (\<lambda>(p, lv, f). (p, lv)) (par_ents fs m pl (addrs_of m l))"
    by (simp add: entries_def par_ents_def)
  also have "\<dots> = sort_key fst (rev ((root, 1) # es))" unfolding pe by (simp add: case_prod_unfold comp_def)
  finally have e: "entries m (addrs_of m l) = sort_key fst (rev ((root, 1) # es))" .
  have "\<forall>x \<in> set (par_ents fs m pl (addrs_of m l)). snd (snd x) = shown_freq fs kw (fst x)"
    unfolding pe by auto
  then have "promises fs (shown_freq fs kw) m pl (addrs_of m l)" by (simp add: promises_def par_ents_def)
  moreover have "ispar = 1 \<or> pending pl = []"
    using par_adds_none [OF _ _ f(1)] by (auto simp: init_pool_def)
  ultimately show ?thesis using f e by (auto simp: par_inv_def)
qed

lemma pardirlist_run:
  assumes w: "par_walk fs root 2 = (tree_items fs es, None)" and root: "stat fs root = Some S_IFDIR"
    and rd: "readable fs es" and q: "length es < q" and par: "atoi ip = 1 \<longrightarrow> length es < tq"
    and ip: "atoi ip = 0 \<or> atoi ip = 1" and f: "fopen_w fs out"
  shows "\<exists>m. pardirlist_main fs (Suc q) tq sc [a0, root, kw, out, ip] =
      Inr \<lparr>par_status = 0, par_stderr = [],
           par_outfile = Some (out, listing (freq_line (shown_freq fs kw)) ((root, 1) # es)),
           par_heap = m, par_threads = []\<rparr> \<and> (\<forall>a. cells m a = None)"
proof -
  let ?es = "(root, 1) # es" and ?fr = "shown_freq fs kw" and ?i = "atoi ip"
  obtain m l pl where add: "foldE (par_add fs kw ?i) ((root, 1, False) # tree_items fs es)
        (empty_mem q, empty_list, init_pool tq sc) = Inr (m, l, pl)" "list_inv (m, l)" "pool_ok fs m pl"
      "?i = 1 \<or> pending pl = []" "entries m (addrs_of m l) = sort_key fst (rev ?es)"
      "promises fs ?fr m pl (addrs_of m l)"
    using par_adds_ok [OF root rd q par] by blast
  obtain m1 pl1 where y: "yield fs m pl = Inr (m1, pl1)" "same_shape m m1" "pool_ok fs m1 pl1"
      "final_freq fs m1 pl1 = final_freq fs m pl" "set (pending pl1) \<subseteq> set (pending pl)"
    using yield_ok [OF add(3)] by blast
  have inv: "list_inv (m1, l)" and as: "addrs_of m1 l = addrs_of m l"
    using same_shape_list_inv [OF y(2) add(2)] by auto
  define as where "as = sort_key (level_of m1) (addrs_of m1 l)"
  have above: "\<forall>e \<in> set es. root < fst e \<and> 2 \<le> snd e"
    using walk_above(1) [of _ fs root 2] unfolding par_walk_walk(1) [of fs root 2] w
    by (simp add: tree_items_def comp_def case_prod_unfold)
  have "entries m1 (addrs_of m1 l) = sort_key fst (rev ?es)"
    using add(5) same_shape_entries [OF y(2)] as by simp
  then obtain m2 where m2: "insertion_sort_by_level_increasing m1 l = Inr m2" "chain m2 l as" "same_data m1 m2"
      "owns m2 as" "\<And>ln. render ln None (entries m2 as) = listing ln ?es"
    using level_sort_listing [OF inv _ above] by (auto simp: as_def)
  note pool2 = pool_ok_same_data [OF m2(3) y(3)]
  have "promises fs ?fr m1 pl1 (addrs_of m1 l)" using promises_shape [OF add(6) y(2,4)] as by simp
  then have pr2: "promises fs ?fr m2 pl1 as"
    using pool2(2) same_data_key [OF m2(3)] by (simp add: promises_def as_def)
  have p1: "?i = 1 \<or> pending pl1 = []" using add(4) y(5) by auto
  obtain m3 pl3 where m3: "par_print_list_to_file fs ?i m2 pl1 l out = Inr (listing (freq_line ?fr) ?es, m3, pl3)"
      "same_shape m2 m3" "pending pl3 = []"
    using par_print_list_ok [OF m2(2,4) f pool2(1) p1 pr2] m2(5) by auto
  have ch3: "chain m3 l as" using same_shape_chain [OF m3(2) m2(2)] .
  have own3: "owns m3 as" using m2(4) same_shape_None [OF m3(2)] by (simp add: owns_def)
  obtain m4 where m4: "destroy_list m3 l = Inr m4" "\<forall>a. cells m4 a = None"
    using destroy_list_owns [OF ch3 own3] by blast
  show ?thesis
    using ip add(1) y(1) m2(1) m3(1,3) m4 w
    by (auto simp: pardirlist_main_def par_list_defs create_list_def malloc_other_empty par_populate_root simp del: foldE.simps)
qed

section \<open>Properties\<close>

text \<open>
  C2. On a readable directory tree with paths shorter than 255 bytes, memory for all entries
  and, in parallel mode, enough threads, \<open>pardirlist\<close> exits with status 0 and writes the
  listing of \<open>dirlist\<close> with a frequency on every line (0 for directories, the count of the
  keyword for files), frees every node and leaves no thread behind. This holds in both modes
  and for every schedule of the threads.
\<close>

theorem pardirlist_listing:
  assumes "fs_dir fs root cs" and "stat fs root = Some S_IFDIR" and "readable fs (tree_entries root 2 cs)"
    and "length (tree_entries root 2 cs) + 1 < q" and "atoi ip = 1 \<longrightarrow> length (tree_entries root 2 cs) < tq"
    and "atoi ip = 0 \<or> atoi ip = 1" and "fopen_w fs out"
  shows "\<exists>m. pardirlist_main fs q tq sc [a0, root, kw, out, ip] =
      Inr \<lparr>par_status = 0, par_stderr = [],
           par_outfile = Some (out, listing (freq_line (shown_freq fs kw)) ((root, 1) # tree_entries root 2 cs)),
           par_heap = m, par_threads = []\<rparr> \<and> (\<forall>a. cells m a = None)"
  using pardirlist_run [OF par_walk_tree [OF assms(1)] assms(2,3) _ assms(5-7), of "q - 1" sc a0 kw] assms(4) by simp

definition demo_par_fs :: fsys where
  "demo_par_fs = demo_fs\<lparr>stat := (stat demo_fs)(''/r'' \<mapsto> S_IFDIR)\<rparr>"

text \<open>A witness run: thread 2 finishes at once, thread 1 when the printer joins it.\<close>

theorem pardirlist_listing_witness:
  "\<exists>m. pardirlist_main demo_par_fs 10 9 [[], [], [], [2]] [''pardirlist'', ''/r'', ''int'', ''out'', ''1''] =
     Inr \<lparr>par_status = 0, par_stderr = [],
          par_outfile = Some (''out'', concat (map (\<lambda>s. s @ [CHR 0x0A])
            [''1:1:0:/r'', ''2:1:1:/r/README'', ''2:2:0:/r/chap3'', ''2:3:0:/r/chap4'',
             ''3:1:0:/r/chap3/Sim'', ''3:2:1:/r/chap3/win.c'', ''3:3:1:/r/chap4/D.java'', ''3:4:2:/r/chap4/t.c'',
             ''4:1:3:/r/chap3/Sim/dup.c''])), par_heap = m, par_threads = []\<rparr> \<and> (\<forall>a. cells m a = None)"
proof -
  have h: "fs_dir demo_par_fs ''/r'' demo_tree" "stat demo_par_fs ''/r'' = Some S_IFDIR"
    "readable demo_par_fs (tree_entries ''/r'' 2 demo_tree)" "length (tree_entries ''/r'' 2 demo_tree) + 1 < 10"
    "atoi ''1'' = 1" "fopen_w demo_par_fs ''out''" by code_simp+
  have "listing (freq_line (shown_freq demo_par_fs ''int'')) ((''/r'', 1) # tree_entries ''/r'' 2 demo_tree) =
    concat (map (\<lambda>s. s @ [CHR 0x0A])
            [''1:1:0:/r'', ''2:1:1:/r/README'', ''2:2:0:/r/chap3'', ''2:3:0:/r/chap4'',
             ''3:1:0:/r/chap3/Sim'', ''3:2:1:/r/chap3/win.c'', ''3:3:1:/r/chap4/D.java'', ''3:4:2:/r/chap4/t.c'',
             ''4:1:3:/r/chap3/Sim/dup.c''])" by code_simp
  then show ?thesis
    using pardirlist_listing [OF h(1-4) _ _ h(6), of "''1''" 9 "[[], [], [], [2]]" "''pardirlist''" "''int''"] h(4,5)
    by auto
qed

text \<open>
  The parallel and the sequential mode write the same output file, whatever the schedules
  of the two runs are.
\<close>

theorem pardirlist_modes_agree:
  assumes "fs_dir fs root cs" and "stat fs root = Some S_IFDIR" and "readable fs (tree_entries root 2 cs)"
    and "length (tree_entries root 2 cs) + 1 < q" and "length (tree_entries root 2 cs) < tq" and "fopen_w fs out"
  shows "\<exists>f r r'. pardirlist_main fs q tq sc [a0, root, kw, out, ''0''] = Inr r \<and>
    pardirlist_main fs q tq sc' [a0, root, kw, out, ''1''] = Inr r' \<and>
    par_outfile r = Some (out, f) \<and> par_outfile r' = Some (out, f)"
proof -
  have "atoi ''0'' = 0" "atoi ''1'' = 1" by code_simp+
  moreover have "length (tree_entries root 2 cs) < q - 1" "Suc (q - 1) = q" using assms(4) by auto
  ultimately show ?thesis
    using pardirlist_run [OF par_walk_tree [OF assms(1)] assms(2,3) _ _ _ assms(6), of "q - 1" "''0''" tq sc a0 kw]
      pardirlist_run [OF par_walk_tree [OF assms(1)] assms(2,3) _ _ _ assms(6), of "q - 1" "''1''" tq sc' a0 kw] assms(5)
    by auto
qed

theorem pardirlist_modes_agree_witness:
  "\<exists>f r r'. pardirlist_main demo_par_fs 10 9 [] [''pardirlist'', ''/r'', ''int'', ''out'', ''0''] = Inr r \<and>
    pardirlist_main demo_par_fs 10 9 [[], [], [1]] [''pardirlist'', ''/r'', ''int'', ''out'', ''1''] = Inr r' \<and>
    par_outfile r = Some (''out'', f) \<and> par_outfile r' = Some (''out'', f)"
proof -
  have h: "fs_dir demo_par_fs ''/r'' demo_tree" "stat demo_par_fs ''/r'' = Some S_IFDIR"
    "readable demo_par_fs (tree_entries ''/r'' 2 demo_tree)" "length (tree_entries ''/r'' 2 demo_tree) + 1 < 10"
    "length (tree_entries ''/r'' 2 demo_tree) < 9" "fopen_w demo_par_fs ''out''" by code_simp+
  show ?thesis by (rule pardirlist_modes_agree [OF h])
qed

text \<open>
  C22. The count: for a file without NUL bytes and with lines of at most 1024 characters, the
  sequential search and the search thread store the same frequency, the number of
  blank-separated words of the file that equal the keyword; they change nothing else.
\<close>

theorem search_counts_words:
  assumes "cells m a = Some n" and "fopen_r fs (path n) = Some s"
    and "CHR 0x00 \<notin> set s" and "short_lines 1024 s"
  shows "seq_search_file fs a kw m =
      Inr (m\<lparr>cells := (cells m)(a \<mapsto> n\<lparr>keyword_frequency := int (count_list (tok_words blanks s) kw)\<rparr>)\<rparr>) \<and>
    psf_runner fs \<lparr>arg_node = a, arg_keyword = kw\<rparr> m = seq_search_file fs a kw m"
  using assms(1,2) search_stream_words [OF assms(3,4), of kw 0]
  by (simp_all add: seq_search_file_def psf_runner_def res_simps)

definition demo_par_mem :: "par_node mem" where
  "demo_par_mem = \<lparr>cells = [0 \<mapsto> \<lparr>path = ''/r/chap4/t.c'', level = 1, nxt = None, prv = None,
     keyword_frequency = 0, tid = 0\<rparr>], brk = 1, quota = 3\<rparr>"

theorem search_counts_words_witness:
  "\<exists>n. cells demo_par_mem 0 = Some n \<and>
     seq_search_file demo_fs 0 ''int'' demo_par_mem =
       Inr (demo_par_mem\<lparr>cells := (cells demo_par_mem)(0 \<mapsto> n\<lparr>keyword_frequency := 2\<rparr>)\<rparr>)"
proof -
  let ?n = "\<lparr>path = ''/r/chap4/t.c'', level = 1, nxt = None, prv = None, keyword_frequency = 0, tid = 0\<rparr>"
  have n: "cells demo_par_mem 0 = Some ?n" by (simp add: demo_par_mem_def)
  have s: "fopen_r demo_fs (path ?n) = Some ''int x; int y;''" by code_simp
  have t: "CHR 0x00 \<notin> set ''int x; int y;''" "short_lines 1024 ''int x; int y;''" by code_simp+
  have "count_list (tok_words blanks ''int x; int y;'') ''int'' = 2" by code_simp
  then show ?thesis using n search_counts_words [OF n s t, of "''int''"] by simp
qed

text \<open>
  A wrong number of arguments, or an \<open>ispar\<close> that does not read as 0 or 1, ends the
  program with status 1 and a message on standard error: no file is written, no memory is
  allocated and no thread is started. (Text that is not a number reads as 0.)
\<close>

theorem pardirlist_usage:
  assumes "length argv \<noteq> 5 \<or> atoi (argv ! 4) \<notin> {0, 1}"
  shows "\<exists>msg. msg \<noteq> [] \<and> pardirlist_main fs q tq sc argv =
    Inr \<lparr>par_status = 1, par_stderr = msg, par_outfile = None, par_heap = empty_mem q, par_threads = []\<rparr>"
  using assms by (auto simp: pardirlist_main_def Let_def)

theorem pardirlist_usage_witness:
  "\<exists>msg. msg \<noteq> [] \<and> pardirlist_main demo_fs 9 9 [] [''pardirlist'', ''/r'', ''int'', ''out'', ''2''] =
    Inr \<lparr>par_status = 1, par_stderr = msg, par_outfile = None, par_heap = empty_mem 9, par_threads = []\<rparr>"
proof (rule pardirlist_usage)
  have "atoi ''2'' = 2" by code_simp
  then show "length [''pardirlist'', ''/r'', ''int'', ''out'', ''2''] \<noteq> 5 \<or>
      atoi ([''pardirlist'', ''/r'', ''int'', ''out'', ''2''] ! 4) \<notin> {0, 1}" by simp
qed

end
