(* ===== verification/Bounded_Fifo.thy ===== *)
theory Bounded_Fifo
  imports Posix_Prelude
begin

text \<open>
  The interface between producers and a consumer that share a bounded buffer guarded by
  semaphores. Both the request queue and the item buffer of the server are instances. The
  client side is proved here once: under every interleaving nothing is lost, nothing is
  duplicated, every producer's order is kept, and the system never gets stuck.
\<close>

section \<open>Interleavings\<close>

inductive interleaves :: "'r list \<Rightarrow> 'r list list \<Rightarrow> bool" where
  stop: "\<forall>p \<in> set ps. p = [] \<Longrightarrow> interleaves [] ps"
| pick: "i < length ps \<Longrightarrow> ps ! i = r # t \<Longrightarrow> interleaves xs (ps[i := t]) \<Longrightarrow> interleaves (r # xs) ps"

inductive_cases interleaves_NilE: "interleaves [] ps"
inductive_cases interleaves_ConsE: "interleaves (r # xs) ps"

lemma interleaves_one: "interleaves xs [ys] \<longleftrightarrow> xs = ys"
proof
  show "interleaves xs [ys] \<Longrightarrow> xs = ys"
    by (induction xs "[ys]" arbitrary: ys rule: interleaves.induct) auto
  show "xs = ys \<Longrightarrow> interleaves xs [ys]"
  proof (induction xs arbitrary: ys)
    case (Cons x xs)
    then show ?case using interleaves.pick [of 0 "[x # xs]" x xs xs] by simp
  qed (simp add: interleaves.stop)
qed

lemma sum_list_mset_update:
  assumes "i < length ps" and "ps ! i = r # t"
  shows "sum_list (map mset ps) = add_mset r (sum_list (map mset (ps[i := t])))"
  using assms
proof (induction ps arbitrary: i)
  case (Cons p ps)
  then show ?case by (cases i) auto
qed simp

lemma interleaves_mset: "interleaves xs ps \<Longrightarrow> mset xs = sum_list (map mset ps)"
proof (induction rule: interleaves.induct)
  case (stop ps)
  then show ?case by (induction ps) auto
next
  case (pick i ps r t xs)
  then show ?case using sum_list_mset_update [of i ps r t] by simp
qed

lemma sum_list_length_update:
  "i < length ps \<Longrightarrow> ps ! i = r # t \<Longrightarrow> sum_list (map length ps) = Suc (sum_list (map length (ps[i := t])))"
proof (induction ps arbitrary: i)
  case (Cons p ps)
  then show ?case by (cases i) auto
qed simp

lemma interleaves_length: "interleaves xs ps \<Longrightarrow> length xs = sum_list (map length ps)"
proof (induction rule: interleaves.induct)
  case (stop ps)
  then show ?case by (induction ps) auto
next
  case (pick i ps r t xs)
  then show ?case using sum_list_length_update [of i ps r t] by simp
qed

lemma interleaves_ex: "\<exists>zs. interleaves zs ps"
proof (induction "sum_list (map length ps)" arbitrary: ps)
  case 0
  then show ?case using interleaves.stop [of ps] by auto
next
  case (Suc k)
  then have "\<exists>p \<in> set ps. p \<noteq> []" by (metis length_0_conv map_idI nat.distinct(1) sum_list_0 map_cong)
  then obtain i r t where i: "i < length ps" "ps ! i = r # t" by (metis in_set_conv_nth neq_Nil_conv)
  then obtain zs where "interleaves zs (ps[i := t])" using Suc sum_list_length_update [OF i] by auto
  then show ?case using interleaves.pick [OF i] by blast
qed

section \<open>Producers, buffer, consumer\<close>

text \<open>
  The system: what each producer still has to send, the buffer, and what the consumer has
  received. A step is a completed operation; one that would wait is not a step.
\<close>

type_synonym ('s, 'r) pc_state = "'r list list \<times> 's \<times> 'r list"

inductive pc_step ::
    "('r \<Rightarrow> 's \<Rightarrow> 's res) \<Rightarrow> ('s \<Rightarrow> ('r \<times> 's) res) \<Rightarrow> ('s, 'r) pc_state \<Rightarrow> ('s, 'r) pc_state \<Rightarrow> bool"
  for enq deq where
  send: "i < length ps \<Longrightarrow> ps ! i = r # t \<Longrightarrow> enq r s = Inr s' \<Longrightarrow>
    pc_step enq deq (ps, s, got) (ps[i := t], s', got)"
| recv: "deq s = Inr (r, s') \<Longrightarrow> pc_step enq deq (ps, s, got) (ps, s', got @ [r])"

lemma pc_stepE:
  assumes "pc_step enq deq (ps, s, got) c"
  obtains (send) i r t s' where "c = (ps[i := t], s', got)" "i < length ps" "ps ! i = r # t" "enq r s = Inr s'"
  | (recv) r s' where "c = (ps, s', got @ [r])" "deq s = Inr (r, s')"
  using assms by (auto elim: pc_step.cases)

text \<open>What is left to do: operations of the producers and receptions.\<close>

definition pc_todo :: "nat \<Rightarrow> ('s, 'r) pc_state \<Rightarrow> nat" where
  "pc_todo n c = (case c of (ps, s, got) \<Rightarrow> sum_list (map length ps) + (n - length got))"

locale bounded_fifo =
  fixes cap :: nat
    and rep :: "'s \<Rightarrow> 'r list \<Rightarrow> 'r multiset \<Rightarrow> bool"
    and enq :: "'r \<Rightarrow> 's \<Rightarrow> 's res"
    and deq :: "'s \<Rightarrow> ('r \<times> 's) res"
  assumes cap_pos: "0 < cap"
    and enq_ok: "rep s rs (add_mset r M) \<Longrightarrow> length rs < cap \<Longrightarrow> \<exists>s'. enq r s = Inr s' \<and> rep s' (rs @ [r]) M"
    and enq_full: "rep s rs M \<Longrightarrow> length rs = cap \<Longrightarrow> enq r s = Inl Block"
    and deq_ok: "rep s (r # rs) M \<Longrightarrow> \<exists>s'. deq s = Inr (r, s') \<and> rep s' rs M"
    and deq_empty: "rep s [] M \<Longrightarrow> deq s = Inl Block"
    and rep_cap: "rep s rs M \<Longrightarrow> length rs \<le> cap"
begin

text \<open>What holds in every reachable state of a system that starts with an empty buffer.\<close>

definition pc_inv :: "'r list list \<Rightarrow> ('s, 'r) pc_state \<Rightarrow> bool" where
  "pc_inv ps0 c =
     (case c of (ps, s, got) \<Rightarrow> \<exists>rs. rep s rs (sum_list (map mset ps)) \<and>
        (\<forall>zs. interleaves zs ps \<longrightarrow> interleaves (got @ rs @ zs) ps0))"

lemma pc_inv_init: "rep s [] (sum_list (map mset ps)) \<Longrightarrow> pc_inv ps (ps, s, [])"
  by (auto simp: pc_inv_def)

lemma pc_inv_step:
  assumes "pc_inv ps0 (ps, s, got)" and "pc_step enq deq (ps, s, got) c'"
  shows "pc_inv ps0 c'"
  using assms(2)
proof (cases rule: pc_stepE)
  case (send i r t s')
  obtain rs where rep: "rep s rs (sum_list (map mset ps))"
      and il: "\<forall>zs. interleaves zs ps \<longrightarrow> interleaves (got @ rs @ zs) ps0"
    using assms(1) by (auto simp: pc_inv_def)
  have rep': "rep s rs (add_mset r (sum_list (map mset (ps[i := t]))))"
    using rep sum_list_mset_update [OF send(2,3)] by simp
  have "length rs < cap" using send(4) enq_full [OF rep] rep_cap [OF rep] by (cases "length rs = cap") auto
  then have "rep s' (rs @ [r]) (sum_list (map mset (ps[i := t])))" using enq_ok [OF rep'] send(4) by auto
  moreover have "interleaves (got @ (rs @ [r]) @ zs) ps0" if "interleaves zs (ps[i := t])" for zs
    using il interleaves.pick [OF send(2,3) that] by simp
  ultimately show ?thesis using send(1) unfolding pc_inv_def by blast
next
  case (recv r s')
  obtain rs where rep: "rep s rs (sum_list (map mset ps))"
      and il: "\<forall>zs. interleaves zs ps \<longrightarrow> interleaves (got @ rs @ zs) ps0"
    using assms(1) by (auto simp: pc_inv_def)
  obtain r' rs' where "rs = r' # rs'" using rep recv(2) deq_empty by (cases rs) auto
  then show ?thesis using deq_ok [of s r' rs' "sum_list (map mset ps)"] rep il recv by (auto simp: pc_inv_def)
qed

lemma pc_inv_reach: "(pc_step enq deq)\<^sup>*\<^sup>* c c' \<Longrightarrow> pc_inv ps0 c \<Longrightarrow> pc_inv ps0 c'"
proof (induction rule: rtranclp_induct)
  case (step y z)
  obtain ps s got where "y = (ps, s, got)" by (cases y)
  then show ?case using step pc_inv_step by blast
qed simp

text \<open>As long as something has not been received, some step is possible.\<close>

lemma pc_progress:
  assumes "pc_inv ps0 (ps, s, got)" and "\<not> interleaves got ps0"
  shows "\<exists>c'. pc_step enq deq (ps, s, got) c'"
proof -
  obtain rs where rep: "rep s rs (sum_list (map mset ps))"
      and il: "\<forall>zs. interleaves zs ps \<longrightarrow> interleaves (got @ rs @ zs) ps0"
    using assms(1) by (auto simp: pc_inv_def)
  show ?thesis
  proof (cases rs)
    case (Cons r rs')
    then show ?thesis using deq_ok [of s r rs'] rep pc_step.recv [of deq s r] by metis
  next
    case Nil
    have "\<exists>p \<in> set ps. p \<noteq> []" using il assms(2) Nil interleaves.stop [of ps] by fastforce
    then obtain i r t where i: "i < length ps" "ps ! i = r # t"
      by (metis in_set_conv_nth neq_Nil_conv)
    have "rep s rs (add_mset r (sum_list (map mset (ps[i := t]))))"
      using rep sum_list_mset_update [OF i] by simp
    from enq_ok [OF this] obtain s' where "enq r s = Inr s'" using Nil cap_pos by auto
    then show ?thesis using pc_step.send [OF i, of enq s s' deq got] by blast
  qed
qed

text \<open>Every step brings the end nearer, so every run that does not stop early delivers everything.\<close>

lemma pc_inv_room:
  assumes "pc_inv ps0 (ps, s, got)"
  shows "length got + sum_list (map length ps) \<le> sum_list (map length ps0)"
    and "deq s = Inr (r, s') \<Longrightarrow> length got < sum_list (map length ps0)"
proof -
  obtain rs where rep: "rep s rs (sum_list (map mset ps))"
      and il: "\<forall>zs. interleaves zs ps \<longrightarrow> interleaves (got @ rs @ zs) ps0"
    using assms by (auto simp: pc_inv_def)
  obtain zs where zs: "interleaves zs ps" using interleaves_ex by blast
  have len: "length got + length rs + sum_list (map length ps) = sum_list (map length ps0)"
    using interleaves_length [OF zs] interleaves_length [of "got @ rs @ zs" ps0] il zs by simp
  then show "length got + sum_list (map length ps) \<le> sum_list (map length ps0)" by simp
  show "length got < sum_list (map length ps0)" if "deq s = Inr (r, s')"
    using that len deq_empty rep by (cases rs) auto
qed

lemma pc_step_todo:
  assumes "pc_inv ps0 c" and "pc_step enq deq c c'"
  shows "pc_todo (sum_list (map length ps0)) c' < pc_todo (sum_list (map length ps0)) c"
proof -
  obtain ps s got where c: "c = (ps, s, got)" by (cases c)
  have "pc_step enq deq (ps, s, got) c'" using assms(2) c by simp
  then show ?thesis
  proof (cases rule: pc_stepE)
    case (send i r t s')
    then show ?thesis using sum_list_length_update [OF send(2,3)] c by (simp add: pc_todo_def)
  next
    case (recv r s')
    then show ?thesis using pc_inv_room(2) [of ps0 ps s got r s'] assms(1) c by (auto simp: pc_todo_def)
  qed
qed

text \<open>From every reachable state everything can still be delivered, in an allowed order.\<close>

lemma pc_delivers:
  assumes "pc_inv ps0 c"
  shows "\<exists>ps s got. (pc_step enq deq)\<^sup>*\<^sup>* c (ps, s, got) \<and> interleaves got ps0"
  using assms
proof (induction "pc_todo (sum_list (map length ps0)) c" arbitrary: c rule: less_induct)
  case less
  obtain ps s got where c: "c = (ps, s, got)" by (cases c)
  show ?case
  proof (cases "interleaves got ps0")
    case False
    then obtain c' where c': "pc_step enq deq c c'" using pc_progress less.prems c by blast
    have "pc_inv ps0 c'" using pc_inv_step c' less.prems c by blast
    then show ?thesis
      using less.hyps [OF pc_step_todo [OF less.prems c']] c' by (meson converse_rtranclp_into_rtranclp)
  qed (use c in blast)
qed

text \<open>A run that cannot go on has delivered everything.\<close>

lemma pc_final:
  assumes "pc_inv ps0 (ps, s, got)" and "\<nexists>c'. pc_step enq deq (ps, s, got) c'"
  shows "interleaves got ps0"
  using pc_progress [OF assms(1)] assms(2) by blast

end

end
