(* ===== verification/Request_Queue.thy ===== *)
theory Request_Queue
  imports Posix_Text Bounded_Fifo "HOL-Library.Sublist"
begin

text \<open>
  The request queue between \<open>client-server/client.c\<close> and \<open>client-server/server.c\<close>: a ring of
  NUL-terminated strings in shared memory with three named semaphores. The client's
  \<open>open_queue\<close>, \<open>enqueue\<close>, \<open>read_inputfile\<close> and \<open>main\<close>, the server's \<open>create_queue\<close>, \<open>dequeue\<close>
  and \<open>unlink_queue\<close>. The shared memory is kept byte by byte.
\<close>

section \<open>Model\<close>

text \<open>The named objects both processes see: the shared memory and the semaphores.\<close>

record ipc =
  shm :: "string option"
  sem_empty :: "nat option"
  sem_full :: "nat option"
  sem_mutex :: "nat option"

text \<open>\<open>struct Queue\<close> of the client and of the server; each process has its own copy.\<close>

record client_queue =
  q_back :: nat
  csize :: nat

record server_queue =
  q_front :: nat
  ssize :: nat

definition MAXDIRPATH :: nat where "MAXDIRPATH = 1024"

definition MAXKEYWORD :: nat where "MAXKEYWORD = 256"

definition linesize :: nat where
  "linesize = MAXDIRPATH + 1 + MAXKEYWORD + 1"

text \<open>\<open>sem_wait\<close> and \<open>sem_post\<close>; a semaphore that could not be opened is a bad pointer.\<close>

definition sem_wait :: "nat option \<Rightarrow> nat option res" where
  "sem_wait s =
     (case s of None \<Rightarrow> Inl BadAddr | Some 0 \<Rightarrow> Inl Block | Some (Suc k) \<Rightarrow> Inr (Some k))"

definition sem_post :: "nat option \<Rightarrow> nat option res" where
  "sem_post s = (case s of None \<Rightarrow> Inl BadAddr | Some k \<Rightarrow> Inr (Some (Suc k)))"

text \<open>Bytes, strings and 16-bit little-endian values in the mapped region.\<close>

definition poke :: "nat \<Rightarrow> string \<Rightarrow> string \<Rightarrow> string res" where
  "poke i s b =
     (if i + length s \<le> length b then Inr (take i b @ s @ drop (i + length s) b) else Inl BadAddr)"

definition poke_str :: "nat \<Rightarrow> string \<Rightarrow> string \<Rightarrow> string res" where
  "poke_str i s b = poke i (s @ [CHR 0x00]) b"

definition poke_u16 :: "nat \<Rightarrow> nat \<Rightarrow> string \<Rightarrow> string res" where
  "poke_u16 i v b = poke i [char_of (v mod 256), char_of (v div 256 mod 256)] b"

definition peek_str :: "nat \<Rightarrow> string \<Rightarrow> string res" where
  "peek_str i b =
     (if CHR 0x00 \<in> set (drop i b) then Inr (cstr (drop i b)) else Inl BadAddr)"

definition peek_u16 :: "nat \<Rightarrow> string \<Rightarrow> nat res" where
  "peek_u16 i b =
     (if i + 2 \<le> length b then Inr (of_char (b ! i) + 256 * of_char (b ! (i + 1))) else Inl BadAddr)"

definition mapped :: "ipc \<Rightarrow> string res" where
  "mapped x = (case shm x of None \<Rightarrow> Inl BadAddr | Some b \<Rightarrow> Inr b)"

text \<open>
  The server's side of the set-up. \<open>shm_open\<close> and \<open>sem_open\<close> with \<open>O_CREAT\<close> take an existing
  object as it is; \<open>ftruncate\<close> cuts the memory to its size or fills it up with zero bytes. An
  empty or negative region cannot be mapped.
\<close>

definition resize :: "nat \<Rightarrow> string \<Rightarrow> string" where
  "resize n b = take n b @ replicate (n - length b) CHR 0x00"

definition create_shared_memory :: "int \<Rightarrow> ipc \<Rightarrow> ipc res" where
  "create_shared_memory sz x =
     (if sz + 3 \<le> 0 then Inl (Exit 1)
      else Inr (x\<lparr>shm := Some (resize (nat (sz + 3)) (case shm x of None \<Rightarrow> [] | Some b \<Rightarrow> b))\<rparr>))"

definition sem_open_creat :: "nat option \<Rightarrow> nat \<Rightarrow> nat option" where
  "sem_open_creat s v = (case s of None \<Rightarrow> Some v | Some k \<Rightarrow> Some k)"

definition create_queue :: "int \<Rightarrow> ipc \<Rightarrow> (server_queue \<times> ipc) res" where
  "create_queue sz x =
     (let total_size = sz * int linesize
      in if total_size \<ge> 2 ^ 31 - 3 \<or> total_size < - (2 ^ 31) then Inl Overflow
         else
           bindE (create_shared_memory total_size x) (\<lambda>x.
           bindE (mapped x) (\<lambda>b.
           bindE (poke_u16 (nat total_size + 1) 0 b) (\<lambda>b.
           Inr (\<lparr>q_front = 0, ssize = nat total_size\<rparr>,
             x\<lparr>shm := Some b, sem_empty := sem_open_creat (sem_empty x) (nat sz),
               sem_full := sem_open_creat (sem_full x) 0,
               sem_mutex := sem_open_creat (sem_mutex x) 1\<rparr>)))))"

definition unlink_queue :: "server_queue \<Rightarrow> ipc \<Rightarrow> ipc" where
  "unlink_queue q x = x\<lparr>shm := None, sem_empty := None, sem_full := None, sem_mutex := None\<rparr>"

text \<open>
  \<open>dequeue\<close> copies into \<open>request_buffer\<close>, which has \<open>MAXDIRPATH + MAXKEYWORD + 2\<close> bytes.
  \<open>strncpy\<close> pads with zero bytes, so a short first part ends the string.
\<close>

definition take_request :: "server_queue \<Rightarrow> string \<Rightarrow> (string \<times> string) res" where
  "take_request q b =
     bindE (peek_u16 (ssize q + 1) b) (\<lambda>overlap.
     if overlap \<noteq> 0 \<or> int (q_front q) \<noteq> int (ssize q) - int overlap then
       bindE (peek_str (q_front q) b) (\<lambda>s. Inr (s, b))
     else
       bindE (peek_str 0 b) (\<lambda>rest.
       let first = take overlap (cstr (drop (q_front q) b))
       in bindE (poke_u16 (ssize q + 1) 0 b) (\<lambda>b.
          Inr (if length first < overlap then first else first @ rest, b))))"

definition dequeue :: "server_queue \<Rightarrow> ipc \<Rightarrow> (string \<times> server_queue \<times> ipc) res" where
  "dequeue q x =
     bindE (sem_wait (sem_full x)) (\<lambda>full.
     bindE (sem_wait (sem_mutex x)) (\<lambda>mutex.
     bindE (mapped x) (\<lambda>b.
     bindE (take_request q b) (\<lambda>(s, b).
     if length s + 1 > MAXDIRPATH + MAXKEYWORD + 2 then Inl Overflow
     else
       bindE (sem_post mutex) (\<lambda>mutex.
       bindE (sem_post (sem_empty x)) (\<lambda>empty.
       let reqlen = (length s + 1) mod 2 ^ 16
       in if ssize q = 0 then Inl DivZero
          else Inr (s, q\<lparr>q_front := (q_front q + reqlen) mod ssize q\<rparr>,
                 x\<lparr>shm := Some b, sem_empty := empty, sem_full := full, sem_mutex := mutex\<rparr>)))))))"

text \<open>
  The client's side. \<open>shm_open\<close> without \<open>O_CREAT\<close> fails on a missing object; \<open>sem_open\<close> then
  returns \<open>SEM_FAILED\<close>, which is not checked. The mapping is only as large as the object.
\<close>

definition open_shared_memory :: "int \<Rightarrow> ipc \<Rightarrow> unit res" where
  "open_shared_memory sz x =
     (if shm x = None then Inl (Exit 1) else if sz + 3 \<le> 0 then Inl (Exit 1) else Inr ())"

definition open_queue :: "int \<Rightarrow> ipc \<Rightarrow> client_queue res" where
  "open_queue sz x =
     (let total_size = sz * int linesize
      in if total_size \<ge> 2 ^ 31 - 3 \<or> total_size < - (2 ^ 31) then Inl Overflow
         else
           bindE (open_shared_memory total_size x) (\<lambda>_.
           Inr \<lparr>q_back = 0, csize = nat total_size\<rparr>))"

text \<open>The critical sections of \<open>enqueue\<close> and, above, of \<open>dequeue\<close>.\<close>

definition put_request :: "client_queue \<Rightarrow> string \<Rightarrow> nat \<Rightarrow> string \<Rightarrow> string res" where
  "put_request q r reqlen b =
     (if q_back q + reqlen \<le> csize q then poke_str (q_back q) r b
      else
        let offset = (csize q - q_back q) mod 2 ^ 16
        in bindE (poke_str (q_back q) (take offset r) b) (\<lambda>b.
           bindE (poke_str 0 (drop offset r) b) (\<lambda>b.
           poke_u16 (csize q + 1) offset b)))"

definition enqueue :: "string option \<Rightarrow> client_queue \<Rightarrow> ipc \<Rightarrow> (client_queue \<times> ipc) res" where
  "enqueue request q x =
     (case request of
        None \<Rightarrow> Inl NullDeref
      | Some r \<Rightarrow>
          let reqlen = (length r + 1) mod 2 ^ 16
          in
            bindE (sem_wait (sem_empty x)) (\<lambda>empty.
            bindE (sem_wait (sem_mutex x)) (\<lambda>mutex.
            bindE (mapped x) (\<lambda>b.
            bindE (put_request q r reqlen b) (\<lambda>b.
            bindE (sem_post mutex) (\<lambda>mutex.
            bindE (sem_post (sem_full x)) (\<lambda>full.
            if csize q = 0 then Inl DivZero
            else Inr (q\<lparr>q_back := (q_back q + reqlen) mod csize q\<rparr>,
                   x\<lparr>shm := Some b, sem_empty := empty, sem_full := full, sem_mutex := mutex\<rparr>))))))))"

text \<open>\<open>close_queue\<close> gives the process's handles q_back; the named objects stay.\<close>

definition close_queue :: "client_queue \<Rightarrow> ipc \<Rightarrow> ipc" where
  "close_queue q x = x"

text \<open>
  \<open>read_inputfile\<close>: one request per \<open>fgets\<close> chunk, the first token between newlines. A
  request that finds the queue full waits; as the sequential run has nobody to wait for, it
  is \<open>Block\<close> here, and the interleaved run is below.
\<close>

definition next_request :: "string \<Rightarrow> string option" where
  "next_request buff = map_option fst (strtok_r [CHR 0x0A] (cstr buff))"

function read_loop :: "string \<Rightarrow> client_queue \<Rightarrow> ipc \<Rightarrow> (client_queue \<times> ipc) res" where
  "read_loop s q x =
     (case fgets (MAXDIRPATH + MAXKEYWORD + 2) s of
        None \<Rightarrow> Inr (q, x)
      | Some (request, rest) \<Rightarrow>
          bindE (enqueue (next_request request) q x) (\<lambda>(q, x). read_loop rest q x))"
  by pat_completeness auto
termination
  by (relation "measure (\<lambda>(s, q, x). length s)")
    (auto simp: MAXDIRPATH_def MAXKEYWORD_def dest: fgets_shorter)

declare read_loop.simps [simp del]

definition read_inputfile :: "fsys \<Rightarrow> string \<Rightarrow> client_queue \<Rightarrow> ipc \<Rightarrow> (client_queue \<times> ipc) res" where
  "read_inputfile fs inputfile q x =
     (case fopen_r fs inputfile of None \<Rightarrow> Inl NullDeref | Some s \<Rightarrow> read_loop s q x)"

text \<open>The client's \<open>main\<close>: its exit status and the shared objects it leaves.\<close>

definition client_main :: "fsys \<Rightarrow> string list \<Rightarrow> ipc \<Rightarrow> (int \<times> ipc) res" where
  "client_main fs argv x =
     (if length argv \<noteq> 3 then Inr (1, x)
      else
        bindE (open_queue (atoi (argv ! 1)) x) (\<lambda>q.
        bindE (read_inputfile fs (argv ! 2) q x) (\<lambda>(q, x).
        Inr (0, close_queue q x))))"

section \<open>The ring\<close>

lemma poke_ok:
  assumes "i + length s \<le> length b"
  shows "\<exists>b'. poke i s b = Inr b' \<and> length b' = length b \<and>
    (\<forall>j < length b. b' ! j = (if i \<le> j \<and> j < i + length s then s ! (j - i) else b ! j))"
proof -
  have "(take i b @ s @ drop (i + length s) b) ! j = (if i \<le> j \<and> j < i + length s then s ! (j - i) else b ! j)"
    if "j < length b" for j
    using assms that by (auto simp: nth_append min_def)
  then show ?thesis using assms by (simp add: poke_def)
qed

abbreviation NUL :: char where "NUL \<equiv> CHR 0x00"

text \<open>The bytes of a list of requests as they lie in the ring.\<close>

definition wire :: "string list \<Rightarrow> string" where
  "wire rs = concat (map (\<lambda>r. r @ [NUL]) rs)"

lemma wire_simps [simp]: "wire [] = []" "wire (r # rs) = r @ NUL # wire rs" "wire (rs @ rs') = wire rs @ wire rs'"
  by (simp_all add: wire_def)

definition ring_at :: "string \<Rightarrow> nat \<Rightarrow> nat \<Rightarrow> string \<Rightarrow> bool" where
  "ring_at b n p w \<longleftrightarrow> (\<forall>k < length w. b ! ((p + k) mod n) = w ! k)"

lemma ring_at_append:
  "ring_at b n p (v @ w) \<longleftrightarrow> ring_at b n p v \<and> ring_at b n (p + length v) w"
proof
  assume h: "ring_at b n p (v @ w)"
  have "b ! ((p + length v + k) mod n) = w ! k" if "k < length w" for k
    using h that unfolding ring_at_def by (metis add.assoc length_append nat_add_left_cancel_less nth_append_length_plus)
  moreover have "b ! ((p + k) mod n) = v ! k" if "k < length v" for k
    using h that unfolding ring_at_def by (metis length_append nth_append trans_less_add1)
  ultimately show "ring_at b n p v \<and> ring_at b n (p + length v) w" by (simp add: ring_at_def)
next
  assume h: "ring_at b n p v \<and> ring_at b n (p + length v) w"
  have "b ! ((p + k) mod n) = (v @ w) ! k" if "k < length (v @ w)" for k
  proof (cases "k < length v")
    case False
    then have "p + length v + (k - length v) = p + k" by simp
    then show ?thesis using h that False unfolding ring_at_def
      by (metis add_less_cancel_left le_add_diff_inverse length_append not_less nth_append)
  qed (use h in \<open>simp add: ring_at_def nth_append\<close>)
  then show "ring_at b n p (v @ w)" by (simp add: ring_at_def)
qed

lemma ring_at_mod: "ring_at b n (p mod n) w = ring_at b n p w"
  by (simp add: ring_at_def mod_add_left_eq)

lemma ring_index_inj:
  assumes "(p + i) mod n = (p + j) mod n" and "i < n" and "j < (n::nat)"
  shows "i = j"
proof -
  have le: "i = j" if "i \<le> j" "(p + j) mod n = (p + i) mod n" "j < n" for i j
  proof -
    have "n dvd (p + j) - (p + i)" using that mod_eq_dvd_iff_nat [of "p + i" "p + j" n] by simp
    then show ?thesis using that by (auto dest: dvd_imp_le)
  qed
  show ?thesis using le [of i j] le [of j i] assms by (cases "i \<le> j") auto
qed

lemma mod_once: "p < n \<Longrightarrow> k \<le> n \<Longrightarrow> (p + k) mod n = (if p + k < n then p + k else p + k - n)" for n :: nat
  by (simp add: mod_if)

text \<open>
  The write, straddling or not, puts the request and its terminator into the ring and touches
  no other byte of it.
\<close>

lemma put_request_ok:
  assumes q: "csize q = n" "q_back q = p" "p < n" and b: "length b = n + 3" "b ! n = NUL"
    and L: "L = length r + 1" "L \<le> n" "L < 2 ^ 16"
  shows "\<exists>b'. put_request q r L b = Inr b' \<and> length b' = n + 3 \<and> b' ! n = NUL \<and> ring_at b' n p (r @ [NUL]) \<and>
    (\<forall>j < n. (\<forall>k < L. j \<noteq> (p + k) mod n) \<longrightarrow> b' ! j = b ! j)"
proof (cases "p + L \<le> n")
  case True
  obtain b' where b': "poke p (r @ [NUL]) b = Inr b'" "length b' = length b"
      "\<forall>j < length b. b' ! j = (if p \<le> j \<and> j < p + length (r @ [NUL]) then (r @ [NUL]) ! (j - p) else b ! j)"
    using poke_ok [of p "r @ [NUL]" b] True b L(1) by auto
  have "ring_at b' n p (r @ [NUL])" using b' True b L(1) by (auto simp: ring_at_def)
  moreover have "b' ! j = b ! j" if "j < n" "\<forall>k < L. j \<noteq> (p + k) mod n" for j
  proof -
    have "\<not> (p \<le> j \<and> j < p + L)"
      using that True by (metis add_diff_inverse_nat linorder_not_less mod_less nat_add_left_cancel_less)
    then show ?thesis using b' that(1) b L(1) by auto
  qed
  ultimately show ?thesis using b' b True q L(1) by (auto simp: put_request_def poke_str_def)
next
  case False
  let ?o = "n - p"
  have o: "?o mod 2 ^ 16 = ?o" "?o \<le> length r" "?o < L" using False L q(3) by auto
  obtain b1 where b1: "poke p (take ?o r @ [NUL]) b = Inr b1" "length b1 = length b"
      "\<forall>j < length b. b1 ! j = (if p \<le> j \<and> j \<le> n then (take ?o r @ [NUL]) ! (j - p) else b ! j)"
    using poke_ok [of p "take ?o r @ [NUL]" b] b o(2) q(3) by (auto simp: less_Suc_eq_le)
  obtain b2 where b2: "poke 0 (drop ?o r @ [NUL]) b1 = Inr b2" "length b2 = length b"
      "\<forall>j < length b. b2 ! j = (if j < L - ?o then (drop ?o r @ [NUL]) ! j else b1 ! j)"
  proof -
    have len: "length (drop ?o r @ [NUL]) = L - ?o" using L(1) o(2) by simp
    then have "0 + length (drop ?o r @ [NUL]) \<le> length b1" using b1(2) b L(2) by linarith
    from poke_ok [OF this] show thesis using that b1(2) len by (auto simp del: length_append)
  qed
  obtain b3 where b3: "poke_u16 (n + 1) ?o b2 = Inr b3" "length b3 = length b" "\<forall>j \<le> n. b3 ! j = b2 ! j"
    using poke_ok [of "n + 1" "[char_of (?o mod 256), char_of (?o div 256 mod 256)]" b2] b2(2) b
    by (auto simp: poke_u16_def)
  have low: "L - ?o \<le> p" using L(2) q(3) by simp
  have byte: "b3 ! ((p + k) mod n) = (r @ [NUL]) ! k" if k: "k < L" for k
  proof (cases "k < ?o")
    case True
    then have "(p + k) mod n = p + k" "p + k \<le> n" by simp_all
    then show ?thesis using True b1(3) b2(3) b3(3) b low o(2) by (simp add: nth_append)
  next
    case False
    then have "(p + k) mod n = k - ?o" using k L(2) q(3) mod_once [of p n k] by auto
    moreover have "(drop ?o r @ [NUL]) ! (k - ?o) = (r @ [NUL]) ! k"
      using False k L(1) o(2) by (auto simp: nth_append)
    ultimately show ?thesis using False k b2(3) b3(3) b low o(3) q(3) by auto
  qed
  have "b3 ! j = b ! j" if j: "j < n" "\<forall>k < L. j \<noteq> (p + k) mod n" for j
  proof -
    have "\<not> p \<le> j"
      using j o(3) by (metis add_diff_inverse_nat diff_less_mono less_trans linorder_not_less mod_less)
    moreover have "\<not> j < L - ?o"
    proof
      assume a: "j < L - ?o"
      then have "(p + (j + ?o)) mod n = j" using j(1) q(3) low by (simp add: mod_once)
      then show False using j(2) a by (metis less_diff_conv)
    qed
    ultimately show ?thesis using b1(3) b2(3) b3(3) b j(1) by simp
  qed
  moreover have "b3 ! n = NUL" using b1(3) b2(3) b3(3) b low q(3) o(2) by (simp add: nth_append)
  moreover have "put_request q r L b = Inr b3"
    using False q b1(1) b2(1) b3(1) o(1) by (simp add: put_request_def poke_str_def)
  ultimately show ?thesis using b3(2) b byte L(1) by (auto simp: ring_at_def)
qed

text \<open>
  The read returns what lies between the front and the end of the ring: all of a request that
  does not straddle the end, the first part of one that does.
\<close>

lemma cstr_drop:
  assumes "\<forall>k < length t. b ! (p + k) = t ! k" and "b ! (p + length t) = NUL" and "NUL \<notin> set t"
    and "p + length t < length b"
  shows "peek_str p b = Inr t"
proof -
  have "take (length t) (drop p b) = t" using assms(1,4) by (intro nth_equalityI) auto
  moreover have "drop (length t) (drop p b) = NUL # drop (Suc (p + length t)) b"
    using assms(2,4) Cons_nth_drop_Suc [of "p + length t" b] by (simp add: add.commute)
  ultimately have "drop p b = t @ NUL # drop (Suc (p + length t)) b" by (metis append_take_drop_id)
  then show ?thesis using assms(3) by (simp add: peek_str_def cstr_def takeWhile_append)
qed

lemma take_request_ok:
  assumes q: "ssize q = n" "q_front q = p" "p < n" and b: "length b = n + 3" "b ! n = NUL"
    and r: "ring_at b n p (r @ [NUL])" "NUL \<notin> set r"
  shows "take_request q b = Inr (take (n - p) r, b)"
proof -
  let ?t = "take (n - p) r"
  have lin: "b ! (p + k) = (r @ [NUL]) ! k" if "k \<le> length r" "p + k < n" for k
    using r(1) that mod_less [of "p + k" n] unfolding ring_at_def by (metis le_imp_less_Suc length_append_singleton)
  have "b ! (p + k) = ?t ! k" if "k < length ?t" for k
    using that lin [of k] q(3) by (auto simp: nth_append)
  moreover have "b ! (p + length ?t) = NUL"
  proof (cases "p + length r < n")
    case True
    then show ?thesis using lin [of "length r"] by (simp add: min_def)
  qed (use q(3) b(2) in simp)
  ultimately have "peek_str p b = Inr ?t"
    using r(2) b q(3) by (intro cstr_drop) (auto dest: in_set_takeD)
  moreover have "int p \<noteq> int n - int v \<or> v \<noteq> 0" for v :: nat using q(3) by auto
  ultimately show ?thesis using q b by (auto simp: take_request_def peek_u16_def)
qed

section \<open>The invariant of the shared queue\<close>

type_synonym qstate = "client_queue \<times> server_queue \<times> ipc"

definition good_request :: "string \<Rightarrow> bool" where
  "good_request r \<longleftrightarrow> NUL \<notin> set r \<and> length r + 1 \<le> linesize"

definition mem_inv :: "nat \<Rightarrow> nat \<Rightarrow> string \<Rightarrow> string list \<Rightarrow> bool" where
  "mem_inv n p b rs \<longleftrightarrow> length b = n + 3 \<and> b ! n = NUL \<and> ring_at b n p (wire rs)"

definition queue_inv :: "nat \<Rightarrow> qstate \<Rightarrow> string list \<Rightarrow> bool" where
  "queue_inv cap s rs =
     (case s of (cq, sq, x) \<Rightarrow>
        0 < cap \<and> csize cq = cap * linesize \<and> ssize sq = cap * linesize \<and> q_front sq < cap * linesize \<and>
        q_back cq = (q_front sq + length (wire rs)) mod (cap * linesize) \<and>
        (\<exists>b. shm x = Some b \<and> mem_inv (cap * linesize) (q_front sq) b rs) \<and>
        length rs \<le> cap \<and> sem_empty x = Some (cap - length rs) \<and> sem_full x = Some (length rs) \<and>
        sem_mutex x = Some 1 \<and> (\<forall>r \<in> set rs. good_request r))"

lemma linesize_eq: "linesize = 1282"
  by (simp add: linesize_def MAXDIRPATH_def MAXKEYWORD_def)

lemma wire_length: "\<forall>r \<in> set rs. good_request r \<Longrightarrow> length (wire rs) \<le> length rs * linesize"
  by (induction rs) (auto simp: good_request_def)

text \<open>Each request takes at most one slot of bytes, so a free slot means enough free bytes.\<close>

lemma put_request_mem:
  assumes q: "csize q = n" "q_back q = (p + length (wire rs)) mod n" and m: "mem_inv n p b rs"
    and room: "length (wire rs) + (length r + 1) \<le> n" "length r + 1 < 2 ^ 16"
  shows "\<exists>b'. put_request q r (length r + 1) b = Inr b' \<and> mem_inv n p b' (rs @ [r])"
proof -
  let ?w = "wire rs" and ?L = "length r + 1"
  let ?p = "(p + length ?w) mod n"
  have n: "0 < n" using room by simp
  obtain b' where b': "put_request q r ?L b = Inr b'" "length b' = n + 3" "b' ! n = NUL" "ring_at b' n ?p (r @ [NUL])"
      and same: "\<forall>j < n. (\<forall>k < ?L. j \<noteq> (?p + k) mod n) \<longrightarrow> b' ! j = b ! j"
    using put_request_ok [of q n ?p b ?L r] q m room n by (auto simp: mem_inv_def)
  have "b' ! ((p + k) mod n) = b ! ((p + k) mod n)" if k: "k < length ?w" for k
  proof -
    have "(p + k) mod n \<noteq> (?p + j) mod n" if "j < ?L" for j
      using ring_index_inj [of p k n "length ?w + j"] k that room
      by (auto simp: mod_add_left_eq add.assoc)
    then show ?thesis using same n by simp
  qed
  then have "ring_at b' n p ?w" using m by (simp add: ring_at_def mem_inv_def)
  moreover have "ring_at b' n (p + length ?w) (r @ [NUL])" using b'(4) by (simp only: ring_at_mod)
  ultimately have "ring_at b' n p (wire (rs @ [r]))"
    using ring_at_append [of b' n p ?w "r @ [NUL]"] by simp
  then show ?thesis using b' by (simp add: mem_inv_def)
qed

definition q_enq :: "string \<Rightarrow> qstate \<Rightarrow> qstate res" where
  "q_enq r s = (case s of (cq, sq, x) \<Rightarrow> bindE (enqueue (Some r) cq x) (\<lambda>(cq, x). Inr (cq, sq, x)))"

definition q_deq :: "qstate \<Rightarrow> (string \<times> qstate) res" where
  "q_deq s = (case s of (cq, sq, x) \<Rightarrow> bindE (dequeue sq x) (\<lambda>(r, sq, x). Inr (r, cq, sq, x)))"

lemma q_enq_ok:
  assumes inv: "queue_inv cap s rs" and r: "good_request r" and room: "length rs < cap"
  shows "\<exists>s'. q_enq r s = Inr s' \<and> queue_inv cap s' (rs @ [r]) \<and> q_front (fst (snd s')) = q_front (fst (snd s))"
proof -
  obtain cq sq x where s: "s = (cq, sq, x)" by (cases s)
  let ?n = "cap * linesize"
  obtain b where b: "shm x = Some b" "mem_inv ?n (q_front sq) b rs" using inv s by (auto simp: queue_inv_def)
  have "length (wire rs) \<le> length rs * linesize" using inv s by (intro wire_length) (simp add: queue_inv_def)
  also have "\<dots> + linesize \<le> ?n" using room by (metis Suc_leI mult.commute mult_Suc_right mult_le_mono2 add.commute)
  finally have bytes: "length (wire rs) + (length r + 1) \<le> ?n" using r by (simp add: good_request_def)
  have short: "length r + 1 < 2 ^ 16" using r by (simp add: good_request_def linesize_eq)
  obtain b' where b': "put_request cq r (length r + 1) b = Inr b'" "mem_inv ?n (q_front sq) b' (rs @ [r])"
    using put_request_mem [OF _ _ b(2) bytes short, of cq] inv s by (auto simp: queue_inv_def)
  obtain k where k: "cap - length rs = Suc k" "k = cap - Suc (length rs)" using room by (cases "cap - length rs") auto
  have "(length r + 1) mod 2 ^ 16 = length r + 1" using short by simp
  moreover have "Suc ((p + w) mod n + l) mod n = Suc (p + (w + l)) mod n" for p w l n :: nat
    by (metis add.assoc mod_Suc_eq mod_add_left_eq)
  ultimately show ?thesis
    using inv s b b' r k
    by (auto simp: q_enq_def enqueue_def queue_inv_def sem_wait_def sem_post_def mapped_def Let_def linesize_eq)
qed

lemma q_enq_full: "queue_inv cap s rs \<Longrightarrow> length rs = cap \<Longrightarrow> q_enq r s = Inl Block"
  by (auto simp: q_enq_def enqueue_def queue_inv_def sem_wait_def Let_def split: prod.splits)

lemma q_deq_empty: "queue_inv cap s [] \<Longrightarrow> q_deq s = Inl Block"
  by (auto simp: q_deq_def dequeue_def queue_inv_def sem_wait_def split: prod.splits)

lemma dequeue_run:
  assumes inv: "queue_inv cap (cq, sq, x) (r # rs)"
  defines "t \<equiv> take (cap * linesize - q_front sq) r"
  shows "\<exists>x'. dequeue sq x = Inr (t, sq\<lparr>q_front := (q_front sq + (length t + 1)) mod (cap * linesize)\<rparr>, x') \<and>
    shm x' = shm x \<and> sem_empty x' = Some (cap - length rs) \<and> sem_full x' = Some (length rs) \<and> sem_mutex x' = Some 1"
proof -
  let ?n = "cap * linesize"
  obtain b where b: "shm x = Some b" "mem_inv ?n (q_front sq) b (r # rs)" using inv by (auto simp: queue_inv_def)
  have good: "good_request r" using inv by (simp add: queue_inv_def)
  have len: "length t + 1 \<le> linesize" using good by (auto simp: t_def good_request_def min_def)
  have "ring_at b ?n (q_front sq) (r @ [NUL])"
    using b(2) ring_at_append [of b ?n "q_front sq" "r @ [NUL]" "wire rs"] by (simp add: mem_inv_def)
  then have "take_request sq b = Inr (t, b)" unfolding t_def
    using inv b(2) good by (intro take_request_ok) (auto simp: queue_inv_def mem_inv_def good_request_def)
  moreover have "(length t + 1) mod 2 ^ 16 = length t + 1" "\<not> MAXDIRPATH + MAXKEYWORD + 2 < length t + 1"
    using len by (simp_all add: linesize_def MAXDIRPATH_def MAXKEYWORD_def)
  moreover have "Suc (cap - Suc (length rs)) = cap - length rs" using inv by (auto simp: queue_inv_def)
  ultimately show ?thesis
    using inv b(1) by (auto simp: dequeue_def queue_inv_def sem_wait_def sem_post_def mapped_def Let_def linesize_eq)
qed

lemma q_deq_ok:
  assumes inv: "queue_inv cap s (r # rs)" and fit: "q_front (fst (snd s)) + length r \<le> cap * linesize"
  shows "\<exists>s'. q_deq s = Inr (r, s') \<and> queue_inv cap s' rs \<and>
    q_front (fst (snd s')) = (q_front (fst (snd s)) + (length r + 1)) mod (cap * linesize)"
proof -
  obtain cq sq x where s: "s = (cq, sq, x)" by (cases s)
  let ?n = "cap * linesize"
  obtain b where b: "shm x = Some b" "mem_inv ?n (q_front sq) b (r # rs)" using inv s by (auto simp: queue_inv_def)
  have "ring_at b ?n (q_front sq + (length r + 1)) (wire rs)"
    using b(2) ring_at_append [of b ?n "q_front sq" "r @ [NUL]" "wire rs"] by (simp add: mem_inv_def)
  then have "mem_inv ?n ((q_front sq + (length r + 1)) mod ?n) b rs"
    using b(2) by (simp add: mem_inv_def ring_at_mod)
  moreover have "((q_front sq + (length r + 1)) mod ?n + length (wire rs)) mod ?n =
      (q_front sq + length (wire (r # rs))) mod ?n"
    by (simp add: mod_add_left_eq add.assoc)
  moreover have "(q_front sq + (length r + 1)) mod ?n < ?n" using inv s by (simp add: queue_inv_def linesize_eq)
  ultimately show ?thesis
    using dequeue_run [of cap cq sq x r rs] inv fit s b(1) by (auto simp: q_deq_def queue_inv_def)
qed

text \<open>
  On its first lap, while no request reaches over the end of the ring, the queue is a bounded
  FIFO: what is stored and what is still to come fit behind the front.
\<close>

definition lap_rep :: "nat \<Rightarrow> qstate \<Rightarrow> string list \<Rightarrow> string multiset \<Rightarrow> bool" where
  "lap_rep cap s rs M \<longleftrightarrow> queue_inv cap s rs \<and> (\<forall>r \<in># M. good_request r) \<and>
     q_front (fst (snd s)) + length (wire rs) + (\<Sum>r \<in># M. length r + 1) \<le> cap * linesize"

interpretation rq: bounded_fifo "Suc c" "lap_rep (Suc c)" q_enq q_deq for c
proof unfold_locales
  show "0 < Suc c" by simp
next
  fix s rs r M
  assume rep: "lap_rep (Suc c) s rs (add_mset r M)" and room: "length rs < Suc c"
  then obtain s' where "q_enq r s = Inr s'" "queue_inv (Suc c) s' (rs @ [r])"
      "q_front (fst (snd s')) = q_front (fst (snd s))"
    using q_enq_ok [of "Suc c" s rs r] by (auto simp: lap_rep_def)
  then show "\<exists>s'. q_enq r s = Inr s' \<and> lap_rep (Suc c) s' (rs @ [r]) M"
    using rep by (auto simp: lap_rep_def)
next
  fix s rs M r
  assume "lap_rep (Suc c) s rs M" "length rs = Suc c"
  then show "q_enq r s = Inl Block" using q_enq_full [of "Suc c" s rs r] by (simp add: lap_rep_def)
next
  fix s r rs M
  assume rep: "lap_rep (Suc c) s (r # rs) M"
  then obtain s' where s': "q_deq s = Inr (r, s')" "queue_inv (Suc c) s' rs"
      "q_front (fst (snd s')) = (q_front (fst (snd s)) + (length r + 1)) mod (Suc c * linesize)"
    using q_deq_ok [of "Suc c" s r rs] by (auto simp: lap_rep_def)
  have "q_front (fst (snd s')) \<le> q_front (fst (snd s)) + (length r + 1)"
    unfolding s'(3) by (rule mod_less_eq_dividend)
  then have "lap_rep (Suc c) s' rs M" using rep s'(2) by (simp add: lap_rep_def)
  then show "\<exists>s'. q_deq s = Inr (r, s') \<and> lap_rep (Suc c) s' rs M" using s'(1) by blast
next
  fix s M
  assume "lap_rep (Suc c) s [] M"
  then show "q_deq s = Inl Block" using q_deq_empty [of "Suc c" s] by (simp add: lap_rep_def)
next
  fix s rs M
  assume "lap_rep (Suc c) s rs M"
  then show "length rs \<le> Suc c" by (auto simp: lap_rep_def queue_inv_def split: prod.splits)
qed

section \<open>Set-up and input\<close>

definition fresh_ipc :: ipc where
  "fresh_ipc = \<lparr>shm = None, sem_empty = None, sem_full = None, sem_mutex = None\<rparr>"

text \<open>The shared objects while no request is in the queue, with the memory \<open>b\<close>.\<close>

definition idle_ipc :: "nat \<Rightarrow> string \<Rightarrow> ipc" where
  "idle_ipc n b = \<lparr>shm = Some b, sem_empty = Some n, sem_full = Some 0, sem_mutex = Some 1\<rparr>"

lemma create_queue_memory:
  assumes "0 < n" and "create_queue (int n) fresh_ipc = Inr (sq, x)"
  shows "\<exists>b. length b = n * linesize + 3 \<and> (\<forall>j < n * linesize + 3. b ! j = NUL) \<and>
    sq = \<lparr>q_front = 0, ssize = n * linesize\<rparr> \<and> x = idle_ipc n b"
proof -
  let ?z = "replicate (n * linesize + 3) NUL"
  have t: "nat (int n * int linesize) = n * linesize" "nat (int n * int linesize + 3) = n * linesize + 3"
    by (simp_all add: nat_mult_distrib nat_add_distrib)
  obtain b where b: "poke_u16 (n * linesize + 1) 0 ?z = Inr b" "length b = n * linesize + 3"
      "\<forall>j < n * linesize + 3. b ! j = NUL"
    using poke_ok [of "n * linesize + 1" "[NUL, NUL]" ?z] by (force simp: poke_u16_def nth_Cons' char_of_def)
  then show ?thesis using assms(2) t
    by (auto simp: create_queue_def create_shared_memory_def resize_def mapped_def fresh_ipc_def sem_open_creat_def
        Let_def idle_ipc_def split: if_splits)
qed

lemma create_open_inv:
  assumes n: "0 < n" and sq: "create_queue (int n) fresh_ipc = Inr (sq, x)" and cq: "open_queue (int n) x = Inr cq"
  shows "queue_inv n (cq, sq, x) [] \<and> q_front sq = 0 \<and> q_back cq = 0"
proof -
  obtain b where b: "length b = n * linesize + 3" "\<forall>j < n * linesize + 3. b ! j = NUL"
      "sq = \<lparr>q_front = 0, ssize = n * linesize\<rparr>" "x = idle_ipc n b"
    using create_queue_memory [OF n sq] by blast
  have "nat (int n * int linesize) = n * linesize" by (simp add: nat_mult_distrib)
  then have "cq = \<lparr>q_back = 0, csize = n * linesize\<rparr>"
    using cq b(4) by (auto simp: idle_ipc_def open_queue_def open_shared_memory_def Let_def split: if_splits)
  then show ?thesis
    using n b by (auto simp: idle_ipc_def queue_inv_def mem_inv_def ring_at_def linesize_eq)
qed

text \<open>The requests a file gives, one per \<open>fgets\<close>.\<close>

function input_requests :: "string \<Rightarrow> string option list" where
  "input_requests s =
     (case fgets (MAXDIRPATH + MAXKEYWORD + 2) s of
        None \<Rightarrow> []
      | Some (request, rest) \<Rightarrow> next_request request # input_requests rest)"
  by pat_completeness auto
termination
  by (relation "measure length") (auto simp: MAXDIRPATH_def MAXKEYWORD_def dest: fgets_shorter)

declare input_requests.simps [simp del]

lemma read_loop_requests:
  "read_loop s q x = foldE (\<lambda>r (q, x). enqueue r q x) (input_requests s) (q, x)"
proof (induction s q x rule: read_loop.induct)
  case (1 s q x)
  show ?case
  proof (cases "fgets (MAXDIRPATH + MAXKEYWORD + 2) s")
    case (Some a)
    obtain request rest where a: "a = (request, rest)" by (cases a)
    show ?thesis
      using 1 [OF Some a [symmetric]] Some a
      by (cases "enqueue (next_request request) q x") (auto simp: read_loop.simps [of s] input_requests.simps [of s])
  qed (simp add: read_loop.simps [of s] input_requests.simps [of s])
qed

lemma take_line_newline:
  "CHR 0x0A \<notin> set l \<Longrightarrow> length l < k \<Longrightarrow> take_line k (l @ CHR 0x0A # s) = (l @ [CHR 0x0A], s)"
proof (induction l arbitrary: k)
  case Nil
  then show ?case by (cases k) auto
next
  case (Cons c l)
  then show ?case by (cases k) auto
qed

definition plain_line :: "string \<Rightarrow> bool" where
  "plain_line l \<longleftrightarrow> l \<noteq> [] \<and> CHR 0x0A \<notin> set l \<and> NUL \<notin> set l"

lemma next_request_line: "plain_line l \<Longrightarrow> next_request (l @ [CHR 0x0A]) = Some l"
  by (cases l) (auto simp: plain_line_def next_request_def strtok_r_def cstr_def Let_def takeWhile_append)

lemma input_requests_append:
  assumes "\<forall>l \<in> set ls. plain_line l \<and> length l \<le> 1280"
  shows "input_requests (concat (map (\<lambda>l. l @ [CHR 0x0A]) ls) @ s) = map Some ls @ input_requests s"
  using assms
proof (induction ls)
  case (Cons l ls)
  let ?rest = "concat (map (\<lambda>l. l @ [CHR 0x0A]) ls) @ s"
  have "fgets (MAXDIRPATH + MAXKEYWORD + 2) (l @ CHR 0x0A # ?rest) = Some (l @ [CHR 0x0A], ?rest)"
    using Cons.prems take_line_newline [of l 1281 ?rest]
    by (simp add: fgets_def MAXDIRPATH_def MAXKEYWORD_def plain_line_def)
  then show ?case
    using Cons next_request_line [of l] by (simp add: input_requests.simps [of "l @ CHR 0x0A # ?rest"])
qed simp

lemma input_requests_lines:
  assumes "\<forall>l \<in> set ls. plain_line l \<and> length l \<le> 1280"
  shows "input_requests (concat (map (\<lambda>l. l @ [CHR 0x0A]) ls)) = map Some ls"
  using input_requests_append [OF assms, of "[]"] by (simp add: input_requests.simps [of "[]"] fgets_def)

text \<open>An empty line gives a missing request, and so does the newline behind a line of 1281 characters.\<close>

lemma input_requests_newline: "input_requests (CHR 0x0A # s) = None # input_requests s"
proof -
  have "fgets (MAXDIRPATH + MAXKEYWORD + 2) (CHR 0x0A # s) = Some ([CHR 0x0A], s)"
    using take_line_newline [of "[]" 1281 s] by (simp add: fgets_def MAXDIRPATH_def MAXKEYWORD_def)
  then show ?thesis
    by (simp add: input_requests.simps [of "CHR 0x0A # s"] next_request_def strtok_r_def cstr_def Let_def)
qed

lemma input_requests_long:
  assumes "plain_line l" and "length l = 1281"
  shows "input_requests (l @ CHR 0x0A # s) = Some l # None # input_requests s"
proof -
  have tl: "take_line (length l) (l @ t) = (l, t)" if "CHR 0x0A \<notin> set l" for l t
    using that by (induction l) auto
  have "fgets (MAXDIRPATH + MAXKEYWORD + 2) (l @ CHR 0x0A # s) = Some (l, CHR 0x0A # s)"
    using assms tl [of l] by (simp add: fgets_def MAXDIRPATH_def MAXKEYWORD_def plain_line_def)
  moreover have "next_request l = Some l"
  proof -
    have "cstr l = l" using assms(1) by (simp add: plain_line_def cstr_id)
    moreover have "dropWhile (\<lambda>c. c = CHR 0x0A) l = l" using assms(1) by (cases l) (auto simp: plain_line_def)
    moreover have "takeWhile (\<lambda>c. c \<noteq> CHR 0x0A) l = l"
      using assms(1) by (auto simp: plain_line_def takeWhile_eq_all_conv)
    ultimately show ?thesis using assms(1) by (simp add: next_request_def strtok_r_def Let_def plain_line_def)
  qed
  ultimately show ?thesis
    by (simp add: input_requests.simps [of "l @ CHR 0x0A # s"] input_requests_newline)
qed

lemma enqueue_all_ok:
  assumes "queue_inv cap (cq, sq, x) rs" and "\<forall>r \<in> set ls. good_request r" and "length rs + length ls \<le> cap"
  shows "\<exists>cq' x'. foldE (\<lambda>r (q, x). enqueue r q x) (map Some ls) (cq, x) = Inr (cq', x') \<and>
    queue_inv cap (cq', sq, x') (rs @ ls)"
  using assms
proof (induction ls arbitrary: cq x rs)
  case (Cons r ls)
  then obtain cq1 x1 where e: "enqueue (Some r) cq x = Inr (cq1, x1)" "queue_inv cap (cq1, sq, x1) (rs @ [r])"
    using q_enq_ok [of cap "(cq, sq, x)" rs r] by (auto simp: q_enq_def bindE_eq_Inr)
  then show ?case using Cons.IH [OF e(2)] Cons.prems by auto
qed auto

lemma create_open_ex:
  assumes "0 < n" and "n \<le> 1000000"
  shows "\<exists>sq x cq. create_queue (int n) fresh_ipc = Inr (sq, x) \<and> open_queue (int n) x = Inr cq"
proof -
  let ?z = "replicate (n * linesize + 3) NUL"
  have t: "nat (int n * int linesize) = n * linesize" "nat (int n * int linesize + 3) = n * linesize + 3"
    by (simp_all add: nat_mult_distrib nat_add_distrib)
  obtain b where "poke_u16 (n * linesize + 1) 0 ?z = Inr b"
    using poke_ok [of "n * linesize + 1" "[NUL, NUL]" ?z] by (auto simp: poke_u16_def char_of_def)
  moreover have "\<not> (int n * int linesize \<ge> 2 ^ 31 - 3 \<or> int n * int linesize < - (2 ^ 31))"
    "\<not> int n * int linesize + 3 \<le> 0" using assms by (simp_all add: linesize_eq)
  ultimately show ?thesis
    using t by (simp add: create_queue_def create_shared_memory_def resize_def mapped_def fresh_ipc_def
        sem_open_creat_def Let_def open_queue_def open_shared_memory_def)
qed

text \<open>Opening the queue that the server has created, when nothing is in it.\<close>

lemma open_idle:
  assumes "queue_inv n (cq, sq, x) []" and "q_front sq = 0" and "atoi arg = int n" and "n \<le> 1000000"
  shows "open_queue (atoi arg) x = Inr \<lparr>q_back = 0, csize = n * linesize\<rparr>"
    and "queue_inv n (\<lparr>q_back = 0, csize = n * linesize\<rparr>, sq, x) []"
proof -
  show "queue_inv n (\<lparr>q_back = 0, csize = n * linesize\<rparr>, sq, x) []" using assms(1,2) by (auto simp: queue_inv_def)
  have "nat (int n * int linesize) = n * linesize" by (simp add: nat_mult_distrib)
  moreover have "0 < n" "shm x \<noteq> None" using assms(1) by (auto simp: queue_inv_def)
  ultimately show "open_queue (atoi arg) x = Inr \<lparr>q_back = 0, csize = n * linesize\<rparr>"
    using assms(3,4) by (auto simp: open_queue_def open_shared_memory_def Let_def linesize_eq)
qed

text \<open>A client that sends one request into the empty queue writes it at position 0.\<close>

lemma client_one:
  assumes n: "0 < n" "n \<le> 1000000" "atoi arg = int n" and f: "fopen_r fs f = Some (r @ [CHR 0x0A])"
    and r: "plain_line r" "length r \<le> 1280" and b: "length b = n * linesize + 3" "b ! (n * linesize) = NUL"
  shows "\<exists>b'. client_main fs [a0, arg, f] (idle_ipc n b) =
      Inr (0, idle_ipc n b'\<lparr>sem_empty := Some (n - 1), sem_full := Some 1\<rparr>) \<and> length b' = n * linesize + 3 \<and>
    b' ! (n * linesize) = NUL \<and> ring_at b' (n * linesize) 0 (r @ [NUL]) \<and>
    (\<forall>j < n * linesize. length r < j \<longrightarrow> b' ! j = b ! j)"
proof -
  let ?n = "n * linesize" and ?q = "\<lparr>q_back = 0, csize = n * linesize\<rparr>"
  have len: "0 < ?n" "length r + 1 \<le> ?n" "length r + 1 < 2 ^ 16" using n(1) r(2) by (simp_all add: linesize_eq)
  obtain b' where b': "put_request ?q r (length r + 1) b = Inr b'" "length b' = ?n + 3" "b' ! ?n = NUL"
      "ring_at b' ?n 0 (r @ [NUL])" "\<forall>j < ?n. (\<forall>k < length r + 1. j \<noteq> (0 + k) mod ?n) \<longrightarrow> b' ! j = b ! j"
    using put_request_ok [of ?q ?n 0 b "length r + 1" r] b len by auto
  have "b' ! j = b ! j" if "j < ?n" "length r < j" for j using b'(5) that by auto
  moreover have "nat (int n * int linesize) = ?n" by (simp add: nat_mult_distrib)
  then have "open_queue (atoi arg) (idle_ipc n b) = Inr ?q"
    using n by (auto simp: open_queue_def open_shared_memory_def Let_def linesize_eq idle_ipc_def)
  moreover obtain k where k: "n = Suc k" using n(1) by (cases n) auto
  have "(length r + 1) mod 2 ^ 16 = length r + 1" using len by simp
  then have "enqueue (Some r) ?q (idle_ipc n b) =
      Inr (?q\<lparr>q_back := (0 + (length r + 1)) mod ?n\<rparr>, idle_ipc n b'\<lparr>sem_empty := Some (n - 1), sem_full := Some 1\<rparr>)"
    using b'(1) k by (simp add: enqueue_def idle_ipc_def sem_wait_def sem_post_def mapped_def Let_def linesize_eq)
  moreover have "input_requests (r @ [CHR 0x0A]) = [Some r]" using input_requests_lines [of "[r]"] r by simp
  ultimately show ?thesis
    using b'(2-4) f by (auto simp: client_main_def read_inputfile_def read_loop_requests close_queue_def)
qed

lemma dequeue_one:
  assumes "0 < n" and "sq = \<lparr>q_front = p, ssize = n * linesize\<rparr>" and b: "length b = n * linesize + 3" "b ! (n * linesize) = NUL"
    "ring_at b (n * linesize) p (r @ [NUL])" and r: "good_request r" and p: "p < n * linesize" "p + length r \<le> n * linesize"
  shows "dequeue sq (idle_ipc n b\<lparr>sem_empty := Some (n - 1), sem_full := Some 1\<rparr>) =
    Inr (r, \<lparr>q_front = (p + (length r + 1)) mod (n * linesize), ssize = n * linesize\<rparr>, idle_ipc n b)"
proof -
  have "take_request sq b = Inr (r, b)"
    using take_request_ok [of sq "n * linesize" p b r] assms by (simp add: good_request_def)
  moreover have "(length r + 1) mod 2 ^ 16 = length r + 1" "\<not> MAXDIRPATH + MAXKEYWORD + 2 < length r + 1"
    using r by (simp_all add: good_request_def linesize_def MAXDIRPATH_def MAXKEYWORD_def)
  ultimately show ?thesis using assms(1,2)
    by (simp add: dequeue_def idle_ipc_def sem_wait_def sem_post_def mapped_def Let_def linesize_eq)
qed

section \<open>Properties\<close>

text \<open>
  C4. Delivery. A server that creates a queue of \<open>n\<close> slots and a client that opens it and
  sends requests of at most 1281 characters whose bytes, terminators included, fit into the
  ring once: under every interleaving of their operations the server receives a prefix of the
  requests, in order and unchanged; the two are never stuck before everything has arrived; and
  from every reachable state all requests can still be delivered.
\<close>

theorem queue_delivers:
  assumes n: "0 < n" and "create_queue (int n) fresh_ipc = Inr (sq, x)" and "open_queue (int n) x = Inr cq"
    and good: "\<forall>r \<in> set rs. good_request r" and bytes: "length (wire rs) \<le> n * linesize"
    and run: "(pc_step q_enq q_deq)\<^sup>*\<^sup>* ([rs], (cq, sq, x), []) (ps, s, got)"
  shows "prefix got rs \<and>
    (got \<noteq> rs \<longrightarrow> (\<exists>c'. pc_step q_enq q_deq (ps, s, got) c')) \<and>
    (\<exists>ps' s'. (pc_step q_enq q_deq)\<^sup>*\<^sup>* (ps, s, got) (ps', s', rs))"
proof -
  obtain c where c: "n = Suc c" using n by (cases n) auto
  have "length (wire rs) = (\<Sum>r \<in># mset rs. length r + 1)" for rs by (induction rs) simp_all
  then have "lap_rep n (cq, sq, x) [] (mset rs)"
    using create_open_inv [OF assms(1-3)] good bytes by (auto simp: lap_rep_def)
  then have inv: "rq.pc_inv c [rs] (ps, s, got)"
    using rq.pc_inv_reach [OF run, of c "[rs]"] rq.pc_inv_init [of c "(cq, sq, x)" "[rs]"] c by simp
  obtain rs' zs where "interleaves (got @ rs' @ zs) [rs]"
    using inv interleaves_ex [of ps] by (auto simp: rq.pc_inv_def)
  then have "prefix got rs" by (auto simp: interleaves_one)
  then show ?thesis
    using rq.pc_progress [OF inv] rq.pc_delivers [OF inv] by (auto simp: interleaves_one)
qed

theorem queue_delivers_witness:
  "\<exists>sq x cq. create_queue 2 fresh_ipc = Inr (sq, x) \<and> open_queue 2 x = Inr cq \<and>
     (\<exists>ps s. (pc_step q_enq q_deq)\<^sup>*\<^sup>* ([[''/d int'', ''/e for'', ''exit'']], (cq, sq, x), [])
       (ps, s, [''/d int'', ''/e for'', ''exit'']))"
proof -
  obtain sq x cq where q: "create_queue (int 2) fresh_ipc = Inr (sq, x)" "open_queue (int 2) x = Inr cq"
    using create_open_ex [of 2] by auto
  have "\<forall>r \<in> set [''/d int'', ''/e for'', ''exit'']. good_request r" by code_simp
  moreover have "length (wire [''/d int'', ''/e for'', ''exit'']) \<le> 2 * linesize" by code_simp
  ultimately show ?thesis using queue_delivers [OF _ q] q by fastforce
qed

text \<open>
  C14. \<open>enqueue\<close> is correct on every lap: if a slot is free it appends the request to the
  queue, also where the request reaches over the end of the ring, and damages no stored
  request; if no slot is free it waits.
\<close>

theorem enqueue_appends:
  assumes "queue_inv cap (cq, sq, x) rs" and "good_request r"
  shows "if length rs < cap
    then \<exists>cq' x'. enqueue (Some r) cq x = Inr (cq', x') \<and> queue_inv cap (cq', sq, x') (rs @ [r])
    else enqueue (Some r) cq x = Inl Block"
proof (cases "length rs < cap")
  case True
  then show ?thesis using q_enq_ok [OF assms] by (auto simp: q_enq_def bindE_eq_Inr)
next
  case False
  then have "length rs = cap" using assms(1) by (simp add: queue_inv_def)
  then show ?thesis using q_enq_full [OF assms(1), of r] False
    by (cases "enqueue (Some r) cq x") (auto simp: q_enq_def)
qed

lemma queue_inv_ex: "0 < n \<Longrightarrow> n \<le> 1000000 \<Longrightarrow> \<exists>cq sq x. queue_inv n (cq, sq, x) [] \<and> q_front sq = 0"
  using create_open_ex [of n] create_open_inv [of n] by blast

theorem enqueue_appends_witness:
  "\<exists>cq sq x cq' x'. enqueue (Some ''/d int'') cq x = Inr (cq', x') \<and> queue_inv 3 (cq', sq, x') [''/d int'']"
proof -
  obtain cq sq x where "queue_inv 3 (cq, sq, x) []" using queue_inv_ex [of 3] by auto
  moreover have "good_request ''/d int''" by code_simp
  ultimately show ?thesis using enqueue_appends [of 3 cq sq x "[]" "''/d int''"] by simp blast
qed

text \<open>
  C15. \<open>dequeue\<close> takes the oldest request out of the queue, complete and with the positions of
  client and server in step, whenever its characters do not reach over the end of the ring.
\<close>

theorem dequeue_takes_first:
  assumes "queue_inv cap (cq, sq, x) (r # rs)" and "q_front sq + length r \<le> cap * linesize"
  shows "\<exists>sq' x'. dequeue sq x = Inr (r, sq', x') \<and> queue_inv cap (cq, sq', x') rs"
  using q_deq_ok [OF assms(1)] assms(2) by (auto simp: q_deq_def bindE_eq_Inr)

theorem dequeue_takes_first_witness:
  "\<exists>cq sq x sq' x'. queue_inv 1 (cq, sq, x) [''/d int''] \<and> dequeue sq x = Inr (''/d int'', sq', x')"
proof -
  obtain cq sq x where i: "queue_inv 1 (cq, sq, x) []" "q_front sq = 0" using queue_inv_ex [of 1] by auto
  have g: "good_request ''/d int''" by code_simp
  obtain s' where "queue_inv 1 s' [''/d int'']" "q_front (fst (snd s')) = 0"
    using q_enq_ok [OF i(1) g] i(2) by auto
  moreover obtain cq' sq' x' where "s' = (cq', sq', x')" by (cases s')
  ultimately show ?thesis using dequeue_takes_first [of 1 cq' sq' x' "''/d int''" "[]"] by (simp add: linesize_eq) blast
qed

text \<open>
  C16. A request that reaches over the end of the ring is cut: the branch of \<open>dequeue\<close> that
  would join its two parts is never taken, the server gets only the part before the end and
  goes on reading at position 1, which is not where the next request starts.
\<close>

theorem dequeue_cuts_straddling:
  assumes "queue_inv cap (cq, sq, x) (r # rs)" and "cap * linesize < q_front sq + length r"
  shows "\<exists>sq' x' t. dequeue sq x = Inr (t, sq', x') \<and> t = take (cap * linesize - q_front sq) r \<and> t \<noteq> r \<and>
    q_front sq' = 1 \<and> (q_front sq + (length r + 1)) mod (cap * linesize) \<noteq> q_front sq'"
proof -
  let ?n = "cap * linesize"
  have lt: "q_front sq < ?n" "good_request r" "linesize \<le> ?n" using assms(1) by (auto simp: queue_inv_def)
  have len: "length (take (?n - q_front sq) r) = ?n - q_front sq" using assms(2) by simp
  have "q_front sq + (?n - q_front sq + 1) = ?n + 1" using lt(1) by linarith
  then have "(q_front sq + (?n - q_front sq + 1)) mod ?n = 1 mod ?n" by (metis mod_add_self1)
  also have "\<dots> = 1" using lt(3) by (simp add: linesize_eq)
  finally have f: "(q_front sq + (?n - q_front sq + 1)) mod ?n = 1" .
  have "length r + 1 \<le> ?n" using lt(2,3) unfolding good_request_def by linarith
  then have "(q_front sq + (length r + 1)) mod ?n = q_front sq + (length r + 1) - ?n"
    using mod_once [OF lt(1), of "length r + 1"] assms(2) by auto
  then have "(q_front sq + (length r + 1)) mod ?n \<noteq> 1" using assms(2) by simp
  moreover have "take (?n - q_front sq) r \<noteq> r"
  proof
    assume "take (?n - q_front sq) r = r"
    then have "length r = ?n - q_front sq" using len by simp
    then show False using assms(2) lt(1) by linarith
  qed
  moreover obtain x' where "dequeue sq x = Inr (take (?n - q_front sq) r, sq\<lparr>q_front := 1\<rparr>, x')"
    using dequeue_run [OF assms(1)] unfolding len f by blast
  ultimately show ?thesis by simp
qed

theorem dequeue_cuts_straddling_witness:
  "\<exists>cq sq x sq' x'. queue_inv 1 (cq, sq, x) [''/dir key''] \<and> dequeue sq x = Inr (''/d'', sq', x')"
proof -
  obtain cq sq x where i: "queue_inv 1 (cq, sq, x) []" "q_front sq = 0" using queue_inv_ex [of 1] by auto
  have g: "good_request (replicate 1279 CHR ''a'')" "good_request ''/dir key''"
    by (simp add: good_request_def linesize_eq) code_simp
  obtain s1 where s1: "queue_inv 1 s1 [replicate 1279 CHR ''a'']" "q_front (fst (snd s1)) = 0"
    using q_enq_ok [OF i(1) g(1)] i(2) by auto
  obtain s2 where s2: "queue_inv 1 s2 []" "q_front (fst (snd s2)) = 1280"
    using q_deq_ok [OF s1(1)] s1(2) by (auto simp: linesize_eq)
  obtain s3 where s3: "queue_inv 1 s3 [''/dir key'']" "q_front (fst (snd s3)) = 1280"
    using q_enq_ok [OF s2(1) g(2)] s2(2) by auto
  obtain cq' sq' x' where s: "s3 = (cq', sq', x')" by (cases s3)
  show ?thesis
    using dequeue_cuts_straddling [of 1 cq' sq' x' "''/dir key''" "[]"] s3 s by (simp add: linesize_eq) blast
qed

text \<open>
  C23. A client started on an idle queue with a file of at most \<open>n\<close> non-empty lines of at most
  1280 characters exits with status 0 and leaves exactly these lines in the queue, in order.
\<close>

theorem client_sends_lines:
  assumes "queue_inv n (cq, sq, x) []" and "q_front sq = 0" and "atoi arg = int n" and "n \<le> 1000000"
    and "fopen_r fs f = Some (concat (map (\<lambda>l. l @ [CHR 0x0A]) ls))"
    and "\<forall>l \<in> set ls. plain_line l \<and> length l \<le> 1280" and "length ls \<le> n"
  shows "\<exists>cq' x'. client_main fs [a0, arg, f] x = Inr (0, x') \<and> queue_inv n (cq', sq, x') ls"
proof -
  note op = open_idle [OF assms(1-4)]
  have "\<forall>r \<in> set ls. good_request r" using assms(6) by (auto simp: good_request_def plain_line_def linesize_eq)
  then show ?thesis
    using enqueue_all_ok [OF op(2), of ls] assms(5,7) input_requests_lines [OF assms(6)] op(1)
    by (auto simp: client_main_def read_inputfile_def read_loop_requests close_queue_def)
qed

definition demo_input :: fsys where
  "demo_input = \<lparr>opendir = (\<lambda>_. None), stat = (\<lambda>_. None),
     fopen_r = (\<lambda>f. if f = ''in'' then Some (''/d int'' @ [CHR 0x0A] @ ''exit'' @ [CHR 0x0A]) else None),
     fopen_w = (\<lambda>_. False)\<rparr>"

theorem client_sends_lines_witness:
  "\<exists>cq sq x x'. client_main demo_input [''client'', ''2'', ''in''] x = Inr (0, x') \<and>
     queue_inv 2 (cq, sq, x') [''/d int'', ''exit'']"
proof -
  obtain cq sq x where i: "queue_inv 2 (cq, sq, x) []" "q_front sq = 0" using queue_inv_ex [of 2] by auto
  have a: "atoi ''2'' = int 2" by code_simp
  have f: "fopen_r demo_input ''in'' = Some (concat (map (\<lambda>l. l @ [CHR 0x0A]) [''/d int'', ''exit'']))" by code_simp
  have p: "\<forall>l \<in> set [''/d int'', ''exit'']. plain_line l \<and> length l \<le> 1280" by code_simp
  show ?thesis using client_sends_lines [OF i a _ f p, of "''client''"] by auto
qed

text \<open>
  C25. A request line of the largest allowed size, 1024 characters of path, a space and 256 of
  keyword, does not fit into the client's buffer together with its newline: the next \<open>fgets\<close>
  returns the newline alone, \<open>strtok_r\<close> returns \<open>NULL\<close>, and \<open>enqueue\<close> takes its \<open>strlen\<close>. So a
  client on an idle queue whose file has such a line behind fewer than \<open>n\<close> sendable lines ends
  in a null pointer instead of sending the rest, and so it does on an empty line.
\<close>

theorem client_crashes_on_long_line:
  assumes "queue_inv n (cq, sq, x) []" and "q_front sq = 0" and "atoi arg = int n" and "n \<le> 1000000"
    and "fopen_r fs f = Some (concat (map (\<lambda>l. l @ [CHR 0x0A]) ls) @ l @ CHR 0x0A # s)"
    and "\<forall>l \<in> set ls. plain_line l \<and> length l \<le> 1280" and "length ls < n"
    and "l = [] \<or> plain_line l \<and> length l = MAXDIRPATH + 1 + MAXKEYWORD"
  shows "client_main fs [a0, arg, f] x = Inl NullDeref"
proof -
  note op = open_idle [OF assms(1-4)]
  define ms where "ms = ls @ (if l = [] then [] else [l])"
  have l: "l = [] \<or> plain_line l \<and> length l = 1281" using assms(8) by (simp add: MAXDIRPATH_def MAXKEYWORD_def)
  have "input_requests (l @ CHR 0x0A # s) = map Some (if l = [] then [] else [l]) @ None # input_requests s"
    using l input_requests_long [of l s] input_requests_newline [of s] by auto
  then have rq: "input_requests (concat (map (\<lambda>l. l @ [CHR 0x0A]) ls) @ l @ CHR 0x0A # s) =
      map Some ms @ None # input_requests s"
    using input_requests_append [OF assms(6)] by (simp add: ms_def)
  have "\<forall>r \<in> set ms. good_request r" using assms(6) l by (auto simp: ms_def good_request_def plain_line_def linesize_eq)
  moreover have "length ms \<le> n" using assms(7) by (simp add: ms_def)
  ultimately obtain cq' x' where "foldE (\<lambda>r (q, x). enqueue r q x) (map Some ms) (\<lparr>q_back = 0, csize = n * linesize\<rparr>, x) = Inr (cq', x')"
    using enqueue_all_ok [OF op(2), of ms] by auto
  then show ?thesis
    using op(1) assms(5) rq by (simp add: client_main_def read_inputfile_def read_loop_requests enqueue_def)
qed

definition long_input :: fsys where
  "long_input = \<lparr>opendir = (\<lambda>_. None), stat = (\<lambda>_. None),
     fopen_r = (\<lambda>f. Some (replicate 1281 CHR ''x'' @ [CHR 0x0A] @ ''exit'' @ [CHR 0x0A])), fopen_w = (\<lambda>_. False)\<rparr>"

theorem client_crashes_on_long_line_witness:
  "\<exists>x. shm x \<noteq> None \<and> client_main long_input [''client'', ''2'', ''in''] x = Inl NullDeref"
proof -
  let ?l = "replicate 1281 CHR ''x''"
  obtain cq sq x where i: "queue_inv 2 (cq, sq, x) []" "q_front sq = 0" using queue_inv_ex [of 2] by auto
  have a: "atoi ''2'' = int 2" by code_simp
  have f: "fopen_r long_input ''in'' = Some (concat (map (\<lambda>l. l @ [CHR 0x0A]) []) @ ?l @ CHR 0x0A # ''exit'' @ [CHR 0x0A])"
    by (simp add: long_input_def del: replicate.simps)
  have l: "?l = [] \<or> plain_line ?l \<and> length ?l = MAXDIRPATH + 1 + MAXKEYWORD"
    by (simp add: plain_line_def MAXDIRPATH_def MAXKEYWORD_def del: replicate.simps)
  show ?thesis using client_crashes_on_long_line [OF i a _ f _ _ l, of "''client''"] i(1) by (auto simp: queue_inv_def)
qed

text \<open>
  C26. The client's write position is its own and starts at 0. One client sends a request, the
  server takes it, and a second client sends another: it writes at 0 while the server reads on
  behind the first request. The second client reports success, but the server gets only what
  of the second request lies behind the length of the first, which is nothing unless the
  second is longer; and it is never the second request. The assignment asks for several clients.
\<close>

theorem second_client_lost:
  assumes "0 < n" and "n \<le> 1000000" and "atoi arg = int n" and cr: "create_queue (int n) fresh_ipc = Inr (sq, x)"
    and f: "fopen_r fs f1 = Some (r1 @ [CHR 0x0A])" "fopen_r fs f2 = Some (r2 @ [CHR 0x0A])"
    and r: "plain_line r1" "length r1 \<le> 1280" "plain_line r2" "length r2 \<le> 1280"
  shows "\<exists>x1 sq1 x2 x3 sq2 x4. client_main fs [a0, arg, f1] x = Inr (0, x1) \<and> dequeue sq x1 = Inr (r1, sq1, x2) \<and>
    client_main fs [a0, arg, f2] x2 = Inr (0, x3) \<and>
    dequeue sq1 x3 = Inr (drop (length r1 + 1) r2, sq2, x4) \<and> drop (length r1 + 1) r2 \<noteq> r2"
proof -
  let ?n = "n * linesize" and ?p = "length r1 + 1"
  have g: "good_request r1" "good_request r2" using r by (auto simp: good_request_def plain_line_def linesize_eq)
  obtain b where b: "length b = ?n + 3" "\<forall>j < ?n + 3. b ! j = NUL" "sq = \<lparr>q_front = 0, ssize = ?n\<rparr>" "x = idle_ipc n b"
    using create_queue_memory [OF assms(1) cr] by blast
  have p: "?p < ?n" using r(2) assms(1) by (simp add: linesize_eq)
  obtain b1 where b1: "client_main fs [a0, arg, f1] x = Inr (0, idle_ipc n b1\<lparr>sem_empty := Some (n - 1), sem_full := Some 1\<rparr>)"
      "length b1 = ?n + 3" "b1 ! ?n = NUL" "ring_at b1 ?n 0 (r1 @ [NUL])" "\<forall>j < ?n. length r1 < j \<longrightarrow> b1 ! j = b ! j"
    using client_one [OF assms(1-3) f(1) r(1,2), of b a0] b by auto
  have d1: "dequeue sq (idle_ipc n b1\<lparr>sem_empty := Some (n - 1), sem_full := Some 1\<rparr>) =
      Inr (r1, \<lparr>q_front = ?p, ssize = ?n\<rparr>, idle_ipc n b1)"
    using dequeue_one [OF assms(1) _ b1(2-4) g(1), of sq] b(3) p r(2) assms(1) by (simp add: linesize_eq)
  obtain b2 where b2: "client_main fs [a0, arg, f2] (idle_ipc n b1) = Inr (0, idle_ipc n b2\<lparr>sem_empty := Some (n - 1), sem_full := Some 1\<rparr>)"
      "length b2 = ?n + 3" "b2 ! ?n = NUL" "ring_at b2 ?n 0 (r2 @ [NUL])" "\<forall>j < ?n. length r2 < j \<longrightarrow> b2 ! j = b1 ! j"
    using client_one [OF assms(1-3) f(2) r(3,4) b1(2,3), of a0] by blast
  have r2: "length r2 < ?n" using r(4) assms(1) by (simp add: linesize_eq)
  have "ring_at b2 ?n ?p (drop ?p r2 @ [NUL])"
  proof (cases "?p \<le> length r2")
    case True
    have "ring_at b2 ?n 0 (take ?p r2 @ drop ?p r2 @ [NUL])" using b2(4) by (simp flip: append_assoc)
    then show ?thesis using ring_at_append [of b2 ?n 0 "take ?p r2" "drop ?p r2 @ [NUL]"] True by simp
  next
    case False
    then have "b2 ! ?p = NUL" using b2(5) b1(5) b(2) p by simp
    then show ?thesis using False p by (simp add: ring_at_def)
  qed
  moreover have "good_request (drop ?p r2)" using g(2) by (auto simp: good_request_def dest: in_set_dropD)
  ultimately have "\<exists>sq2. dequeue \<lparr>q_front = ?p, ssize = ?n\<rparr> (idle_ipc n b2\<lparr>sem_empty := Some (n - 1), sem_full := Some 1\<rparr>) =
      Inr (drop ?p r2, sq2, idle_ipc n b2)"
    using dequeue_one [OF assms(1) _ b2(2,3), of "\<lparr>q_front = ?p, ssize = ?n\<rparr>" ?p "drop ?p r2"] p r2 by auto
  moreover have "drop ?p r2 \<noteq> r2" using r(3) by (metis add_gr_0 diff_less length_drop length_greater_0_conv less_irrefl
        less_numeral_extra(1) plain_line_def)
  ultimately show ?thesis using b1(1) d1 b2(1) by blast
qed

definition two_inputs :: fsys where
  "two_inputs = \<lparr>opendir = (\<lambda>_. None), stat = (\<lambda>_. None),
     fopen_r = map_of [(''in1'', ''/d int'' @ [CHR 0x0A]), (''in2'', ''/e for'' @ [CHR 0x0A])], fopen_w = (\<lambda>_. False)\<rparr>"

theorem second_client_lost_witness:
  "\<exists>sq x x1 sq1 x2 x3 sq2 x4. create_queue 2 fresh_ipc = Inr (sq, x) \<and>
     client_main two_inputs [''client'', ''2'', ''in1''] x = Inr (0, x1) \<and> dequeue sq x1 = Inr (''/d int'', sq1, x2) \<and>
     client_main two_inputs [''client'', ''2'', ''in2''] x2 = Inr (0, x3) \<and> dequeue sq1 x3 = Inr ([], sq2, x4)"
proof -
  obtain sq x where q: "create_queue (int 2) fresh_ipc = Inr (sq, x)" using create_open_ex [of 2] by auto
  have a: "atoi ''2'' = int 2" by code_simp
  have f: "fopen_r two_inputs ''in1'' = Some (''/d int'' @ [CHR 0x0A])" "fopen_r two_inputs ''in2'' = Some (''/e for'' @ [CHR 0x0A])"
    "plain_line ''/d int''" "length ''/d int'' \<le> 1280" "plain_line ''/e for''" "length ''/e for'' \<le> 1280" by code_simp+
  show ?thesis using second_client_lost [OF _ _ a q f, of "''client''"] q by auto
qed

end
