(* ===== verification/Server_Worker.thy ===== *)
theory Server_Worker
  imports Request_Queue
begin

text \<open>
  The worker side of \<open>client-server/server.c\<close>: \<open>struct Item\<close>, the ring of items with its three
  semaphores (\<open>buffer_fill\<close>, \<open>buffer_get\<close>) and \<open>retrieve_keyword\<close>, which reads a file through
  two streams at once. The worker is compared with the chunks of the file that contain the
  keyword, and the ring is shown to be a bounded FIFO.
\<close>

section \<open>Model\<close>

text \<open>
  An item's file name is a pointer to the \<open>d_name\<close> of a directory entry; it is kept as the
  number of that entry. The last item of a worker has only its line number set, the other two
  fields are indeterminate.
\<close>

record item =
  filename :: "nat option"
  linenumber :: int
  line :: "string option"

definition dummyItem :: item where
  "dummyItem = \<lparr>filename = None, linenumber = -1, line = None\<rparr>"

definition MAXLINESIZE :: nat where "MAXLINESIZE = 1024"

text \<open>The thread buffer: the array, the two global indices and the semaphores.\<close>

record tbuf =
  buffer :: "item option list"
  threadbuffersize :: nat
  buffer_use :: nat
  buffer_filler :: nat
  buffer_empty :: "nat option"
  buffer_full :: "nat option"
  buffer_mutex :: "nat option"

definition init_buffer :: "nat \<Rightarrow> tbuf" where
  "init_buffer n =
     \<lparr>buffer = replicate n None, threadbuffersize = n, buffer_use = 0, buffer_filler = 0,
      buffer_empty = Some n, buffer_full = Some 0, buffer_mutex = Some 1\<rparr>"

definition buffer_fill :: "item \<Rightarrow> tbuf \<Rightarrow> tbuf res" where
  "buffer_fill it t =
     (if buffer_filler t < length (buffer t) then
        let f = buffer_filler t + 1
        in Inr (t\<lparr>buffer := (buffer t)[buffer_filler t := Some it],
                  buffer_filler := (if f = threadbuffersize t then 0 else f)\<rparr>)
      else Inl BadAddr)"

definition buffer_get :: "tbuf \<Rightarrow> (item \<times> tbuf) res" where
  "buffer_get t =
     (if buffer_use t < length (buffer t) then
        (case buffer t ! buffer_use t of
           None \<Rightarrow> Inl Uninit
         | Some tmp \<Rightarrow>
             let u = buffer_use t + 1
             in Inr (tmp, t\<lparr>buffer_use := (if u = threadbuffersize t then 0 else u)\<rparr>))
      else Inl BadAddr)"

text \<open>The guarded accesses, as the worker (twice) and the printer write them.\<close>

definition worker_put :: "item \<Rightarrow> tbuf \<Rightarrow> tbuf res" where
  "worker_put it t =
     bindE (sem_wait (buffer_empty t)) (\<lambda>e.
     bindE (sem_wait (buffer_mutex t)) (\<lambda>m.
     bindE (buffer_fill it t) (\<lambda>t.
     bindE (sem_post m) (\<lambda>m.
     bindE (sem_post (buffer_full t)) (\<lambda>f.
     Inr (t\<lparr>buffer_empty := e, buffer_mutex := m, buffer_full := f\<rparr>))))))"

definition printer_take :: "tbuf \<Rightarrow> (item \<times> tbuf) res" where
  "printer_take t =
     bindE (sem_wait (buffer_full t)) (\<lambda>f.
     bindE (sem_wait (buffer_mutex t)) (\<lambda>m.
     bindE (buffer_get t) (\<lambda>(it, t).
     bindE (sem_post m) (\<lambda>m.
     bindE (sem_post (buffer_empty t)) (\<lambda>e.
     Inr (it, t\<lparr>buffer_empty := e, buffer_mutex := m, buffer_full := f\<rparr>))))))"

text \<open>The token loop of the worker, which stops at the first hit.\<close>

function token_match :: "string \<Rightarrow> string \<Rightarrow> bool" where
  "token_match kw s =
     (case strtok_r blanks s of
        None \<Rightarrow> False
      | Some (token, saveptr) \<Rightarrow> if strcmp token kw = 0 then True else token_match kw saveptr)"
  by pat_completeness auto
termination
  by (relation "measure (\<lambda>(kw, s). length s)") (auto dest: strtok_r_shorter)

declare token_match.simps [simp del]

text \<open>The inner \<open>for\<close> loop: \<open>k\<close> times \<open>fgets(item.line, 1024, lineptr)\<close>; at the end of the file
  the array keeps what it has.\<close>

fun read_lines :: "nat \<Rightarrow> string \<Rightarrow> string option \<Rightarrow> string option \<times> string" where
  "read_lines 0 ls buf = (buf, ls)"
| "read_lines (Suc k) ls buf =
     (case fgets 1024 ls of
        None \<Rightarrow> read_lines k ls buf
      | Some (b, rest) \<Rightarrow> read_lines k rest (Some b))"

text \<open>
  The items the worker puts into the buffer, in order: \<open>s\<close> is what is left of \<open>fileptr\<close>, \<open>ls\<close>
  what is left of \<open>lineptr\<close>.
\<close>

function retrieve_loop :: "string \<Rightarrow> nat \<Rightarrow> string \<Rightarrow> string \<Rightarrow> nat \<Rightarrow> nat \<Rightarrow> item list" where
  "retrieve_loop kw fn s ls lastsavedline currentline =
     (case fgets 1024 s of
        None \<Rightarrow> [dummyItem]
      | Some (filebuffer, rest) \<Rightarrow>
          let cur = currentline + 1
          in if token_match kw (cstr filebuffer) then
               (case read_lines (cur - lastsavedline) ls None of
                  (l, ls') \<Rightarrow>
                    \<lparr>filename = Some fn, linenumber = int cur, line = l\<rparr> # retrieve_loop kw fn rest ls' cur cur)
             else retrieve_loop kw fn rest ls lastsavedline cur)"
  by pat_completeness auto
termination
  by (relation "measure (\<lambda>(kw, fn, s, ls, a, b). length s)") (auto dest: fgets_shorter)

declare retrieve_loop.simps [simp del]

definition retrieve_keyword :: "fsys \<Rightarrow> string \<Rightarrow> nat \<Rightarrow> string \<Rightarrow> item list res" where
  "retrieve_keyword fs filepath fn kw =
     (case fopen_r fs filepath of
        None \<Rightarrow> Inl NullDeref
      | Some s \<Rightarrow> Inr (retrieve_loop kw fn s s 0 0))"

section \<open>The worker finds the chunks with the keyword\<close>

lemma token_match_words: "token_match kw s \<longleftrightarrow> kw \<in> set (tok_words blanks s)"
proof (induction kw s rule: token_match.induct)
  case (1 kw s)
  show ?case
  proof (cases "strtok_r blanks s")
    case None
    then show ?thesis using strtok_r_words [of blanks s] by (simp add: token_match.simps [of kw s])
  next
    case (Some a)
    obtain t r where a: "a = (t, r)" by (cases a)
    have "tok_words blanks s = t # tok_words blanks r" using strtok_r_words [of blanks s] Some a by simp
    then show ?thesis using 1 [OF Some a [symmetric]] Some a
      by (auto simp: token_match.simps [of kw s] strcmp_eq)
  qed
qed

text \<open>The chunks in which \<open>fgets(.., 1024, ..)\<close> reads a file: its lines, long ones in pieces.\<close>

function chunks :: "string \<Rightarrow> string list" where
  "chunks s = (case fgets 1024 s of None \<Rightarrow> [] | Some (b, rest) \<Rightarrow> b # chunks rest)"
  by pat_completeness auto
termination
  by (relation "measure length") (auto dest: fgets_shorter)

declare chunks.simps [simp del]

lemma fgets_None: "fgets n s = None \<longleftrightarrow> s = []"
  by (simp add: fgets_def)

lemma chunks_concat: "concat (chunks s) = s"
proof (induction s rule: chunks.induct)
  case (1 s)
  then show ?case
    by (subst chunks.simps) (auto dest: fgets_app simp: fgets_None split: option.split)
qed

lemma chunks_Cons: "chunks s = b # bs \<Longrightarrow> \<exists>rest. fgets 1024 s = Some (b, rest) \<and> chunks rest = bs"
  by (subst (asm) chunks.simps) (auto split: option.splits)

lemma read_lines_chunks:
  "chunks ls = skip @ b # bs \<Longrightarrow> \<exists>rest. read_lines (length skip + 1) ls buf = (Some b, rest) \<and> chunks rest = bs"
proof (induction skip arbitrary: ls buf)
  case Nil
  then show ?case using chunks_Cons [of ls b bs] by auto
next
  case (Cons c skip)
  then obtain rest where "fgets 1024 ls = Some (c, rest)" "chunks rest = skip @ b # bs"
    using chunks_Cons [of ls c] by auto
  then show ?case using Cons.IH [of rest "Some c"] by auto
qed

definition hits :: "string \<Rightarrow> nat \<Rightarrow> nat \<Rightarrow> string list \<Rightarrow> item list" where
  "hits kw fn i cs =
     map (\<lambda>(i, c). \<lparr>filename = Some fn, linenumber = int i, line = Some c\<rparr>)
       (filter (\<lambda>(i, c). kw \<in> set (tok_words blanks (cstr c))) (enumerate i cs))"

lemma hits_Cons:
  "hits kw fn i (c # cs) =
     (if kw \<in> set (tok_words blanks (cstr c)) then [\<lparr>filename = Some fn, linenumber = int i, line = Some c\<rparr>] else []) @
     hits kw fn (Suc i) cs"
  by (simp add: hits_def)

text \<open>The second stream lags behind by exactly the chunks read since the last hit.\<close>

lemma retrieve_loop_hits:
  assumes "chunks ls = skip @ chunks s" and "cur = last_saved + length skip"
  shows "retrieve_loop kw fn s ls last_saved cur = hits kw fn (Suc cur) (chunks s) @ [dummyItem]"
  using assms
proof (induction kw fn s ls last_saved cur arbitrary: skip rule: retrieve_loop.induct)
  case (1 kw fn s ls last_saved cur)
  show ?case
  proof (cases "fgets 1024 s")
    case None
    then show ?thesis by (simp add: retrieve_loop.simps [of kw fn s] chunks.simps [of s] hits_def)
  next
    case (Some a)
    obtain b rest where a: "a = (b, rest)" by (cases a)
    have cs: "chunks s = b # chunks rest" using Some a by (simp add: chunks.simps [of s])
    show ?thesis
    proof (cases "token_match kw (cstr b)")
      case True
      have "length skip + 1 = cur + 1 - last_saved" using "1.prems"(2) by simp
      then obtain ls' where ls': "read_lines (cur + 1 - last_saved) ls None = (Some b, ls')" "chunks ls' = chunks rest"
        using read_lines_chunks [of ls skip b "chunks rest" None] "1.prems"(1) cs by metis
      have "retrieve_loop kw fn rest ls' (cur + 1) (cur + 1) = hits kw fn (Suc (cur + 1)) (chunks rest) @ [dummyItem]"
        using 1(1) [OF Some a [symmetric] refl True ls'(1) [symmetric], of "[]"] ls'(2) by simp
      then show ?thesis
        using Some a True ls'(1) cs by (simp add: retrieve_loop.simps [of kw fn s] Let_def hits_Cons token_match_words)
    next
      case False
      have "retrieve_loop kw fn rest ls last_saved (cur + 1) = hits kw fn (Suc (cur + 1)) (chunks rest) @ [dummyItem]"
        using 1(2) [OF Some a [symmetric] refl False, of "skip @ [b]"] "1.prems" cs by simp
      then show ?thesis
        using Some a False cs by (simp add: retrieve_loop.simps [of kw fn s] Let_def hits_Cons token_match_words)
    qed
  qed
qed

section \<open>The thread buffer is a bounded FIFO\<close>

definition buf_rep :: "nat \<Rightarrow> tbuf \<Rightarrow> item list \<Rightarrow> item multiset \<Rightarrow> bool" where
  "buf_rep cap t rs M \<longleftrightarrow>
     length (buffer t) = cap \<and> threadbuffersize t = cap \<and> buffer_use t < cap \<and>
     buffer_filler t = (buffer_use t + length rs) mod cap \<and> length rs \<le> cap \<and>
     (\<forall>k < length rs. buffer t ! ((buffer_use t + k) mod cap) = Some (rs ! k)) \<and>
     buffer_empty t = Some (cap - length rs) \<and> buffer_full t = Some (length rs) \<and> buffer_mutex t = Some 1"

lemma buf_rep_init: "0 < cap \<Longrightarrow> buf_rep cap (init_buffer cap) [] M"
  by (simp add: buf_rep_def init_buffer_def)

lemma worker_put_ok:
  assumes rep: "buf_rep cap t rs M" and room: "length rs < cap"
  shows "\<exists>t'. worker_put r t = Inr t' \<and> buf_rep cap t' (rs @ [r]) M'"
proof -
  let ?f = "buffer_filler t" and ?u = "buffer_use t"
  obtain k where k: "cap - length rs = Suc k" "k = cap - Suc (length rs)" using room by (cases "cap - length rs") auto
  have f: "?f < cap" "?f = (?u + length rs) mod cap" "length (buffer t) = cap"
    using rep room by (auto simp: buf_rep_def)
  have step: "(?f + 1) mod cap = (?u + length (rs @ [r])) mod cap"
    using f(2) by (simp add: mod_Suc_eq)
  have cell: "(buffer t)[?f := Some r] ! ((?u + k) mod cap) = Some ((rs @ [r]) ! k)" if "k < length (rs @ [r])" for k
  proof (cases "k = length rs")
    case True
    then show ?thesis using f by simp
  next
    case False
    then have "k < length rs" using that by simp
    then have "(?u + k) mod cap \<noteq> ?f" using ring_index_inj [of ?u k cap "length rs"] f(2) room by auto
    then show ?thesis using rep \<open>k < length rs\<close> by (simp add: buf_rep_def nth_append)
  qed
  define t' where "t' = t\<lparr>buffer := (buffer t)[?f := Some r], buffer_filler := (?f + 1) mod cap, buffer_empty := Some k,
    buffer_mutex := Some 1, buffer_full := Some (Suc (length rs))\<rparr>"
  have "worker_put r t = Inr t'"
    using rep k f unfolding t'_def
    by (auto simp: worker_put_def buffer_fill_def sem_wait_def sem_post_def buf_rep_def Let_def mod_Suc)
  moreover have "buf_rep cap t' (rs @ [r]) M'"
    using rep room k f(3) cell step by (simp add: t'_def buf_rep_def)
  ultimately show ?thesis by blast
qed

lemma printer_take_ok:
  assumes rep: "buf_rep cap t (r # rs) M"
  shows "\<exists>t'. printer_take t = Inr (r, t') \<and> buf_rep cap t' rs M"
proof -
  let ?u = "buffer_use t"
  have u: "?u < cap" "length (buffer t) = cap" "buffer t ! ?u = Some r"
    using rep by (auto simp: buf_rep_def dest: spec [of _ 0])
  have cell: "buffer t ! (((?u + 1) mod cap + k) mod cap) = Some (rs ! k)" if "k < length rs" for k
    using rep that unfolding buf_rep_def
    by (metis (no_types, lifting) Suc_less_eq add.assoc length_Cons mod_add_left_eq nth_Cons_Suc plus_1_eq_Suc)
  have fill: "(?u + length (r # rs)) mod cap = ((?u + 1) mod cap + length rs) mod cap"
    by (simp add: mod_Suc_eq mod_add_left_eq flip: add_Suc)
  define t' where "t' = t\<lparr>buffer_use := (?u + 1) mod cap, buffer_empty := Some (cap - length rs),
    buffer_mutex := Some 1, buffer_full := Some (length rs)\<rparr>"
  have "Suc (length rs) \<le> cap" using rep by (simp add: buf_rep_def)
  then have "Suc (cap - Suc (length rs)) = cap - length rs" by simp
  then have "printer_take t = Inr (r, t')"
    using rep u unfolding t'_def
    by (auto simp: printer_take_def buffer_get_def sem_wait_def sem_post_def buf_rep_def Let_def mod_Suc)
  moreover have "buf_rep cap t' rs M" using rep u(1,2) cell fill by (simp add: t'_def buf_rep_def)
  ultimately show ?thesis by blast
qed

interpretation tbf: bounded_fifo "Suc c" "buf_rep (Suc c)" worker_put printer_take for c
proof unfold_locales
  fix t rs r M
  show "buf_rep (Suc c) t rs (add_mset r M) \<Longrightarrow> length rs < Suc c \<Longrightarrow>
      \<exists>t'. worker_put r t = Inr t' \<and> buf_rep (Suc c) t' (rs @ [r]) M"
    by (rule worker_put_ok)
  show "buf_rep (Suc c) t rs M \<Longrightarrow> length rs = Suc c \<Longrightarrow> worker_put r t = Inl Block"
    by (simp add: buf_rep_def worker_put_def sem_wait_def)
  show "buf_rep (Suc c) t (r # rs) M \<Longrightarrow> \<exists>t'. printer_take t = Inr (r, t') \<and> buf_rep (Suc c) t' rs M"
    by (rule printer_take_ok)
  show "buf_rep (Suc c) t [] M \<Longrightarrow> printer_take t = Inl Block"
    by (simp add: buf_rep_def printer_take_def sem_wait_def)
  show "buf_rep (Suc c) t rs M \<Longrightarrow> length rs \<le> Suc c"
    by (simp add: buf_rep_def)
qed simp

end
