(* ===== verification/Tail_List.thy ===== *)
theory Tail_List
  imports Posix_Prelude
begin

text \<open>
  The singly linked lists with a tail pointer that \<open>server.c\<close> and \<open>fsa.c\<close> each define for
  themselves. The interface says how \<open>insert_tail\<close> and \<open>destroy_list\<close> act on the cells; the
  lemmas say that the list is the sequence of inserted nodes and that all of it is freed.
\<close>

record tl =
  t_head :: ptr
  t_tail :: ptr

locale tail_list =
  fixes nx :: "'n \<Rightarrow> ptr"
    and upd :: "ptr \<Rightarrow> 'n \<Rightarrow> 'n"
    and ins :: "nat \<Rightarrow> 'n mem \<Rightarrow> 'l tl_scheme \<Rightarrow> ('n mem \<times> 'l tl_scheme) res"
    and wipe :: "nat \<Rightarrow> 'n mem \<Rightarrow> ptr \<Rightarrow> 'n mem res"
  assumes nx_upd: "nx (upd p n) = p"
    and ins_empty: "t_head l = None \<Longrightarrow> t_tail l = None \<Longrightarrow>
      \<exists>l'. ins a m l = Inr (m, l') \<and> t_head l' = Some a \<and> t_tail l' = Some a"
    and ins_behind: "t_tail l = Some z \<Longrightarrow> cells m z = Some n \<Longrightarrow>
      \<exists>l'. ins a m l = Inr (m\<lparr>cells := (cells m)(z := Some (upd (Some a) n))\<rparr>, l') \<and>
        t_head l' = t_head l \<and> t_tail l' = Some a"
    and wipe_end: "wipe (Suc k) m None = Inr m"
    and wipe_node: "cells m a = Some n \<Longrightarrow> wipe (Suc k) m (Some a) = bindE (free a m) (\<lambda>m. wipe k m (nx n))"
begin

fun seg :: "'n mem \<Rightarrow> ptr \<Rightarrow> nat list \<Rightarrow> bool" where
  "seg m p [] = (p = None)"
| "seg m p (a # as) = (p = Some a \<and> (\<exists>n. cells m a = Some n \<and> seg m (nx n) as))"

definition holds :: "'n mem \<Rightarrow> 'l tl_scheme \<Rightarrow> nat list \<Rightarrow> bool" where
  "holds m l as \<longleftrightarrow> seg m (t_head l) as \<and> distinct as \<and> t_tail l = (if as = [] then None else Some (last as))"

lemma seg_frame: "seg m p as \<Longrightarrow> \<forall>a \<in> set as. cells m' a = cells m a \<Longrightarrow> seg m' p as"
  by (induction as arbitrary: p) auto

lemma seg_cells: "seg m p as \<Longrightarrow> a \<in> set as \<Longrightarrow> cells m a \<noteq> None"
  by (induction as arbitrary: p) auto

lemma seg_snoc:
  assumes "seg m p (as @ [z])" and "distinct (as @ [z])" and "cells m z = Some n"
    and "cells m a = Some k" and "nx k = None" and "a \<notin> set (as @ [z])"
  shows "seg (m\<lparr>cells := (cells m)(z := Some (upd (Some a) n))\<rparr>) p (as @ [z, a])"
  using assms by (induction as arbitrary: p) (auto simp: nx_upd)

lemma ins_ok:
  assumes h: "holds m l as" and a: "a \<notin> set as" "cells m a = Some k" "nx k = None"
  shows "\<exists>m' l'. ins a m l = Inr (m', l') \<and> holds m' l' (as @ [a]) \<and> brk m' = brk m \<and> quota m' = quota m \<and>
    (\<forall>b. cells m' b = cells m b \<or> (as \<noteq> [] \<and> b = last as \<and> cells m' b = map_option (upd (Some a)) (cells m b)))"
proof (cases as rule: rev_cases)
  case Nil
  then obtain l' where l': "ins a m l = Inr (m, l')" "t_head l' = Some a" "t_tail l' = Some a"
    using ins_empty [of l a m] h by (auto simp: holds_def)
  then have "holds m l' (as @ [a])" using Nil a by (auto simp: holds_def)
  then show ?thesis using l'(1) by auto
next
  case (snoc bs z)
  then have z: "t_tail l = Some z" "seg m (t_head l) (bs @ [z])" "distinct (bs @ [z])" using h by (auto simp: holds_def)
  obtain n where n: "cells m z = Some n" using seg_cells [OF z(2), of z] by auto
  let ?m = "m\<lparr>cells := (cells m)(z := Some (upd (Some a) n))\<rparr>"
  obtain l' where l': "ins a m l = Inr (?m, l')" "t_head l' = t_head l" "t_tail l' = Some a"
    using ins_behind [OF z(1) n, of a] by auto
  have "seg ?m (t_head l) (bs @ [z, a])" using seg_snoc [OF z(2,3) n a(2,3)] a(1) snoc by simp
  then have "holds ?m l' (as @ [a])" using l' z(3) snoc a(1) by (simp add: holds_def)
  then show ?thesis using l'(1) snoc n by (intro exI [of _ ?m] exI [of _ l']) auto
qed

lemma wipe_ok:
  assumes "seg m p as" and "distinct as" and "length as < k"
  shows "\<exists>m'. wipe k m p = Inr m' \<and> (\<forall>a. cells m' a = (if a \<in> set as then None else cells m a)) \<and>
    quota m' = quota m + length as"
  using assms
proof (induction as arbitrary: m p k)
  case Nil
  then show ?case using wipe_end by (cases k) auto
next
  case (Cons a as)
  then obtain k' where k: "k = Suc k'" by (cases k) auto
  obtain n where n: "p = Some a" "cells m a = Some n" "seg m (nx n) as" using Cons.prems(1) by auto
  let ?m = "m\<lparr>cells := (cells m)(a := None), quota := Suc (quota m)\<rparr>"
  have sg: "seg ?m (nx n) as" by (rule seg_frame [OF n(3)]) (use Cons.prems(2) in auto)
  obtain m' where "wipe k' ?m (nx n) = Inr m'" "\<forall>b. cells m' b = (if b \<in> set as then None else cells ?m b)"
      "quota m' = quota ?m + length as"
    using Cons.IH [OF sg, of k'] Cons.prems(2,3) k by auto
  then show ?case using wipe_node [OF n(2), of k'] n(1,2) k by (auto simp: free_def)
qed

end

end
