(* ===== verification/Server.thy ===== *)
theory Server
  imports Server_Worker Tail_List
begin

text \<open>
  The rest of \<open>client-server/server.c\<close>: the list of threads, \<open>search_directory\<close>,
  \<open>print_buffer\<close>, \<open>handle_client_request\<close> as a system of threads that run in any order, and
  the process loop \<open>watch_queue\<close> with \<open>main\<close>.
\<close>

section \<open>The list of threads\<close>

record snode =
  s_next :: ptr
  s_tid :: nat

record slist = tl +
  threadcount :: int
  overallthreadcount :: int

record thread_args =
  filepath :: string
  fname :: "nat option"
  ta_keyword :: string

definition server_create_node :: "snode mem \<Rightarrow> (nat \<times> snode mem) res" where
  "server_create_node m =
     (case malloc \<lparr>s_next = None, s_tid = 0\<rparr> m of
        (None, m') \<Rightarrow> Inl (Exit (-1))
      | (Some a, m') \<Rightarrow> Inr (a, m'))"

definition empty_slist :: slist where
  "empty_slist = \<lparr>t_head = None, t_tail = None, threadcount = 0, overallthreadcount = 0\<rparr>"

definition server_create_list :: "snode mem \<Rightarrow> (slist \<times> snode mem) res" where
  "server_create_list m =
     (case malloc_other m of
        None \<Rightarrow> Inl (Exit (-1))
      | Some m' \<Rightarrow> Inr (empty_slist, m'))"

definition server_insert_tail :: "nat \<Rightarrow> snode mem \<Rightarrow> slist \<Rightarrow> (snode mem \<times> slist) res" where
  "server_insert_tail a m l =
     (if t_head l = None \<and> t_tail l = None then
        Inr (m, l\<lparr>t_head := Some a, t_tail := Some a, threadcount := threadcount l + 1,
                  overallthreadcount := overallthreadcount l + 1\<rparr>)
      else
        bindE (store (t_tail l) (s_next_update (\<lambda>_. Some a)) m) (\<lambda>m.
        Inr (m, l\<lparr>t_tail := Some a, threadcount := threadcount l + 1,
                  overallthreadcount := overallthreadcount l + 1\<rparr>)))"

fun server_destroy_loop :: "nat \<Rightarrow> snode mem \<Rightarrow> ptr \<Rightarrow> snode mem res" where
  "server_destroy_loop 0 m p = Inl Diverge"
| "server_destroy_loop (Suc k) m p =
     (case p of
        None \<Rightarrow> Inr m
      | Some a \<Rightarrow>
          bindE (deref m p) (\<lambda>n.
          bindE (free a m) (\<lambda>m. server_destroy_loop k m (s_next n))))"

definition server_destroy_list :: "snode mem \<Rightarrow> slist \<Rightarrow> snode mem res" where
  "server_destroy_list m l =
     bindE (server_destroy_loop (Suc (brk m)) m (t_head l)) (\<lambda>m. Inr (free_other m))"

text \<open>
  \<open>create_thread_args\<close>: \<open>strdup\<close> of a missing keyword reads through a null pointer. The file
  name is not copied: it stays a pointer to the directory entry.
\<close>

definition create_thread_args ::
    "string \<Rightarrow> nat option \<Rightarrow> string option \<Rightarrow> thread_args mem \<Rightarrow> (nat \<times> thread_args mem) res" where
  "create_thread_args fp fn kw m =
     (case kw of
        None \<Rightarrow> (if quota m = 0 then Inl (Exit (-1)) else Inl NullDeref)
      | Some k \<Rightarrow>
          (case malloc \<lparr>filepath = fp, fname = fn, ta_keyword = k\<rparr> m of
             (None, m') \<Rightarrow> Inl (Exit (-1))
           | (Some a, m') \<Rightarrow> Inr (a, m')))"

section \<open>Starting the workers\<close>

text \<open>
  What \<open>search_directory\<close> has built so far: the two heaps, the list, the arguments of the
  threads that run, and how many more threads the system lets it create (a failing
  \<open>pthread_create\<close> is not noticed).
\<close>

record sctx =
  sheap :: "snode mem"
  aheap :: "thread_args mem"
  slst :: slist
  running :: "nat option list"
  tleft :: nat

text \<open>
  \<open>pad n\<close> is the number of bytes behind a variable length array of \<open>n\<close> bytes that can be
  overwritten without harm; the path needs two more bytes than its array has.
\<close>

definition start_worker :: "string \<Rightarrow> nat \<Rightarrow> string option \<Rightarrow> sctx \<Rightarrow> sctx res" where
  "start_worker fp i kw c =
     bindE (server_create_node (sheap c)) (\<lambda>(a, sm).
     bindE (create_thread_args fp (Some i) kw (aheap c)) (\<lambda>(t, am).
     bindE (server_insert_tail a sm (slst c)) (\<lambda>(sm, l).
     Inr (c\<lparr>sheap := sm, aheap := am, slst := l,
            running := running c @ [if tleft c = 0 then None else Some t], tleft := tleft c - 1\<rparr>))))"

fun scan_loop :: "fsys \<Rightarrow> (nat \<Rightarrow> nat) \<Rightarrow> string \<Rightarrow> string option \<Rightarrow> string list \<Rightarrow> nat \<Rightarrow> sctx \<Rightarrow> sctx res" where
  "scan_loop fs pad dir kw [] i c = Inr c"
| "scan_loop fs pad dir kw (d # ds) i c =
     (if pad (length dir + length d) < 2 then Inl Overflow
      else if dot_name d then scan_loop fs pad dir kw ds (Suc i) c
      else
        case stat fs (join_path dir d) of
          None \<Rightarrow> Inl Uninit
        | Some md \<Rightarrow>
            if md = S_IFREG then
              bindE (start_worker (join_path dir d) i kw c) (\<lambda>c. scan_loop fs pad dir kw ds (Suc i) c)
            else scan_loop fs pad dir kw ds (Suc i) c)"

text \<open>The printer's node and arguments; its thread starts before its node is in the list.\<close>

definition make_printer :: "string option \<Rightarrow> sctx \<Rightarrow> (nat \<times> sctx) res" where
  "make_printer kw c =
     bindE (server_create_node (sheap c)) (\<lambda>(a, sm).
     bindE (create_thread_args ''dummy'' None kw (aheap c)) (\<lambda>(t, am).
     Inr (a, c\<lparr>sheap := sm, aheap := am\<rparr>)))"

definition search_directory ::
    "fsys \<Rightarrow> (nat \<Rightarrow> nat) \<Rightarrow> string \<Rightarrow> string option \<Rightarrow> sctx \<Rightarrow> sctx res" where
  "search_directory fs pad dir kw c =
     (case opendir fs dir of
        None \<Rightarrow> Inl NullDeref
      | Some ds \<Rightarrow>
          bindE (scan_loop fs pad dir kw ds 0 c) (\<lambda>c.
          bindE (make_printer kw c) (\<lambda>(a, c).
          bindE (server_insert_tail a (sheap c) (slst c)) (\<lambda>(sm, l).
          Inr (c\<lparr>sheap := sm, slst := l\<rparr>)))))"

text \<open>The join loop at the end: one node per created thread, starting at the head.\<close>

fun join_loop :: "nat \<Rightarrow> snode mem \<Rightarrow> ptr \<Rightarrow> nat list \<Rightarrow> nat list res" where
  "join_loop 0 m p acc = Inr acc"
| "join_loop (Suc k) m p acc =
     bindE (deref m p) (\<lambda>n. join_loop k m (s_next n) (acc @ [the p]))"

text \<open>
  The sequential part of \<open>handle_client_request\<close>: the request is split, the threads are
  started, and in the end joined and the list freed. What the threads do in between is the
  system below.
\<close>

definition split_request :: "string \<Rightarrow> string option \<times> string option" where
  "split_request request =
     (case strtok_r '' '' request of
        None \<Rightarrow> (None, None)
      | Some (directory_path, context) \<Rightarrow> (Some directory_path, map_option fst (strtok_r '' '' context)))"

definition init_sctx :: "slist \<Rightarrow> snode mem \<Rightarrow> nat \<Rightarrow> nat \<Rightarrow> sctx" where
  "init_sctx l m qa tq = \<lparr>sheap = m, aheap = empty_mem qa, slst = l, running = [], tleft = tq\<rparr>"

text \<open>\<open>qn\<close>, \<open>qa\<close>, \<open>tq\<close>: how many list objects, thread arguments and threads can be created.\<close>

definition start_request :: "fsys \<Rightarrow> (nat \<Rightarrow> nat) \<Rightarrow> string \<Rightarrow> nat \<Rightarrow> nat \<Rightarrow> nat \<Rightarrow> sctx res" where
  "start_request fs pad request qn qa tq =
     (case split_request request of
        (directory_path, keyword) \<Rightarrow>
          bindE (server_create_list (empty_mem qn)) (\<lambda>(l, m).
          case directory_path of
            None \<Rightarrow> Inl NullDeref
          | Some dir \<Rightarrow> search_directory fs pad dir keyword (init_sctx l m qa tq)))"

definition finish_request :: "sctx \<Rightarrow> (nat list \<times> snode mem) res" where
  "finish_request c =
     bindE (join_loop (nat (overallthreadcount (slst c))) (sheap c) (t_head (slst c)) []) (\<lambda>joined.
     bindE (server_destroy_list (sheap c) (slst c)) (\<lambda>m. Inr (joined, m)))"

section \<open>The threads of a request\<close>

text \<open>
  What the printer writes for an item: \<open>linenumber[5]\<close> and \<open>linebuff[2048]\<close> are fixed arrays.
  An item that is not a line ends a worker; for it there is nothing to write.
\<close>

definition MAXOUTSIZE :: nat where "MAXOUTSIZE = 2048"

definition print_item :: "(nat \<Rightarrow> string option) \<Rightarrow> item \<Rightarrow> string option res" where
  "print_item d_name it =
     (if linenumber it \<noteq> -1 then
        (case filename it of
           None \<Rightarrow> Inl Uninit
         | Some i \<Rightarrow>
             (case d_name i of
                None \<Rightarrow> Inl BadAddr
              | Some nm \<Rightarrow>
                  (case line it of
                     None \<Rightarrow> Inl Uninit
                   | Some l \<Rightarrow>
                       let ln = dec (linenumber it);
                           linebuff = nm @ '':'' @ ln @ '':'' @ cstr l
                       in if length ln + 1 > 5 then Inl Overflow
                          else if length linebuff + 1 > MAXOUTSIZE then Inl Overflow
                          else Inr (Some linebuff))))
      else Inr None)"

text \<open>
  Where the main thread is. \<open>Scan k\<close>: \<open>k\<close> workers are created and counted; \<open>Created k\<close>: one
  more is created and not yet counted; \<open>PrinterMade\<close>: the printer is created; \<open>Counting v\<close>:
  \<open>insert_tail\<close> has read \<open>v\<close> from \<open>threadcount\<close> and has not stored \<open>v + 1\<close> yet; \<open>Inserted\<close>:
  before \<open>closedir\<close>; \<open>Spin\<close>: in \<open>while (threadcount != 0)\<close>; \<open>Joining\<close>: in the join loop.
\<close>

datatype main_pc =
  Scan nat | Created nat | PrinterMade | Counting int | Inserted | Spin | Joining | Joined

text \<open>
  Where the printer is. \<open>Check\<close>: before the test of its loop; \<open>Wait\<close>: before taking an item;
  \<open>Have it\<close>: with an item; \<open>Dec v\<close>: \<open>threadcount--\<close> of the loop has read \<open>v\<close> and not stored
  \<open>v - 1\<close> yet; \<open>Leave\<close> and \<open>Last v\<close>: the same for the \<open>threadcount--\<close> behind the loop.
\<close>

datatype printer_pc =
  NoPrinter | Check | Wait | Have item | Dec int | Leave | Last int | Exited

record serv =
  mpc :: main_pc
  ppc :: printer_pc
  tb :: tbuf
  todo :: "item list list"
  got :: "item list"
  tcount :: int
  sout :: string

definition serve_init :: "nat \<Rightarrow> item list list \<Rightarrow> serv" where
  "serve_init n progs =
     \<lparr>mpc = Scan 0, ppc = NoPrinter, tb = init_buffer n, todo = progs, got = [], tcount = 0, sout = []\<rparr>"

definition started :: "serv \<Rightarrow> nat \<Rightarrow> bool" where
  "started s i = (case mpc s of Scan k \<Rightarrow> i < k | Created k \<Rightarrow> i \<le> k | _ \<Rightarrow> True)"

text \<open>
  One step of one thread, in any order. \<open>threadcount\<close> is an ordinary variable that the main
  thread increments and the printer decrements, so that a read and the store that follows it
  are two steps wherever the other thread can come between them; while the workers are
  created there is no printer yet. \<open>names s i\<close> is what the memory of the directory entry \<open>i\<close>
  reads as in the state \<open>s\<close> (\<open>None\<close>: it cannot be read): the entry belongs to the directory
  stream, where a later \<open>readdir\<close> may overwrite it, and \<open>closedir\<close> frees it, so nothing is
  assumed of \<open>names\<close>. A thread that has to wait has no step, and neither has a printer whose
  item leads to an access outside its memory.
\<close>

inductive serve_step :: "(serv \<Rightarrow> nat \<Rightarrow> string option) \<Rightarrow> serv \<Rightarrow> serv \<Rightarrow> bool"
  for names where
  spawn: "mpc s = Scan k \<Longrightarrow> k < length (todo s) \<Longrightarrow> serve_step names s (s\<lparr>mpc := Created k\<rparr>)"
| insert: "mpc s = Created k \<Longrightarrow> serve_step names s (s\<lparr>mpc := Scan (Suc k), tcount := tcount s + 1\<rparr>)"
| spawn_printer: "mpc s = Scan k \<Longrightarrow> length (todo s) \<le> k \<Longrightarrow>
    serve_step names s (s\<lparr>mpc := PrinterMade, ppc := Check\<rparr>)"
| read_count: "mpc s = PrinterMade \<Longrightarrow> serve_step names s (s\<lparr>mpc := Counting (tcount s)\<rparr>)"
| insert_printer: "mpc s = Counting v \<Longrightarrow> serve_step names s (s\<lparr>mpc := Inserted, tcount := v + 1\<rparr>)"
| close_dir: "mpc s = Inserted \<Longrightarrow> serve_step names s (s\<lparr>mpc := Spin\<rparr>)"
| leave_spin: "mpc s = Spin \<Longrightarrow> tcount s = 0 \<Longrightarrow> serve_step names s (s\<lparr>mpc := Joining\<rparr>)"
| join: "mpc s = Joining \<Longrightarrow> \<forall>p \<in> set (todo s). p = [] \<Longrightarrow> ppc s = Exited \<Longrightarrow>
    serve_step names s (s\<lparr>mpc := Joined\<rparr>)"
| work: "started s i \<Longrightarrow> i < length (todo s) \<Longrightarrow> todo s ! i = r # t \<Longrightarrow> worker_put r (tb s) = Inr b \<Longrightarrow>
    serve_step names s (s\<lparr>todo := (todo s)[i := t], tb := b\<rparr>)"
| more: "ppc s = Check \<Longrightarrow> tcount s \<noteq> 1 \<Longrightarrow> serve_step names s (s\<lparr>ppc := Wait\<rparr>)"
| no_more: "ppc s = Check \<Longrightarrow> tcount s = 1 \<Longrightarrow> serve_step names s (s\<lparr>ppc := Leave\<rparr>)"
| take: "ppc s = Wait \<Longrightarrow> printer_take (tb s) = Inr (it, b) \<Longrightarrow>
    serve_step names s (s\<lparr>ppc := Have it, tb := b, got := got s @ [it]\<rparr>)"
| print: "ppc s = Have it \<Longrightarrow> print_item (names s) it = Inr (Some l) \<Longrightarrow>
    serve_step names s (s\<lparr>ppc := Check, sout := sout s @ l\<rparr>)"
| worker_gone: "ppc s = Have it \<Longrightarrow> print_item (names s) it = Inr None \<Longrightarrow>
    serve_step names s (s\<lparr>ppc := Dec (tcount s)\<rparr>)"
| count_down: "ppc s = Dec v \<Longrightarrow> serve_step names s (s\<lparr>ppc := Check, tcount := v - 1\<rparr>)"
| leave: "ppc s = Leave \<Longrightarrow> serve_step names s (s\<lparr>ppc := Last (tcount s)\<rparr>)"
| finish: "ppc s = Last v \<Longrightarrow> serve_step names s (s\<lparr>ppc := Exited, tcount := v - 1\<rparr>)"

inductive_cases serve_stepE: "serve_step names s s'"

section \<open>The processes\<close>

text \<open>
  The loop of \<open>watch_queue\<close> as the parent process runs it; \<open>forks\<close> are the values \<open>fork\<close>
  returns. Only the value of the last \<open>fork\<close> is looked at after the loop. The result is that
  value, the request buffer, the number of \<open>fork\<close> calls, the queue and the shared objects.
\<close>

fun watch_loop ::
    "int list \<Rightarrow> int \<Rightarrow> string \<Rightarrow> nat \<Rightarrow> server_queue \<Rightarrow> ipc \<Rightarrow>
      (int \<times> string \<times> nat \<times> server_queue \<times> ipc) res" where
  "watch_loop forks pid request_buffer process_count q x =
     (if pid \<noteq> 0 \<and> request_buffer \<noteq> ''exit'' then
        case forks of
          [] \<Rightarrow> Inl Diverge
        | f # fk \<Rightarrow>
            bindE (dequeue q x) (\<lambda>(r, q, x). watch_loop fk f r (process_count + 1) q x)
      else Inr (pid, request_buffer, process_count, q, x))"

datatype outcome = Parent ipc | Child string | Idle

definition watch_queue :: "int list \<Rightarrow> int \<Rightarrow> ipc \<Rightarrow> outcome res" where
  "watch_queue forks req_queue_size x =
     bindE (create_queue req_queue_size x) (\<lambda>(q, x).
     bindE (watch_loop forks 1 [] 0 q x) (\<lambda>(pid, request_buffer, process_count, q, x).
     if pid < 0 then Inl (Exit 1)
     else if pid = 0 then (if request_buffer \<noteq> [] then Inr (Child request_buffer) else Inr Idle)
     else Inr (Parent (unlink_queue q x))))"

definition server_main :: "int list \<Rightarrow> string list \<Rightarrow> ipc \<Rightarrow> (int \<times> outcome option) res" where
  "server_main forks argv x =
     (if length argv \<noteq> 3 then Inr (1, None)
      else bindE (watch_queue forks (atoi (argv ! 1)) x) (\<lambda>r. Inr (0, Some r)))"

declare watch_loop.simps [simp del]

section \<open>The list of threads: lemmas\<close>

interpretation sl: tail_list s_next "\<lambda>p. s_next_update (\<lambda>_. p)" server_insert_tail server_destroy_loop
  by unfold_locales (auto simp: server_insert_tail_def deref_Some store_Some)

text \<open>The directory entries that get a worker, with their numbers and paths.\<close>

fun worker_files :: "fsys \<Rightarrow> string \<Rightarrow> string list \<Rightarrow> nat \<Rightarrow> (nat \<times> string) list" where
  "worker_files fs dir [] i = []"
| "worker_files fs dir (d # ds) i =
     (if \<not> dot_name d \<and> stat fs (join_path dir d) = Some S_IFREG then [(i, join_path dir d)] else []) @
     worker_files fs dir ds (Suc i)"

definition stats_ok :: "fsys \<Rightarrow> string \<Rightarrow> string list \<Rightarrow> bool" where
  "stats_ok fs dir ds \<longleftrightarrow> (\<forall>d \<in> set ds. dot_name d \<or> stat fs (join_path dir d) \<noteq> None)"

definition args_of :: "string \<Rightarrow> nat \<times> string \<Rightarrow> thread_args" where
  "args_of kw w = \<lparr>filepath = snd w, fname = Some (fst w), ta_keyword = kw\<rparr>"

definition sctx_inv :: "string \<Rightarrow> (nat \<times> string) list \<Rightarrow> sctx \<Rightarrow> nat list \<Rightarrow> bool" where
  "sctx_inv kw ws c as \<longleftrightarrow>
     sl.holds (sheap c) (slst c) as \<and> (\<forall>a. cells (sheap c) a \<noteq> None \<longleftrightarrow> a \<in> set as) \<and>
     mem_ok (sheap c) \<and> mem_ok (aheap c) \<and>
     threadcount (slst c) = int (length as) \<and> overallthreadcount (slst c) = int (length as) \<and>
     map (\<lambda>t. Option.bind t (cells (aheap c))) (running c) = map (\<lambda>w. Some (args_of kw w)) ws"

lemma sctx_inv_init: "sctx_inv kw [] (init_sctx empty_slist (empty_mem qn) qa tq) []"
  by (simp add: sctx_inv_def init_sctx_def empty_slist_def sl.holds_def mem_ok_def empty_mem_def)

text \<open>Appending a fresh node, the common part of starting a worker and the printer.\<close>

lemma server_append:
  assumes h: "sl.holds m l as" and own: "\<forall>a. cells m a \<noteq> None \<longleftrightarrow> a \<in> set as" and ok: "mem_ok m" and q: "0 < quota m"
  shows "\<exists>m1 m2 l2. server_create_node m = Inr (brk m, m1) \<and> server_insert_tail (brk m) m1 l = Inr (m2, l2) \<and>
    sl.holds m2 l2 (as @ [brk m]) \<and> (\<forall>a. cells m2 a \<noteq> None \<longleftrightarrow> a \<in> set (as @ [brk m])) \<and> mem_ok m2 \<and>
    quota m2 = quota m - 1 \<and> threadcount l2 = threadcount l + 1 \<and> overallthreadcount l2 = overallthreadcount l + 1"
proof -
  define m1 where "m1 = m\<lparr>cells := (cells m)(brk m := Some \<lparr>s_next = None, s_tid = 0\<rparr>), brk := Suc (brk m), quota := quota m - 1\<rparr>"
  have new: "brk m \<notin> set as" using own [rule_format, of "brk m"] mem_ok_fresh [OF ok] by simp
  have cr: "server_create_node m = Inr (brk m, m1)" using q by (simp add: server_create_node_def malloc_def m1_def)
  have "sl.seg m1 (t_head l) as"
    by (rule sl.seg_frame [of m]) (use h new in \<open>auto simp: sl.holds_def m1_def\<close>)
  then have h1: "sl.holds m1 l as" using h by (simp add: sl.holds_def)
  obtain m2 l2 where ins: "server_insert_tail (brk m) m1 l = Inr (m2, l2)" "sl.holds m2 l2 (as @ [brk m])"
      "brk m2 = brk m1" "quota m2 = quota m1"
      and fr: "\<forall>b. cells m2 b = cells m1 b \<or> (as \<noteq> [] \<and> b = last as \<and>
        cells m2 b = map_option (\<lambda>n. s_next_update (\<lambda>_. Some (brk m)) n) (cells m1 b))"
    using sl.ins_ok [OF h1 new, of "\<lparr>s_next = None, s_tid = 0\<rparr>"] by (auto simp: m1_def)
  have same: "cells m2 b = None \<longleftrightarrow> cells m1 b = None" for b using fr by (metis map_option_is_None)
  have "threadcount l2 = threadcount l + 1" "overallthreadcount l2 = overallthreadcount l + 1"
    using ins(1) by (auto simp: server_insert_tail_def bindE_eq_Inr split: if_splits)
  moreover have "mem_ok m2" using ok same ins(3) unfolding mem_ok_def m1_def by auto
  moreover have "cells m2 a \<noteq> None \<longleftrightarrow> a \<in> set (as @ [brk m])" for a
    using own [rule_format, of a] same [of a] by (auto simp: m1_def)
  ultimately show ?thesis using cr ins by (auto simp: m1_def)
qed

lemma start_worker_ok:
  assumes inv: "sctx_inv kw ws c as" and q: "0 < quota (sheap c)" "0 < quota (aheap c)" "0 < tleft c"
  shows "\<exists>c' a. start_worker fp i (Some kw) c = Inr c' \<and> sctx_inv kw (ws @ [(i, fp)]) c' (as @ [a]) \<and>
    quota (sheap c') = quota (sheap c) - 1 \<and> quota (aheap c') = quota (aheap c) - 1 \<and> tleft c' = tleft c - 1"
proof -
  let ?m = "sheap c" and ?a = "aheap c"
  obtain m1 m2 l2 where s: "server_create_node ?m = Inr (brk ?m, m1)" "server_insert_tail (brk ?m) m1 (slst c) = Inr (m2, l2)"
      "sl.holds m2 l2 (as @ [brk ?m])" "\<forall>a. cells m2 a \<noteq> None \<longleftrightarrow> a \<in> set (as @ [brk ?m])" "mem_ok m2"
      "quota m2 = quota ?m - 1" "threadcount l2 = threadcount (slst c) + 1"
      "overallthreadcount l2 = overallthreadcount (slst c) + 1"
    using server_append [of ?m "slst c" as] inv q(1) by (auto simp: sctx_inv_def)
  let ?a' = "?a\<lparr>cells := (cells ?a)(brk ?a := Some (args_of kw (i, fp))), brk := Suc (brk ?a), quota := quota ?a - 1\<rparr>"
  have ta: "create_thread_args fp (Some i) (Some kw) ?a = Inr (brk ?a, ?a')"
    using q(2) by (simp add: create_thread_args_def malloc_def args_of_def)
  have ok: "mem_ok ?a" using inv by (simp add: sctx_inv_def)
  have "Option.bind t (cells ?a') = Option.bind t (cells ?a)" if "t \<in> set (running c)" for t
  proof -
    have "Option.bind t (cells ?a) \<in> set (map (\<lambda>w. Some (args_of kw w)) ws)"
      using that inv unfolding sctx_inv_def by (metis (no_types, lifting) image_eqI list.set_map)
    then have "t \<noteq> Some (brk ?a)" using mem_ok_fresh [OF ok] by auto
    then show ?thesis by (cases t) auto
  qed
  then have "map (\<lambda>t. Option.bind t (cells ?a')) (running c) = map (\<lambda>w. Some (args_of kw w)) ws"
    using inv unfolding sctx_inv_def by (metis (no_types, lifting) map_cong)
  moreover have "mem_ok ?a'" using ok by (simp add: mem_ok_def)
  ultimately have "sctx_inv kw (ws @ [(i, fp)])
      (c\<lparr>sheap := m2, aheap := ?a', slst := l2, running := running c @ [Some (brk ?a)], tleft := tleft c - 1\<rparr>)
      (as @ [brk ?m])"
    using inv s by (simp add: sctx_inv_def)
  then show ?thesis using s ta q(3) by (auto simp: start_worker_def)
qed

text \<open>Whether every path of the directory fits its array and the two bytes behind it.\<close>

definition paths_fit :: "(nat \<Rightarrow> nat) \<Rightarrow> string \<Rightarrow> string list \<Rightarrow> bool" where
  "paths_fit pad dir ds \<longleftrightarrow> (\<forall>d \<in> set ds. 2 \<le> pad (length dir + length d))"

lemma paths_fit_simps [simp]:
  "paths_fit pad dir []"
  "paths_fit pad dir (d # ds) \<longleftrightarrow> 2 \<le> pad (length dir + length d) \<and> paths_fit pad dir ds"
  by (simp_all add: paths_fit_def)

text \<open>What the loop has done when it is through: one more node and thread per file.\<close>

definition scanned :: "string \<Rightarrow> (nat \<times> string) list \<Rightarrow> (nat \<times> string) list \<Rightarrow> sctx \<Rightarrow> nat list \<Rightarrow> sctx \<Rightarrow> bool" where
  "scanned kw ws new c as c' \<longleftrightarrow>
     (\<exists>as'. sctx_inv kw (ws @ new) c' (as @ as') \<and> length as' = length new \<and>
        quota (sheap c') = quota (sheap c) - length new \<and> quota (aheap c') = quota (aheap c) - length new)"

lemma scan_loop_ok:
  assumes "sctx_inv kw ws c as" and "stats_ok fs dir ds"
    and "length (worker_files fs dir ds i) \<le> quota (sheap c)"
    and "length (worker_files fs dir ds i) \<le> quota (aheap c)" and "length (worker_files fs dir ds i) \<le> tleft c"
  shows "if paths_fit pad dir ds
    then \<exists>c'. scan_loop fs pad dir (Some kw) ds i c = Inr c' \<and> scanned kw ws (worker_files fs dir ds i) c as c'
    else scan_loop fs pad dir (Some kw) ds i c = Inl Overflow"
  using assms
proof (induction ds arbitrary: i c ws as)
  case Nil
  then show ?case by (auto simp: scanned_def)
next
  case (Cons d ds)
  have st: "stats_ok fs dir ds" using Cons.prems(2) by (simp add: stats_ok_def)
  show ?case
  proof (cases "\<not> dot_name d \<and> stat fs (join_path dir d) = Some S_IFREG")
    case True
    let ?new = "worker_files fs dir ds (Suc i)"
    obtain c1 a where c1: "start_worker (join_path dir d) i (Some kw) c = Inr c1"
        "sctx_inv kw (ws @ [(i, join_path dir d)]) c1 (as @ [a])" "quota (sheap c1) = quota (sheap c) - 1"
        "quota (aheap c1) = quota (aheap c) - 1" "tleft c1 = tleft c - 1"
      using start_worker_ok [OF Cons.prems(1), of "join_path dir d" i] Cons.prems(3-5) True by auto
    have len: "length ?new \<le> quota (sheap c1)" "length ?new \<le> quota (aheap c1)" "length ?new \<le> tleft c1"
      using Cons.prems(3-5) True c1(3-5) by auto
    have "scanned kw ws ((i, join_path dir d) # ?new) c as c'"
      if "scanned kw (ws @ [(i, join_path dir d)]) ?new c1 (as @ [a]) c'" for c'
    proof -
      obtain as' where "sctx_inv kw ((ws @ [(i, join_path dir d)]) @ ?new) c' ((as @ [a]) @ as')" "length as' = length ?new"
          "quota (sheap c') = quota (sheap c1) - length ?new" "quota (aheap c') = quota (aheap c1) - length ?new"
        using \<open>scanned _ _ _ c1 _ c'\<close> unfolding scanned_def by blast
      then show ?thesis using c1(3,4) unfolding scanned_def by (intro exI [of _ "a # as'"]) simp
    qed
    then show ?thesis using Cons.IH [OF c1(2) st len] True c1(1) by (auto split: if_splits)
  next
    case False
    then have "worker_files fs dir (d # ds) i = worker_files fs dir ds (Suc i)" by simp
    then show ?thesis
      using Cons.IH [OF Cons.prems(1) st, of "Suc i"] Cons.prems(2-5) False
      by (auto simp: stats_ok_def split: option.split if_splits)
  qed
qed

lemma search_directory_overrun:
  assumes ds: "opendir fs dir = Some ds" and "stats_ok fs dir ds" and "\<not> paths_fit pad dir ds"
    and q: "length (worker_files fs dir ds 0) < qn" "length (worker_files fs dir ds 0) < qa"
      "length (worker_files fs dir ds 0) \<le> tq"
  shows "search_directory fs pad dir (Some kw) (init_sctx empty_slist (empty_mem qn) qa tq) = Inl Overflow"
  using scan_loop_ok [OF sctx_inv_init assms(2), of 0 qn qa tq pad kw] assms(3) q ds
  by (auto simp: init_sctx_def empty_mem_def search_directory_def)

lemma search_directory_ok:
  assumes ds: "opendir fs dir = Some ds" and "stats_ok fs dir ds" and "paths_fit pad dir ds"
    and q: "length (worker_files fs dir ds 0) < qn" "length (worker_files fs dir ds 0) < qa"
      "length (worker_files fs dir ds 0) \<le> tq"
  shows "\<exists>c as. search_directory fs pad dir (Some kw) (init_sctx empty_slist (empty_mem qn) qa tq) = Inr c \<and>
    sctx_inv kw (worker_files fs dir ds 0) c as \<and> length as = Suc (length (worker_files fs dir ds 0))"
proof -
  let ?c = "init_sctx empty_slist (empty_mem qn) qa tq" and ?ws = "worker_files fs dir ds 0"
  obtain c as where c: "scan_loop fs pad dir (Some kw) ds 0 ?c = Inr c" "sctx_inv kw ?ws c as" "length as = length ?ws"
      "quota (sheap c) = quota (sheap ?c) - length as" "quota (aheap c) = quota (aheap ?c) - length as"
    using scan_loop_ok [OF sctx_inv_init assms(2), of 0 qn qa tq pad kw] assms(3) q
    by (auto simp: init_sctx_def empty_mem_def scanned_def)
  have qc: "0 < quota (sheap c)" "0 < quota (aheap c)" using c(3-5) q by (simp_all add: init_sctx_def empty_mem_def)
  let ?m = "sheap c" and ?a = "aheap c"
  obtain m1 m2 l2 where s: "server_create_node ?m = Inr (brk ?m, m1)" "server_insert_tail (brk ?m) m1 (slst c) = Inr (m2, l2)"
      "sl.holds m2 l2 (as @ [brk ?m])" "\<forall>a. cells m2 a \<noteq> None \<longleftrightarrow> a \<in> set (as @ [brk ?m])" "mem_ok m2"
      "threadcount l2 = threadcount (slst c) + 1" "overallthreadcount l2 = overallthreadcount (slst c) + 1"
    using server_append [of ?m "slst c" as] c(2) qc(1) by (auto simp: sctx_inv_def)
  define a' where "a' = ?a\<lparr>cells := (cells ?a)(brk ?a := Some \<lparr>filepath = ''dummy'', fname = None, ta_keyword = kw\<rparr>),
    brk := Suc (brk ?a), quota := quota ?a - 1\<rparr>"
  have ta: "create_thread_args ''dummy'' None (Some kw) ?a = Inr (brk ?a, a')"
    using qc(2) by (simp add: create_thread_args_def malloc_def a'_def)
  have ok: "mem_ok ?a" using c(2) by (simp add: sctx_inv_def)
  have "Option.bind t (cells a') = Option.bind t (cells ?a)" if "t \<in> set (running c)" for t
  proof -
    have "Option.bind t (cells ?a) \<in> set (map (\<lambda>w. Some (args_of kw w)) ?ws)"
      using that c(2) unfolding sctx_inv_def by (metis (no_types, lifting) image_eqI list.set_map)
    then have "t \<noteq> Some (brk ?a)" using mem_ok_fresh [OF ok] by auto
    then show ?thesis by (cases t) (auto simp: a'_def)
  qed
  then have "map (\<lambda>t. Option.bind t (cells a')) (running c) = map (\<lambda>w. Some (args_of kw w)) ?ws"
    using c(2) unfolding sctx_inv_def by (metis (no_types, lifting) map_cong)
  moreover have "mem_ok a'" using ok by (simp add: mem_ok_def a'_def)
  ultimately have "sctx_inv kw ?ws (c\<lparr>aheap := a', sheap := m2, slst := l2\<rparr>) (as @ [brk ?m])"
    using c(2) s by (simp add: sctx_inv_def)
  moreover have "search_directory fs pad dir (Some kw) ?c = Inr (c\<lparr>aheap := a', sheap := m2, slst := l2\<rparr>)"
    using ds c(1) s(1,2) ta by (simp add: search_directory_def make_printer_def)
  ultimately show ?thesis using c(3) by (metis length_append_singleton)
qed

lemma join_loop_ok: "sl.seg m p as \<Longrightarrow> join_loop (length as) m p acc = Inr (acc @ as)"
  by (induction as arbitrary: p acc) (auto simp: deref_Some)

lemma seg_length:
  assumes "sl.seg m p as" and "distinct as" and "mem_ok m"
  shows "length as \<le> brk m"
proof -
  have "set as \<subseteq> {..<brk m}"
  proof
    fix a assume "a \<in> set as"
    then obtain n where "cells m a = Some n" using sl.seg_cells [OF assms(1)] by blast
    then show "a \<in> {..<brk m}" using mem_ok_less [OF assms(3)] by simp
  qed
  then show ?thesis using distinct_card [OF assms(2)] card_mono [of "{..<brk m}" "set as"] by simp
qed

lemma finish_request_ok:
  assumes "sctx_inv kw ws c as"
  shows "\<exists>m. finish_request c = Inr (as, m) \<and> (\<forall>a. cells m a = None)"
proof -
  have h: "sl.seg (sheap c) (t_head (slst c)) as" "distinct as" "mem_ok (sheap c)"
      "nat (overallthreadcount (slst c)) = length as" and own: "\<forall>a. cells (sheap c) a \<noteq> None \<longleftrightarrow> a \<in> set as"
    using assms by (auto simp: sctx_inv_def sl.holds_def)
  obtain m where "server_destroy_list (sheap c) (slst c) = Inr m"
      "\<forall>a. cells m a = (if a \<in> set as then None else cells (sheap c) a)"
    using sl.wipe_ok [OF h(1,2), of "Suc (brk (sheap c))"] seg_length [OF h(1-3)]
    by (auto simp: server_destroy_list_def free_other_def simp del: server_destroy_loop.simps)
  then show ?thesis using own join_loop_ok [OF h(1), of "[]"] h(4) by (auto simp: finish_request_def)
qed

end
