(* ===== verification/Server_Run.thy ===== *)
theory Server_Run
  imports Server "HOL-Library.Sublist"
begin

text \<open>
  Runs of the threads of one request, under every schedule: what is printed at any moment, that
  every run ends, and that a run whose printer starts after its node is counted delivers every
  line. A printer that starts before can leave the main thread waiting for ever or the output
  empty.
\<close>

section \<open>Programs of the workers\<close>

definition is_dummy :: "item \<Rightarrow> bool" where
  "is_dummy it \<longleftrightarrow> linenumber it = -1"


definition dummies :: "item list \<Rightarrow> nat" where
  "dummies xs = length (filter is_dummy xs)"

lemma dummies_simps [simp]:
  "dummies [] = 0" "dummies (xs @ ys) = dummies xs + dummies ys"
  "dummies (x # xs) = (if is_dummy x then Suc (dummies xs) else dummies xs)"
  by (simp_all add: dummies_def)








section \<open>What holds under every schedule\<close>

















section \<open>Every run ends\<close>







section \<open>A printer that starts after it is counted\<close>










text \<open>The main thread can start all workers and insert the printer before anything else runs.\<close>

lemma serve_scan: "k \<le> length progs \<Longrightarrow>
  (serve_step names)\<^sup>*\<^sup>* (serve_init n progs) (serve_init n progs\<lparr>mpc := Scan k, tcount := int k\<rparr>)"
proof (induction k)
  case 0
  then show ?case by (simp add: serve_init_def)
next
  case (Suc k)
  let ?s = "serve_init n progs\<lparr>mpc := Scan k, tcount := int k\<rparr>"
  have "serve_step names ?s (?s\<lparr>mpc := Created k\<rparr>)"
    using Suc.prems by (intro serve_step.spawn) (simp_all add: serve_init_def)
  moreover have "serve_step names (?s\<lparr>mpc := Created k\<rparr>) (serve_init n progs\<lparr>mpc := Scan (Suc k), tcount := int (Suc k)\<rparr>)"
    using serve_step.insert [of "?s\<lparr>mpc := Created k\<rparr>" k names] by (simp add: serve_init_def add.commute)
  ultimately show ?case using Suc by (meson Suc_leD rtranclp.rtrancl_into_rtrancl)
qed



text \<open>The first steps of a request for one file whose printer runs before it is counted.\<close>

lemma early_leave:
  "(serve_step names)\<^sup>*\<^sup>* (serve_init n [p]) (serve_init n [p]\<lparr>mpc := PrinterMade, ppc := Last 1, tcount := 1\<rparr>)"
proof -
  let ?s = "serve_init n [p]\<lparr>mpc := Scan 1, tcount := 1\<rparr>"
  let ?t = "?s\<lparr>mpc := PrinterMade, ppc := Check\<rparr>"
  have "serve_step names ?s ?t" by (rule serve_step.spawn_printer [of _ 1]) (simp_all add: serve_init_def)
  moreover have "serve_step names ?t (?t\<lparr>ppc := Leave\<rparr>)" by (rule serve_step.no_more) simp_all
  moreover have "serve_step names (?t\<lparr>ppc := Leave\<rparr>) (serve_init n [p]\<lparr>mpc := PrinterMade, ppc := Last 1, tcount := 1\<rparr>)"
    using serve_step.leave [of "?t\<lparr>ppc := Leave\<rparr>" names] by (simp add: serve_init_def)
  ultimately show ?thesis
    using serve_scan [of 1 "[p]" names n] by (simp add: rtranclp.rtrancl_into_rtrancl)
qed

lemma early_exit:
  "\<exists>t. (serve_step names)\<^sup>*\<^sup>* (serve_init n [p]) t \<and> mpc t = PrinterMade \<and> ppc t = Exited \<and> tcount t = 0 \<and> sout t = []"
proof -
  let ?s = "serve_init n [p]\<lparr>mpc := PrinterMade, ppc := Last 1, tcount := 1\<rparr>"
  have "serve_step names ?s (?s\<lparr>ppc := Exited, tcount := 1 - 1\<rparr>)" by (rule serve_step.finish) simp
  then have "(serve_step names)\<^sup>*\<^sup>* (serve_init n [p]) (?s\<lparr>ppc := Exited, tcount := 1 - 1\<rparr>)"
    using early_leave by (meson rtranclp.rtrancl_into_rtrancl)
  then show ?thesis by (intro exI [of _ "?s\<lparr>ppc := Exited, tcount := 1 - 1\<rparr>"]) (simp add: serve_init_def)
qed

section \<open>The workers of a request\<close>

lemma retrieve_keyword_hits:
  "fopen_r fs fp = Some s \<Longrightarrow> retrieve_keyword fs fp fn kw = Inr (hits kw fn 1 (chunks s) @ [dummyItem])"
  using retrieve_loop_hits [of s "[]" s 0 0 kw fn] by (simp add: retrieve_keyword_def)




text \<open>A chunk ends with the only newline it has, or is full, or ends the file.\<close>

lemma take_line_end:
  "take_line k s = (b, r) \<Longrightarrow> CHR 0x0A \<notin> set (butlast b) \<and> (r = [] \<or> length b = k \<or> b \<noteq> [] \<and> last b = CHR 0x0A)"
proof (induction k s arbitrary: b r rule: take_line.induct)
  case (3 k c s)
  show ?case
  proof (cases "c = CHR 0x0A")
    case False
    obtain b1 where b1: "take_line k s = (b1, r)" "b = c # b1" using "3.prems" False by (auto split: prod.splits)
    then show ?thesis using "3.IH" [OF False b1(1)] False by auto
  qed (use "3.prems" in auto)
qed auto

lemma chunks_end:
  "(\<forall>c \<in> set (chunks s). CHR 0x0A \<notin> set (butlast c)) \<and>
   (\<forall>c \<in> set (butlast (chunks s)). length c = 1023 \<or> c \<noteq> [] \<and> last c = CHR 0x0A)"
proof (induction s rule: chunks.induct)
  case (1 s)
  show ?case
  proof (cases "fgets 1024 s")
    case None
    then show ?thesis by (simp add: chunks.simps [of s])
  next
    case (Some a)
    obtain b rest where a: "a = (b, rest)" by (cases a)
    have "take_line 1023 s = (b, rest)" using Some a by (auto simp: fgets_def split: if_splits)
    from take_line_end [OF this] have b: "CHR 0x0A \<notin> set (butlast b)"
        "rest = [] \<or> length b = 1023 \<or> b \<noteq> [] \<and> last b = CHR 0x0A" by auto
    have "chunks rest \<noteq> []" if "rest \<noteq> []" using that by (auto simp: chunks.simps [of rest] fgets_def split: prod.splits)
    moreover have "chunks [] = []" by (simp add: chunks.simps [of "[]"] fgets_def)
    ultimately show ?thesis using 1 [OF Some a [symmetric]] b Some a by (auto simp: chunks.simps [of s])
  qed
qed













section \<open>Properties\<close>

text \<open>
  C17. A worker puts into the buffer, in the order of the file, one item for every chunk that
  contains the keyword as a blank-separated word, with the number and the full text of that
  chunk, and then one dummy item. In particular the second stream, from which the text is read
  again, is always at the right place. The chunks are what the calls of \<open>fgets\<close> read: put
  together they are the file, and each is a line together with its newline or, of a line of
  more than 1022 characters, a piece of 1023 bytes; the number counts chunks. Both differ from the assignment, which asks for the line without its newline, and
  for line numbers in files with lines of up to 1024 characters: for such a line the number and
  the text are those of a piece, and the lines behind it are numbered too high.
\<close>

theorem worker_finds_lines:
  assumes "fopen_r fs fp = Some s"
  shows "retrieve_keyword fs fp fn kw =
    Inr (map (\<lambda>(i, c). \<lparr>filename = Some fn, linenumber = int i, line = Some c\<rparr>)
           (filter (\<lambda>(i, c). kw \<in> set (tok_words blanks (cstr c))) (enumerate 1 (chunks s))) @ [dummyItem]) \<and>
    concat (chunks s) = s \<and>
    (\<forall>c \<in> set (chunks s). CHR 0x0A \<notin> set (butlast c)) \<and>
    (\<forall>c \<in> set (butlast (chunks s)). length c = 1023 \<or> c \<noteq> [] \<and> last c = CHR 0x0A)"
  using retrieve_keyword_hits [OF assms, of fn kw] chunks_concat [of s] chunks_end [of s] by (simp add: hits_def)

definition demo_files :: fsys where
  "demo_files =
     \<lparr>opendir = (\<lambda>p. if p = ''/d'' then Some [''.'', ''a.c'', ''sub'', ''b.c''] else None),
      stat = map_of [(''/d/a.c'', S_IFREG), (''/d/sub'', S_IFDIR), (''/d/b.c'', S_IFREG)],
      fopen_r = map_of [(''/d/a.c'', ''int x;'' @ [CHR 0x0A] @ ''y'' @ [CHR 0x0A] @ ''for int''), (''/d/b.c'', ''int'')],
      fopen_w = (\<lambda>_. True)\<rparr>"

theorem worker_finds_lines_witness:
  "retrieve_keyword demo_files ''/d/a.c'' 1 ''int'' =
     Inr [\<lparr>filename = Some 1, linenumber = 1, line = Some (''int x;'' @ [CHR 0x0A])\<rparr>,
          \<lparr>filename = Some 1, linenumber = 3, line = Some ''for int''\<rparr>, dummyItem]"
proof -
  have f: "fopen_r demo_files ''/d/a.c'' = Some (''int x;'' @ [CHR 0x0A] @ ''y'' @ [CHR 0x0A] @ ''for int'')" by code_simp
  have c: "chunks (''int x;'' @ [CHR 0x0A] @ ''y'' @ [CHR 0x0A] @ ''for int'') =
      [''int x;'' @ [CHR 0x0A], ''y'' @ [CHR 0x0A], ''for int'']" by code_simp
  have w: "''int'' \<in> set (tok_words blanks (cstr (''int x;'' @ [CHR 0x0A])))"
    "''int'' \<notin> set (tok_words blanks (cstr (''y'' @ [CHR 0x0A])))" "''int'' \<in> set (tok_words blanks (cstr ''for int''))"
    by code_simp+
  show ?thesis using worker_finds_lines [OF f, of 1 "''int''"] w unfolding c by simp
qed







text \<open>
  C19. If the printer runs before its own node is inserted, a request for a directory with
  one file can hang: the printer sees a \<open>threadcount\<close> of 1, leaves without printing anything,
  the insertion then counts it although it is gone, and no continuation lets the main thread's
  loop \<open>while (threadcount != 0)\<close> end.
\<close>

theorem printer_race_hangs:
  "\<exists>s. (serve_step names)\<^sup>*\<^sup>* (serve_init n [p]) s \<and> sout s = [] \<and>
     (\<forall>s'. (serve_step names)\<^sup>*\<^sup>* s s' \<longrightarrow> mpc s' \<noteq> Joined \<and> sout s' = [])"
proof -
  obtain t where t: "(serve_step names)\<^sup>*\<^sup>* (serve_init n [p]) t" "mpc t = PrinterMade" "ppc t = Exited" "tcount t = 0" "sout t = []"
    using early_exit by blast
  define s where "s = t\<lparr>mpc := Inserted, tcount := 1\<rparr>"
  have "serve_step names t (t\<lparr>mpc := Counting 0\<rparr>)" using serve_step.read_count [of t names] t(2,4) by simp
  moreover have "serve_step names (t\<lparr>mpc := Counting 0\<rparr>) s"
    using serve_step.insert_printer [of "t\<lparr>mpc := Counting 0\<rparr>" 0 names] by (simp add: s_def)
  ultimately have run: "(serve_step names)\<^sup>*\<^sup>* (serve_init n [p]) s"
    using t(1) by (meson rtranclp.rtrancl_into_rtrancl)
  have stuck: "(mpc s' = Inserted \<or> mpc s' = Spin) \<and> ppc s' = Exited \<and> tcount s' = 1 \<and> sout s' = []"
    if "(serve_step names)\<^sup>*\<^sup>* s s'" for s'
    using that
  proof (induction rule: rtranclp_induct)
    case (step y z)
    from step(2) show ?case by cases (use step(3) in auto)
  qed (use t in \<open>simp add: s_def\<close>)
  have "mpc s' \<noteq> Joined \<and> sout s' = []" if "(serve_step names)\<^sup>*\<^sup>* s s'" for s'
    using stuck [OF that] by auto
  then show ?thesis using run by blast
qed

theorem printer_race_hangs_witness:
  "\<exists>s. (serve_step (\<lambda>s i. Some ''a.c''))\<^sup>*\<^sup>* (serve_init 4 [[dummyItem]]) s \<and> sout s = [] \<and> mpc s \<noteq> Joined"
  using printer_race_hangs [of "\<lambda>s i. Some ''a.c''" 4 "[dummyItem]"] by blast

text \<open>A worker puts all its items into a buffer with enough room while nobody else runs.\<close>

lemma worker_alone:
  assumes "buf_rep n (tb s) rs M" and "todo s = [p]" and "length rs + length p \<le> n" and "started s 0"
  shows "\<exists>b. (serve_step names)\<^sup>*\<^sup>* s (s\<lparr>todo := [[]], tb := b\<rparr>)"
  using assms
proof (induction p arbitrary: s rs)
  case Nil
  then have "s\<lparr>todo := [[]], tb := tb s\<rparr> = s" by simp
  then show ?case by (metis rtranclp.rtrancl_refl)
next
  case (Cons r p)
  obtain b where b: "worker_put r (tb s) = Inr b" "buf_rep n b (rs @ [r]) M"
    using worker_put_ok [OF Cons.prems(1), of r M] Cons.prems(3) by auto
  let ?t = "s\<lparr>todo := [p], tb := b\<rparr>"
  have "serve_step names s ?t" using serve_step.work [of s 0 r p b names] Cons.prems(2,4) b(1) by simp
  moreover have "\<exists>b'. (serve_step names)\<^sup>*\<^sup>* ?t (?t\<lparr>todo := [[]], tb := b'\<rparr>)"
    using Cons.IH [of ?t "rs @ [r]"] b(2) Cons.prems(3,4) by (simp add: started_def)
  ultimately show ?case by (auto intro: converse_rtranclp_into_rtranclp)
qed

text \<open>
  C20. \<open>threadcount\<close> is read and written by two threads without any lock. If the printer reads it
  for its last \<open>threadcount--\<close> before the main thread stores the incremented value for the
  printer's node, the increment is lost: a request for one file, whose lines fit into the
  buffer, then joins all its threads as if it had been served, and its output is empty
  whatever the file contains.
\<close>

theorem printer_race_loses:
  assumes "retrieve_keyword fs fp i kw = Inr p" and "length p \<le> n" and "0 < n"
  shows "\<exists>s. (serve_step names)\<^sup>*\<^sup>* (serve_init n [p]) s \<and> mpc s = Joined \<and> sout s = []"
proof -
  define a where "a = serve_init n [p]\<lparr>mpc := PrinterMade, ppc := Last 1, tcount := 1\<rparr>"
  define b where "b = a\<lparr>mpc := Counting 1\<rparr>"
  define c where "c = b\<lparr>mpc := Inserted, tcount := 2\<rparr>"
  define d where "d = c\<lparr>ppc := Exited, tcount := 0\<rparr>"
  define e where "e = d\<lparr>mpc := Joining\<rparr>"
  have "serve_step names a b" using serve_step.read_count [of a names] by (simp add: a_def b_def)
  moreover have "serve_step names b c" using serve_step.insert_printer [of b 1 names] by (simp add: b_def c_def)
  moreover have "serve_step names c d" using serve_step.finish [of c 1 names] by (simp add: a_def b_def c_def d_def)
  moreover have "serve_step names d (d\<lparr>mpc := Spin\<rparr>)" by (rule serve_step.close_dir) (simp add: c_def d_def)
  moreover have "serve_step names (d\<lparr>mpc := Spin\<rparr>) e"
    using serve_step.leave_spin [of "d\<lparr>mpc := Spin\<rparr>" names] by (simp add: d_def e_def)
  ultimately have "(serve_step names)\<^sup>*\<^sup>* (serve_init n [p]) e"
    using early_leave [of names n p] unfolding a_def [symmetric] by (meson rtranclp.rtrancl_into_rtrancl)
  moreover obtain t where "(serve_step names)\<^sup>*\<^sup>* e (e\<lparr>todo := [[]], tb := t\<rparr>)"
    using worker_alone [of n e "[]" "{#}" p names] buf_rep_init [OF assms(3)] assms(2)
    by (auto simp: a_def b_def c_def d_def e_def serve_init_def started_def)
  moreover have "serve_step names (e\<lparr>todo := [[]], tb := t\<rparr>) (e\<lparr>todo := [[]], tb := t, mpc := Joined\<rparr>)"
    using serve_step.join [of "e\<lparr>todo := [[]], tb := t\<rparr>" names] by (simp add: d_def e_def)
  ultimately have "(serve_step names)\<^sup>*\<^sup>* (serve_init n [p]) (e\<lparr>todo := [[]], tb := t, mpc := Joined\<rparr>)"
    by (meson rtranclp.rtrancl_into_rtrancl rtranclp_trans)
  then show ?thesis
    by (rule exI [where x = "e\<lparr>todo := [[]], tb := t, mpc := Joined\<rparr>", OF conjI])
      (simp add: a_def b_def c_def d_def e_def serve_init_def)
qed

theorem printer_race_loses_witness:
  "\<exists>p s. retrieve_keyword demo_files ''/d/b.c'' 3 ''int'' = Inr p \<and> length p = 2 \<and>
     (serve_step (\<lambda>s i. Some ''b.c''))\<^sup>*\<^sup>* (serve_init 2 [p]) s \<and> mpc s = Joined \<and> sout s = []"
proof -
  have r: "retrieve_keyword demo_files ''/d/b.c'' 3 ''int'' =
      Inr [\<lparr>filename = Some 3, linenumber = 1, line = Some ''int''\<rparr>, dummyItem]" by code_simp
  show ?thesis using printer_race_loses [OF r, of 2 "\<lambda>s i. Some ''b.c''"] r by auto
qed

text \<open>
  After \<open>closedir\<close> the name an item points to is freed memory: if that memory can no longer
  be read, printing the item is an access to a dangling pointer, and a line number of five
  digits overruns \<open>linenumber[5]\<close>.
\<close>

theorem printer_failures:
  assumes "filename it = Some i" and "line it = Some l" and "0 \<le> linenumber it"
  shows "(d_name i = None \<longrightarrow> print_item d_name it = Inl BadAddr) \<and>
    (d_name i \<noteq> None \<and> 10000 \<le> linenumber it \<longrightarrow> print_item d_name it = Inl Overflow)"
proof -
  have long: "k < length (nat_dec m)" if "10 ^ k \<le> m" for k m
    using that
  proof (induction k arbitrary: m)
    case 0
    then show ?case by (simp add: nat_dec.simps [of m])
  next
    case (Suc k)
    then have "10 ^ k \<le> m div 10" by (simp add: less_eq_div_iff_mult_less_eq mult.commute)
    moreover have "\<not> m < 10" using Suc.prems by (metis le_trans not_less one_le_numeral one_le_power power_Suc mult_le_mono2 mult.right_neutral)
    ultimately show ?case using Suc.IH [of "m div 10"] by (simp add: nat_dec.simps [of m])
  qed
  have "4 < length (dec (linenumber it))" if "10000 \<le> linenumber it"
    using long [of 4 "nat (linenumber it)"] that by (simp add: dec_def)
  then show ?thesis using assms by (auto simp: print_item_def Let_def)
qed

theorem printer_failures_witness:
  "print_item (\<lambda>i. None) \<lparr>filename = Some 0, linenumber = 7, line = Some ''int''\<rparr> = Inl BadAddr \<and>
   print_item (\<lambda>i. Some ''a.c'') \<lparr>filename = Some 0, linenumber = 12345, line = Some ''int''\<rparr> = Inl Overflow"
  using printer_failures [of "\<lparr>filename = Some 0, linenumber = 7, line = Some ''int''\<rparr>" 0 "''int''" "\<lambda>i. None"]
    printer_failures [of "\<lparr>filename = Some 0, linenumber = 12345, line = Some ''int''\<rparr>" 0 "''int''" "\<lambda>i. Some ''a.c''"]
  by simp



text \<open>
  A request without a keyword never gets as far as running its threads: it ends in a null
  pointer or an earlier failure. The server forks a child for the request \<open>exit\<close> too, which is
  such a request.
\<close>

theorem request_without_keyword:
  assumes "split_request request = (d, None)"
  shows "\<exists>e. start_request fs pad request qn qa tq = Inl e"
proof (cases d)
  case None
  then show ?thesis
    using assms by (auto simp: start_request_def server_create_list_def split: option.split)
next
  case (Some dir)
  have "\<exists>e. make_printer None c = Inl e" for c
    by (cases "server_create_node (sheap c)") (auto simp: make_printer_def create_thread_args_def)
  then have "\<exists>e. search_directory fs pad dir None c = Inl e" for c
    by (auto simp: search_directory_def bindE_def split: option.split sum.split) (metis Inl_Inr_False)
  then show ?thesis
    using Some assms by (auto simp: start_request_def server_create_list_def split: option.split)
qed

theorem request_without_keyword_witness:
  "split_request ''exit'' = (Some ''exit'', None) \<and> (\<exists>e. start_request demo_files (\<lambda>_. 15) ''exit'' 9 9 9 = Inl e)"
proof -
  have "split_request ''exit'' = (Some ''exit'', None)" by code_simp
  then show ?thesis using request_without_keyword by blast
qed

text \<open>The process loop on a queue that holds the requests.\<close>

lemma watch_loop_ok:
  assumes "lap_rep cap (cq, sq, x) (rs @ rest) {#}" and "\<forall>r \<in> set (butlast rs). r \<noteq> ''exit''"
    and "rs \<noteq> [] \<longrightarrow> request \<noteq> ''exit''" and "length forks = length rs" and "\<forall>f \<in> set (butlast (pid # forks)). f \<noteq> 0"
    and "last (request # rs) = ''exit'' \<or> last (pid # forks) = 0" and "0 < cap"
  shows "\<exists>sq' x'. watch_loop (forks @ spare) pid request k sq x =
      Inr (last (pid # forks), last (request # rs), k + length rs, sq', x') \<and> lap_rep cap (cq, sq', x') rest {#}"
  using assms
proof (induction rs arbitrary: sq x request forks pid k)
  case Nil
  then show ?case by (auto simp: watch_loop.simps)
next
  case (Cons r rs)
  then obtain f fk where f: "forks = f # fk" by (cases forks) auto
  obtain c where c: "cap = Suc c" using Cons.prems(7) by (cases cap) auto
  obtain s' where s': "q_deq (cq, sq, x) = Inr (r, s')" "lap_rep cap s' (rs @ rest) {#}"
    using rq.deq_ok [of c "(cq, sq, x)" r "rs @ rest" "{#}"] Cons.prems(1) c by auto
  then obtain sq1 x1 where d: "dequeue sq x = Inr (r, sq1, x1)" "s' = (cq, sq1, x1)"
    by (auto simp: q_deq_def bindE_eq_Inr)
  obtain sq' x' where "watch_loop (fk @ spare) f r (k + 1) sq1 x1 =
      Inr (last (f # fk), last (r # rs), k + 1 + length rs, sq', x')" "lap_rep cap (cq, sq', x') rest {#}"
    using Cons.IH [of sq1 x1 r fk f "k + 1"] Cons.prems s'(2) d(2) f by (auto split: if_splits)
  then show ?case using Cons.prems(3,5) d(1) f by (simp add: watch_loop.simps [of "f # fk @ spare"])
qed

text \<open>
  C21. The process loop. With the requests in the queue (on its first lap), the parent takes them
  in order, forks once for each, and leaves the loop with the request \<open>exit\<close>; the child forked
  for the \<open>j\<close>-th request leaves the loop at once with exactly that request. A failing \<open>fork\<close>
  (a negative value) in between is passed over in silence.
\<close>

theorem watch_loop_serves:
  assumes "lap_rep cap (cq, sq, x) rs {#}" and "0 < cap" and "rs \<noteq> []" and "last rs = ''exit''"
    and "\<forall>r \<in> set (butlast rs). r \<noteq> ''exit''" and "length forks = length rs" and "\<forall>f \<in> set forks. f \<noteq> 0"
  shows "(\<exists>sq' x'. watch_loop forks 1 [] 0 sq x = Inr (last forks, ''exit'', length rs, sq', x')) \<and>
    (\<forall>j < length rs. \<exists>sq' x'. watch_loop (take j forks @ [0]) 1 [] 0 sq x = Inr (0, rs ! j, Suc j, sq', x'))"
proof
  show "\<exists>sq' x'. watch_loop forks 1 [] 0 sq x = Inr (last forks, ''exit'', length rs, sq', x')"
  proof -
    have ne: "forks \<noteq> []" using assms(3,6) by auto
    then have "\<forall>f \<in> set (butlast (1 # forks)). f \<noteq> 0" using assms(7) by (auto dest: in_set_butlastD)
    then show ?thesis using watch_loop_ok [of cap cq sq x rs "[]" "[]" forks 1 "[]" 0] assms ne by auto
  qed
  show "\<forall>j < length rs. \<exists>sq' x'. watch_loop (take j forks @ [0]) 1 [] 0 sq x = Inr (0, rs ! j, Suc j, sq', x')"
  proof (intro allI impI)
    fix j assume j: "j < length rs"
    have tk: "take (Suc j) rs = take j rs @ [rs ! j]" using j by (rule take_Suc_conv_app_nth)
    have "set (take j rs) \<subseteq> set (butlast rs)" unfolding butlast_conv_take by (rule set_take_subset_set_take) (use j in simp)
    then have "\<forall>r \<in> set (take j rs). r \<noteq> ''exit''" using assms(5) by blast
    moreover have "butlast (1 # take j forks @ [0]) = 1 # take j forks" by (simp add: butlast_append)
    moreover have "lap_rep cap (cq, sq, x) (take (Suc j) rs @ drop (Suc j) rs) {#}" using assms(1) by simp
    moreover have "\<forall>f \<in> set (1 # take j forks). f \<noteq> 0" using assms(7) by (auto dest: in_set_takeD)
    ultimately show "\<exists>sq' x'. watch_loop (take j forks @ [0]) 1 [] 0 sq x = Inr (0, rs ! j, Suc j, sq', x')"
      using watch_loop_ok [of cap cq sq x "take (Suc j) rs" "drop (Suc j) rs" "[]" "take j forks @ [0]" 1 "[]" 0]
        assms(2,6) j unfolding tk by (auto simp: min_def)
  qed
qed

theorem watch_loop_serves_witness:
  "\<exists>sq x sq' x' sq'' x''. watch_loop [41, 42] 1 [] 0 sq x = Inr (42, ''exit'', 2, sq', x') \<and>
     watch_loop [0] 1 [] 0 sq x = Inr (0, ''/d int'', 1, sq'', x'')"
proof -
  obtain cq sq x where i: "queue_inv 2 (cq, sq, x) []" "q_front sq = 0" using queue_inv_ex [of 2] by auto
  have g: "good_request ''/d int''" "good_request ''exit''" by code_simp+
  obtain s1 where s1: "queue_inv 2 s1 [''/d int'']" "q_front (fst (snd s1)) = 0"
    using q_enq_ok [OF i(1) g(1)] i(2) by auto
  obtain s2 where s2: "queue_inv 2 s2 [''/d int'', ''exit'']" "q_front (fst (snd s2)) = 0"
    using q_enq_ok [OF s1(1) g(2)] s1(2) by auto
  obtain cq2 sq2 x2 where s: "s2 = (cq2, sq2, x2)" by (cases s2)
  have rep: "lap_rep 2 (cq2, sq2, x2) [''/d int'', ''exit''] {#}" using s2 s by (simp add: lap_rep_def linesize_eq)
  have "(\<exists>sq' x'. watch_loop [41, 42] 1 [] 0 sq2 x2 = Inr (42, ''exit'', 2, sq', x')) \<and>
      (\<exists>sq' x'. watch_loop [0] 1 [] 0 sq2 x2 = Inr (0, ''/d int'', 1, sq', x'))"
    using watch_loop_serves [OF rep, of "[41, 42]"] by fastforce
  then show ?thesis by blast
qed

end
