(* ===== verification/Ext2_Layout.thy ===== *)
theory Ext2_Layout
  imports Posix_Prelude "HOL-Library.Word"
begin

text \<open>
  The structures of an ext2 file system on the disk (\<open>fs/ext2/ext2.h\<close>): a structure is its
  bytes, a field is read and written at its offset, little-endian. The offsets are computed
  from the list of the fields and their widths, in the order of the header. A structure that
  was read only in part has fewer bytes; reading a field behind them is \<open>Uninit\<close>.
\<close>

section \<open>Fields\<close>

definition u8_dec :: "string \<Rightarrow> 8 word" where
  "u8_dec s = of_nat (of_char (s ! 0))"

definition u8_enc :: "8 word \<Rightarrow> string" where
  "u8_enc w = [char_of (unat w)]"

definition le16_dec :: "string \<Rightarrow> 16 word" where
  "le16_dec s = of_nat (of_char (s ! 0) + 256 * of_char (s ! 1))"

definition le16_enc :: "16 word \<Rightarrow> string" where
  "le16_enc w = [char_of (unat w), char_of (unat w div 256)]"

definition le32_dec :: "string \<Rightarrow> 32 word" where
  "le32_dec s = of_nat (of_char (s ! 0) + 256 * (of_char (s ! 1) + 256 * (of_char (s ! 2) + 256 * of_char (s ! 3))))"

definition le32_enc :: "32 word \<Rightarrow> string" where
  "le32_enc w = [char_of (unat w), char_of (unat w div 256), char_of (unat w div 65536), char_of (unat w div 16777216)]"

definition get_at :: "nat \<Rightarrow> (string \<Rightarrow> 'a) \<Rightarrow> nat \<Rightarrow> string \<Rightarrow> 'a res" where
  "get_at n rd off s = (if off + n \<le> length s then Inr (rd (take n (drop off s))) else Inl Uninit)"

definition put_at :: "nat \<Rightarrow> string \<Rightarrow> string \<Rightarrow> string" where
  "put_at off v s = take off s @ v @ drop (off + length v) s"

abbreviation get_u8 :: "nat \<Rightarrow> string \<Rightarrow> 8 word res" where
  "get_u8 \<equiv> get_at 1 u8_dec"

abbreviation get_le16 :: "nat \<Rightarrow> string \<Rightarrow> 16 word res" where
  "get_le16 \<equiv> get_at 2 le16_dec"

abbreviation get_le32 :: "nat \<Rightarrow> string \<Rightarrow> 32 word res" where
  "get_le32 \<equiv> get_at 4 le32_dec"

lemma length_put_at [simp]: "off + length v \<le> length s \<Longrightarrow> length (put_at off v s) = length s"
  by (simp add: put_at_def)

lemma take_drop_put_at:
  "off + length v \<le> length s \<Longrightarrow> take (length v) (drop off (put_at off v s)) = v"
  by (simp add: put_at_def)

lemma nth_put_at:
  assumes "off + length v \<le> length s"
  shows "put_at off v s ! i = (if off \<le> i \<and> i < off + length v then v ! (i - off) else s ! i)"
proof (cases "i < length s")
  case True
  then show ?thesis using assms by (auto simp: put_at_def nth_append)
next
  case False
  then have "i - (off + length v) = length (drop (off + length v) s) + (i - length s)"
    "\<not> i < off" "\<not> i - off < length v" using assms by auto
  moreover have "s ! i = (drop (off + length v) s) ! (i - (off + length v))" using assms False by simp
  ultimately show ?thesis using assms False by (auto simp: put_at_def nth_append)
qed

lemma take_drop_put_at_other:
  assumes "off + length v \<le> length s" and "i + n \<le> off \<or> off + length v \<le> i"
  shows "take n (drop i (put_at off v s)) = take n (drop i s)"
  by (rule nth_equalityI) (use assms in \<open>auto simp: nth_put_at\<close>)

text \<open>
  A fixed-width encoding. The laws of reading and writing a field follow from it once for all
  widths.
\<close>

locale field_codec =
  fixes n :: nat and enc :: "'a \<Rightarrow> string" and dc :: "string \<Rightarrow> 'a"
  assumes enc_len: "length (enc v) = n"
    and dec_enc: "dc (enc v) = v"
    and enc_dec: "length s = n \<Longrightarrow> enc (dc s) = s"
begin

lemma get_put: "off + n \<le> length s \<Longrightarrow> get_at n dc off (put_at off (enc v) s) = Inr v"
  using take_drop_put_at [of off "enc v" s] by (simp add: get_at_def enc_len dec_enc)

lemma put_get: "get_at n dc off s = Inr v \<Longrightarrow> put_at off (enc v) s = s"
  by (auto simp: get_at_def put_at_def enc_dec enc_len split: if_splits)
    (metis append_take_drop_id drop_drop add.commute)

lemma get_put_other:
  "off + length v \<le> length s \<Longrightarrow> i + n \<le> off \<or> off + length v \<le> i \<Longrightarrow>
    get_at n dc i (put_at off v s) = get_at n dc i s"
  by (simp add: get_at_def take_drop_put_at_other)

lemma get_ok: "off + n \<le> length s \<Longrightarrow> \<exists>v. get_at n dc off s = Inr v"
  by (simp add: get_at_def)

end

lemma of_char_less [simp]: "of_char c < (256 :: nat)"
  by (metis nat_of_char_less_256)

lemma char_of_iff: "char_of (n :: nat) = c \<longleftrightarrow> n mod 256 = of_char c"
  by (simp add: char_of_eq_iff take_bit_eq_mod)

lemma byte_less: "(a :: nat) < 256 \<Longrightarrow> b < k \<Longrightarrow> a + 256 * b < 256 * k"
  by linarith

lemma byte_of: "(a :: nat) < 256 \<Longrightarrow> (a + 256 * b) mod 256 = a"
  by simp

lemma div_byte: "(a :: nat) < 256 \<Longrightarrow> (a + 256 * b) div 256 = b"
  by simp

lemma two_bytes: "(n :: nat) < 65536 \<Longrightarrow> n mod 256 + 256 * (n div 256 mod 256) = n"
  by (simp add: div_less mod_less less_mult_imp_div_less)

lemma four_bytes:
  assumes "(n :: nat) < 4294967296"
  shows "n mod 256 + 256 * (n div 256 mod 256 + 256 * (n div 65536 mod 256 + 256 * (n div 16777216 mod 256))) = n"
proof -
  have "n div 65536 = n div 256 div 256" "n div 16777216 = n div 256 div 256 div 256" by (simp_all add: div_mult2_eq [symmetric])
  moreover have "n div 256 div 256 div 256 < 256" using assms by (simp add: div_mult2_eq [symmetric] less_mult_imp_div_less)
  ultimately show ?thesis by simp
qed

lemma unat_bound: "unat (v :: 'a::len word) < 2 ^ LENGTH('a)"
  by (rule unsigned_less)

interpretation u8f: field_codec 1 u8_enc u8_dec
proof
  show "u8_enc (u8_dec s) = s" if "length s = 1" for s
    using that by (cases s) (auto simp: u8_enc_def u8_dec_def unat_of_nat char_of_iff)
  show "u8_dec (u8_enc v) = v" for v
    using unat_bound [of v] by (simp add: u8_enc_def u8_dec_def)
qed (simp_all add: u8_enc_def)

interpretation le16f: field_codec 2 le16_enc le16_dec
proof
  show "le16_dec (le16_enc v) = v" for v
    using unat_bound [of v] two_bytes [of "unat v"]
    by (simp add: le16_dec_def le16_enc_def del: of_nat_add of_nat_mult)
  show "le16_enc (le16_dec s) = s" if len: "length s = 2" for s
  proof -
    obtain a b where s: "s = [a, b]" using len by (auto simp: numeral_2_eq_2 length_Suc_conv)
    have "of_char a + 256 * of_char b < (65536 :: nat)" using of_char_less [of a] of_char_less [of b] by linarith
    then show ?thesis
      by (simp add: s le16_dec_def le16_enc_def unat_of_nat char_of_iff del: of_nat_add of_nat_mult)
  qed
qed (simp_all add: le16_enc_def)

interpretation le32f: field_codec 4 le32_enc le32_dec
proof
  show "le32_dec (le32_enc v) = v" for v
    using unat_bound [of v] four_bytes [of "unat v"]
    by (simp add: le32_dec_def le32_enc_def del: of_nat_add of_nat_mult)
  show "le32_enc (le32_dec s) = s" if len: "length s = 4" for s
  proof -
    obtain a b c d where s: "s = [a, b, c, d]" using len by (auto simp: numeral_eq_Suc length_Suc_conv)
    define n3 n2 n1 n0 where ns: "n3 = of_char d" "n2 = of_char c + 256 * n3" "n1 = of_char b + 256 * n2"
      "n0 = of_char a + 256 * (n1 :: nat)"
    have "n0 < 256 * (256 * (256 * 256))" unfolding ns by (intro byte_less) simp_all
    moreover have "n0 mod 256 = of_char a" "n1 mod 256 = of_char b" "n2 mod 256 = of_char c" "n3 mod 256 = of_char d"
      "n0 div 256 = n1" "n1 div 256 = n2" "n2 div 256 = n3"
      unfolding ns by (simp_all only: byte_of of_char_less div_byte mod_less)
    moreover have "n0 div 65536 = n0 div 256 div 256" "n0 div 16777216 = n0 div 256 div 256 div 256"
      by (simp_all flip: div_mult2_eq)
    moreover have "le32_dec s = of_nat n0" by (simp only: le32_dec_def s ns) simp
    ultimately show ?thesis by (simp add: s le32_enc_def unat_of_nat char_of_iff)
  qed
qed (simp_all add: le32_enc_def)

section \<open>Structures\<close>

text \<open>A structure is the list of its fields with their widths in bytes; no field needs padding before it.\<close>

type_synonym layout = "(string \<times> nat) list"

fun offsetof :: "layout \<Rightarrow> string \<Rightarrow> nat" where
  "offsetof [] f = 0"
| "offsetof ((g, w) # ls) f = (if f = g then 0 else w + offsetof ls f)"

definition sizeof :: "layout \<Rightarrow> nat" where
  "sizeof ls = sum_list (map snd ls)"

definition ext2_group_desc :: layout where
  "ext2_group_desc =
   [(''bg_block_bitmap'', 4), (''bg_inode_bitmap'', 4), (''bg_inode_table'', 4),
     (''bg_free_blocks_count'', 2), (''bg_free_inodes_count'', 2), (''bg_used_dirs_count'', 2),
     (''bg_pad'', 2), (''bg_reserved'', 12)]"

text \<open>The unions \<open>osd1\<close> and \<open>osd2\<close> depend on the operating system that made the file system.\<close>

definition ext2_inode :: layout where
  "ext2_inode =
   [(''i_mode'', 2), (''i_uid'', 2), (''i_size'', 4), (''i_atime'', 4), (''i_ctime'', 4),
     (''i_mtime'', 4), (''i_dtime'', 4), (''i_gid'', 2), (''i_links_count'', 2), (''i_blocks'', 4),
     (''i_flags'', 4), (''osd1'', 4), (''i_block'', 60), (''i_generation'', 4),
     (''i_file_acl'', 4), (''i_dir_acl'', 4), (''i_faddr'', 4), (''osd2'', 12)]"

definition ext2_super_block :: layout where
  "ext2_super_block =
   [(''s_inodes_count'', 4), (''s_blocks_count'', 4), (''s_r_blocks_count'', 4),
     (''s_free_blocks_count'', 4), (''s_free_inodes_count'', 4), (''s_first_data_block'', 4),
     (''s_log_block_size'', 4), (''s_log_frag_size'', 4), (''s_blocks_per_group'', 4),
     (''s_frags_per_group'', 4), (''s_inodes_per_group'', 4), (''s_mtime'', 4), (''s_wtime'', 4),
     (''s_mnt_count'', 2), (''s_max_mnt_count'', 2), (''s_magic'', 2), (''s_state'', 2),
     (''s_errors'', 2), (''s_minor_rev_level'', 2), (''s_lastcheck'', 4), (''s_checkinterval'', 4),
     (''s_creator_os'', 4), (''s_rev_level'', 4), (''s_def_resuid'', 2), (''s_def_resgid'', 2),
     (''s_first_ino'', 4), (''s_inode_size'', 2), (''s_block_group_nr'', 2),
     (''s_feature_compat'', 4), (''s_feature_incompat'', 4), (''s_feature_ro_compat'', 4),
     (''s_uuid'', 16), (''s_volume_name'', 16), (''s_last_mounted'', 64),
     (''s_algorithm_usage_bitmap'', 4), (''s_prealloc_blocks'', 1), (''s_prealloc_dir_blocks'', 1),
     (''s_padding1'', 2), (''s_journal_uuid'', 16), (''s_journal_inum'', 4),
     (''s_journal_dev'', 4), (''s_last_orphan'', 4), (''s_hash_seed'', 16),
     (''s_def_hash_version'', 1), (''s_reserved_char_pad'', 1), (''s_reserved_word_pad'', 2),
     (''s_default_mount_opts'', 4), (''s_first_meta_bg'', 4), (''s_reserved'', 760)]"

text \<open>The fixed part of a directory entry; the name follows it.\<close>

definition ext2_dir_entry_2 :: layout where
  "ext2_dir_entry_2 = [(''inode'', 4), (''rec_len'', 2), (''name_len'', 1), (''file_type'', 1)]"

definition EXT2_ROOT_INO :: "32 word" where
  "EXT2_ROOT_INO = 2"

definition EXT2_NDIR_BLOCKS :: nat where
  "EXT2_NDIR_BLOCKS = 12"

text \<open>The file types of directory entries.\<close>

definition EXT2_FT_UNKNOWN :: "8 word" where "EXT2_FT_UNKNOWN = 0"
definition EXT2_FT_REG_FILE :: "8 word" where "EXT2_FT_REG_FILE = 1"
definition EXT2_FT_DIR :: "8 word" where "EXT2_FT_DIR = 2"
definition EXT2_FT_CHRDEV :: "8 word" where "EXT2_FT_CHRDEV = 3"
definition EXT2_FT_BLKDEV :: "8 word" where "EXT2_FT_BLKDEV = 4"
definition EXT2_FT_FIFO :: "8 word" where "EXT2_FT_FIFO = 5"
definition EXT2_FT_SOCK :: "8 word" where "EXT2_FT_SOCK = 6"
definition EXT2_FT_SYMLINK :: "8 word" where "EXT2_FT_SYMLINK = 7"

lemmas ext2_ft_defs = EXT2_FT_UNKNOWN_def EXT2_FT_REG_FILE_def EXT2_FT_DIR_def EXT2_FT_CHRDEV_def
  EXT2_FT_BLKDEV_def EXT2_FT_FIFO_def EXT2_FT_SOCK_def EXT2_FT_SYMLINK_def

lemma struct_sizes [simp]:
  "sizeof ext2_super_block = 1024" "sizeof ext2_group_desc = 32" "sizeof ext2_inode = 128" "sizeof ext2_dir_entry_2 = 8"
  by (simp_all add: sizeof_def ext2_super_block_def ext2_group_desc_def ext2_inode_def ext2_dir_entry_2_def)

lemma struct_offsets [simp]:
  "offsetof ext2_super_block ''s_log_block_size'' = 24" "offsetof ext2_super_block ''s_inode_size'' = 88"
  "offsetof ext2_group_desc ''bg_inode_table'' = 8" "offsetof ext2_inode ''i_block'' = 40"
  "offsetof ext2_dir_entry_2 ''inode'' = 0" "offsetof ext2_dir_entry_2 ''rec_len'' = 4"
  "offsetof ext2_dir_entry_2 ''name_len'' = 6" "offsetof ext2_dir_entry_2 ''file_type'' = 7"
  by (simp_all add: ext2_super_block_def ext2_group_desc_def ext2_inode_def ext2_dir_entry_2_def)

text \<open>The fields of the directory entry at an offset of a block.\<close>

abbreviation de_ino :: "string \<Rightarrow> nat \<Rightarrow> 32 word" where
  "de_ino s off \<equiv> le32_dec (take 4 (drop off s))"

abbreviation de_rec :: "string \<Rightarrow> nat \<Rightarrow> nat" where
  "de_rec s off \<equiv> unat (le16_dec (take 2 (drop (off + 4) s)))"

abbreviation de_nlen :: "string \<Rightarrow> nat \<Rightarrow> nat" where
  "de_nlen s off \<equiv> unat (u8_dec (take 1 (drop (off + 6) s)))"

abbreviation de_type :: "string \<Rightarrow> nat \<Rightarrow> 8 word" where
  "de_type s off \<equiv> u8_dec (take 1 (drop (off + 7) s))"

abbreviation de_name :: "string \<Rightarrow> nat \<Rightarrow> string" where
  "de_name s off \<equiv> take (de_nlen s off) (drop (off + 8) s)"

end
