(* ===== verification/Fsa.thy ===== *)
theory Fsa
  imports Ext2_Layout Tail_List
begin

text \<open>
  The file system analyser \<open>fsa.c\<close>: it reads an ext2 image through one file descriptor,
  collects the paths of all files in a linked list and prints the paths or the blocks of one
  file. \<open>unsigned int\<close> is \<open>32 word\<close>; an \<open>int\<close> is a \<open>32 word\<close> read with \<open>sint\<close>.
\<close>

section \<open>Data\<close>

record list_node =
  inode_number :: "32 word"
  npath :: string
  l_next :: ptr

type_synonym inode_list = tl

record file_system_info =
  fd :: nat
  sb :: string
  gd :: string
  block_size :: "32 word"
  inode_table_block :: "32 word"
  inode_size :: "32 word"

text \<open>
  The state of the process: the offset of the descriptor, the heap and what was written to
  \<open>stdout\<close>. The heap holds the list nodes; the other objects count towards the memory in use.
\<close>

record proc =
  foff :: int
  hp :: "list_node mem"
  sout :: string

text \<open>
  What the program depends on besides the image: \<open>pad n\<close>, the bytes behind a variable length
  array of \<open>n\<close> bytes that can be overwritten without harm; \<open>dsz\<close>, the size the library header
  gives its \<open>struct ext2_dir_entry\<close>; \<open>behind\<close>, the bytes up to the next NUL that follow the
  line buffer in memory.
\<close>

record cenv =
  disk_image :: string
  pad :: "nat \<Rightarrow> nat"
  dsz :: nat
  behind :: string

section \<open>System calls\<close>

text \<open>\<open>lseek(fd, off, SEEK_SET)\<close> on a regular file: a negative offset fails and moves nothing.\<close>

definition lseek_set :: "int \<Rightarrow> proc \<Rightarrow> int \<times> proc" where
  "lseek_set off p = (if off < 0 then (-1, p) else (off, p\<lparr>foff := off\<rparr>))"

text \<open>
  \<open>read\<close> of at most \<open>n\<close> bytes into a buffer; \<open>ok\<close> tells whether its allocation succeeded. With
  a null buffer the call fails where it has bytes to deliver, and otherwise the caller goes on
  to dereference the buffer.
\<close>

definition read_disk :: "cenv \<Rightarrow> nat \<Rightarrow> bool \<Rightarrow> proc \<Rightarrow> (string \<times> proc) res" where
  "read_disk c n ok p =
     (let bs = take n (drop (nat (foff p)) (disk_image c)) in
      if ok then Inr (bs, p\<lparr>foff := foff p + int (length bs)\<rparr>)
      else if bs = [] then Inl NullDeref else Inl (Exit 1))"

definition alloc :: "proc \<Rightarrow> bool \<times> proc" where
  "alloc p = (case malloc_other (hp p) of None \<Rightarrow> (False, p) | Some m \<Rightarrow> (True, p\<lparr>hp := m\<rparr>))"

definition release :: "proc \<Rightarrow> proc" where
  "release p = p\<lparr>hp := free_other (hp p)\<rparr>"

section \<open>The list\<close>

definition fsa_create_node :: "32 word \<Rightarrow> string \<Rightarrow> list_node mem \<Rightarrow> (nat \<times> list_node mem) res" where
  "fsa_create_node ino s m =
     (case malloc \<lparr>inode_number = ino, npath = s, l_next = None\<rparr> m of
        (None, m) \<Rightarrow> Inl (Exit 1)
      | (Some a, m) \<Rightarrow> Inr (a, m))"

definition init_list :: "list_node mem \<Rightarrow> (inode_list \<times> list_node mem) res" where
  "init_list m =
     (case malloc_other m of
        None \<Rightarrow> Inl (Exit 1)
      | Some m \<Rightarrow> Inr (\<lparr>t_head = None, t_tail = None\<rparr>, m))"

fun fsa_destroy_loop :: "nat \<Rightarrow> list_node mem \<Rightarrow> ptr \<Rightarrow> list_node mem res" where
  "fsa_destroy_loop 0 m ptr = Inl Diverge"
| "fsa_destroy_loop (Suc k) m ptr =
     (case ptr of
        None \<Rightarrow> Inr m
      | Some tmp \<Rightarrow>
          bindE (deref m ptr) (\<lambda>n. bindE (free tmp m) (\<lambda>m. fsa_destroy_loop k m (l_next n))))"

definition fsa_destroy_list :: "inode_list \<Rightarrow> list_node mem \<Rightarrow> list_node mem res" where
  "fsa_destroy_list l m =
     bindE (fsa_destroy_loop (Suc (brk m)) m (t_head l)) (\<lambda>m. Inr (free_other m))"

definition fsa_insert_tail :: "nat \<Rightarrow> list_node mem \<Rightarrow> inode_list \<Rightarrow> (list_node mem \<times> inode_list) res" where
  "fsa_insert_tail a m l =
     (if t_head l = None \<and> t_tail l = None then Inr (m, l\<lparr>t_head := Some a, t_tail := Some a\<rparr>)
      else bindE (store (t_tail l) (l_next_update (\<lambda>_. Some a)) m) (\<lambda>m. Inr (m, l\<lparr>t_tail := Some a\<rparr>)))"

fun print_nodes :: "nat \<Rightarrow> list_node mem \<Rightarrow> ptr \<Rightarrow> string \<Rightarrow> string res" where
  "print_nodes 0 m ptr s = Inl Diverge"
| "print_nodes (Suc k) m ptr s =
     (if ptr = None then Inr s
      else bindE (deref m ptr) (\<lambda>n. print_nodes k m (l_next n) (s @ npath n @ [CHR 0x0A])))"

definition print_list :: "inode_list \<Rightarrow> proc \<Rightarrow> proc res" where
  "print_list l p =
     bindE (print_nodes (Suc (brk (hp p))) (hp p) (t_head l) (sout p)) (\<lambda>s. Inr (p\<lparr>sout := s\<rparr>))"

fun search_nodes :: "nat \<Rightarrow> string \<Rightarrow> list_node mem \<Rightarrow> ptr \<Rightarrow> 32 word res" where
  "search_nodes 0 s m ptr = Inl Diverge"
| "search_nodes (Suc k) s m ptr =
     (if ptr = None then Inr 0
      else bindE (deref m ptr) (\<lambda>n.
        if strcmp s (npath n) = 0 then Inr (inode_number n) else search_nodes k s m (l_next n)))"

text \<open>The path comes from the command line and is \<open>NULL\<close> when \<open>-file\<close> was the last argument.\<close>

definition search_by_path :: "string option \<Rightarrow> inode_list \<Rightarrow> list_node mem \<Rightarrow> 32 word res" where
  "search_by_path s l m =
     (case s of
        Some s \<Rightarrow> search_nodes (Suc (brk m)) s m (t_head l)
      | None \<Rightarrow> if t_head l = None then Inr 0 else Inl NullDeref)"

section \<open>Reading the disk\<close>

definition create_fsi :: "string \<Rightarrow> string \<Rightarrow> 32 word \<Rightarrow> 32 word \<Rightarrow> 32 word \<Rightarrow> proc \<Rightarrow>
    (file_system_info \<times> proc) res" where
  "create_fsi sbb gdb bs itb isz p =
     (case alloc p of
        (False, p) \<Rightarrow> Inl (Exit 1)
      | (True, p) \<Rightarrow>
          Inr (\<lparr>fd = 3, sb = sbb, gd = gdb, block_size = bs, inode_table_block = itb, inode_size = isz\<rparr>, p))"

definition read_inode :: "cenv \<Rightarrow> file_system_info \<Rightarrow> 32 word \<Rightarrow> proc \<Rightarrow> (string \<times> proc) res" where
  "read_inode c fsi ino p =
     (case alloc p of (ok, p) \<Rightarrow>
        let inode_location = inode_table_block fsi * block_size fsi + (ino - 1) * inode_size fsi in
        (case lseek_set (uint inode_location) p of (r, p) \<Rightarrow>
           if r \<noteq> uint inode_location then Inl (Exit 1)
           else read_disk c (sizeof ext2_inode) ok p))"

definition i_block :: "string \<Rightarrow> nat \<Rightarrow> 32 word res" where
  "i_block inode i = get_le32 (offsetof ext2_inode ''i_block'' + 4 * i) inode"

definition read_dirent :: "cenv \<Rightarrow> 32 word \<Rightarrow> proc \<Rightarrow> (string \<times> proc) res" where
  "read_dirent c index p =
     (case alloc p of (ok, p) \<Rightarrow>
        (case lseek_set (sint index) p of (r, p) \<Rightarrow>
           if r \<noteq> sint index then Inl (Exit 1) else read_disk c (dsz c) ok p))"

text \<open>The int sum of an offset and a record length.\<close>

definition next_index :: "32 word \<Rightarrow> 16 word \<Rightarrow> 32 word res" where
  "next_index index rl =
     (if sint index + uint rl < 2 ^ 31 then Inr (index + ucast rl) else Inl Overflow)"

definition nul :: char where
  "nul = CHR 0x00"

definition cstr :: "string \<Rightarrow> string" where
  "cstr s = takeWhile (\<lambda>b. b \<noteq> nul) s"

text \<open>
  The path of an entry: \<open>file_name\<close> has no byte for its terminator, \<open>file_path\<close> lacks two.
\<close>

definition entry_path :: "cenv \<Rightarrow> string \<Rightarrow> string \<Rightarrow> string res" where
  "entry_path c path dirent =
     bindE (get_u8 (offsetof ext2_dir_entry_2 ''name_len'') dirent) (\<lambda>nl.
     if pad c (unat nl) < 1 then Inl Overflow
     else if length dirent < sizeof ext2_dir_entry_2 + unat nl then Inl Uninit
     else
       let file_name = cstr (take (unat nl) (drop (sizeof ext2_dir_entry_2) dirent)) in
       if pad c (length path + length file_name) < 2 then Inl Overflow
       else Inr (join_path path file_name))"

text \<open>Whether an entry is listed: its name does not start with a dot, its inode is not 0.\<close>

definition entry_listed :: "string \<Rightarrow> bool res" where
  "entry_listed dirent =
     bindE (get_u8 (sizeof ext2_dir_entry_2) dirent) (\<lambda>b.
     if b = 46 then Inr False
     else bindE (get_le32 (offsetof ext2_dir_entry_2 ''inode'') dirent) (\<lambda>ino. Inr (ino \<noteq> 0)))"

definition append_node :: "32 word \<Rightarrow> string \<Rightarrow> inode_list \<times> proc \<Rightarrow> (inode_list \<times> proc) res" where
  "append_node ino s lp =
     bindE (fsa_create_node ino s (hp (snd lp))) (\<lambda>(a, m).
     bindE (fsa_insert_tail a m (fst lp)) (\<lambda>(m, l). Inr (l, (snd lp)\<lparr>hp := m\<rparr>)))"

text \<open>
  \<open>read_directory\<close> is the loop over the twelve direct blocks, \<open>read_entries\<close> the loop over the
  entries of one of them. \<open>k\<close> bounds the entries read along a chain of nested directories:
  the code ends only if the directories on the disk let it.
\<close>

function read_blocks :: "nat \<Rightarrow> cenv \<Rightarrow> file_system_info \<Rightarrow> string \<Rightarrow> string \<Rightarrow> nat list \<Rightarrow>
    inode_list \<times> proc \<Rightarrow> (inode_list \<times> proc) res"
  and read_entries :: "nat \<Rightarrow> cenv \<Rightarrow> file_system_info \<Rightarrow> string \<Rightarrow> 32 word \<Rightarrow> 32 word \<Rightarrow>
    inode_list \<times> proc \<Rightarrow> (inode_list \<times> proc) res"
where
  "read_blocks k c fsi inode path [] lp = Inr lp"
| "read_blocks k c fsi inode path (i # is) lp =
     bindE (i_block inode i) (\<lambda>b.
     bindE (if b \<noteq> 0 then read_entries k c fsi path (b * block_size fsi) (b * block_size fsi + block_size fsi) lp
            else Inr lp) (\<lambda>lp.
     read_blocks k c fsi inode path is lp))"
| "read_entries 0 c fsi path index lim lp = Inl Diverge"
| "read_entries (Suc k) c fsi path index lim lp =
     (if \<not> sint index < sint lim then Inr lp
      else
        bindE (read_dirent c index (snd lp)) (\<lambda>(dirent, p).
        bindE (get_le16 (offsetof ext2_dir_entry_2 ''rec_len'') dirent) (\<lambda>rl.
        bindE (next_index index rl) (\<lambda>index.
        bindE (entry_listed dirent) (\<lambda>listed.
        bindE
          (if listed then
             bindE (entry_path c path dirent) (\<lambda>file_path.
             bindE (get_le32 (offsetof ext2_dir_entry_2 ''inode'') dirent) (\<lambda>ino.
             bindE (append_node ino file_path (fst lp, p)) (\<lambda>lp.
             bindE (get_u8 (offsetof ext2_dir_entry_2 ''file_type'') dirent) (\<lambda>ft.
             if ft = EXT2_FT_DIR then
               bindE (read_inode c fsi ino (snd lp)) (\<lambda>(tmp, p).
               bindE (read_blocks k c fsi tmp file_path [0..<EXT2_NDIR_BLOCKS] (fst lp, p)) (\<lambda>(l, p).
               Inr (l, release p)))
             else Inr lp))))
           else Inr (fst lp, p)) (\<lambda>(l, p).
        read_entries k c fsi path index lim (l, release p)))))))"
  by pat_completeness auto

termination
  by (relation "measures [\<lambda>x. case x of Inl (k, _) \<Rightarrow> k | Inr (k, _) \<Rightarrow> k,
      \<lambda>x. case x of Inl (k, c, f, i, p, is, _) \<Rightarrow> Suc (length is) | Inr _ \<Rightarrow> 0]") auto

definition read_directory :: "nat \<Rightarrow> cenv \<Rightarrow> file_system_info \<Rightarrow> string \<Rightarrow> string \<Rightarrow>
    inode_list \<times> proc \<Rightarrow> (inode_list \<times> proc) res" where
  "read_directory k c fsi inode path lp = read_blocks k c fsi inode path [0..<EXT2_NDIR_BLOCKS] lp"

definition fsa_populate_list :: "nat \<Rightarrow> cenv \<Rightarrow> file_system_info \<Rightarrow> proc \<Rightarrow> (inode_list \<times> proc) res" where
  "fsa_populate_list k c fsi p =
     bindE (init_list (hp p)) (\<lambda>(l, m).
     bindE (read_inode c fsi EXT2_ROOT_INO (p\<lparr>hp := m\<rparr>)) (\<lambda>(root_inode, p).
     bindE (fsa_create_node EXT2_ROOT_INO ''/'' (hp p)) (\<lambda>(root_list_node, m).
     bindE (read_directory k c fsi root_inode [] (l, p\<lparr>hp := m\<rparr>)) (\<lambda>(l, p).
     bindE (fsa_insert_tail root_list_node (hp p) l) (\<lambda>(m, l).
     Inr (l, release (p\<lparr>hp := m\<rparr>)))))))"

section \<open>Printing\<close>

text \<open>
  The line buffer: \<open>None\<close> is a byte that was never written. \<open>printf("%s")\<close> goes on behind the
  buffer when it holds no NUL.
\<close>

type_synonym linebuf = "char option list"

fun put_str :: "cenv \<Rightarrow> linebuf \<Rightarrow> string res" where
  "put_str c [] = Inr (behind c)"
| "put_str c (None # bs) = Inl Uninit"
| "put_str c (Some b # bs) = (if b = nul then Inr [] else bindE (put_str c bs) (\<lambda>s. Inr (b # s)))"

definition print_file_contents :: "cenv \<Rightarrow> 32 word \<Rightarrow> 32 word \<Rightarrow> bool \<Rightarrow> linebuf \<times> proc \<Rightarrow>
    (linebuf \<times> proc) res" where
  "print_file_contents c data_block_number bs ok bp =
     (let data_block = data_block_number * bs in
      case lseek_set (sint data_block) (snd bp) of (r, p) \<Rightarrow>
        if r \<noteq> sint data_block then Inl (Exit 1)
        else
          bindE (read_disk c (unat bs) ok p) (\<lambda>(s, p).
          let buf = map Some s @ drop (length s) (fst bp) in
          bindE (put_str c buf) (\<lambda>s. Inr (buf, p\<lparr>sout := sout p @ s\<rparr>))))"

fun print_direct :: "cenv \<Rightarrow> file_system_info \<Rightarrow> string \<Rightarrow> bool \<Rightarrow> nat list \<Rightarrow> linebuf \<times> proc \<Rightarrow>
    (linebuf \<times> proc) res" where
  "print_direct c fsi inode ok [] bp = Inr bp"
| "print_direct c fsi inode ok (i # is) bp =
     bindE (i_block inode i) (\<lambda>b.
     bindE (if b \<noteq> 0 then print_file_contents c b (block_size fsi) ok bp else Inr bp) (\<lambda>bp.
     print_direct c fsi inode ok is bp))"

text \<open>
  The loop over the table of the indirect block. A short read leaves \<open>data_block_number\<close>
  undefined in part. The index grows by four up to the limit, so the block size is fuel enough.
\<close>

fun print_indirect :: "nat \<Rightarrow> cenv \<Rightarrow> file_system_info \<Rightarrow> bool \<Rightarrow> 32 word \<Rightarrow> 32 word \<Rightarrow>
    linebuf \<times> proc \<Rightarrow> (linebuf \<times> proc) res" where
  "print_indirect 0 c fsi ok index lim bp = Inl Diverge"
| "print_indirect (Suc k) c fsi ok index lim bp =
     (if \<not> sint index < sint lim then Inr bp
      else
        case lseek_set (sint index) (snd bp) of (r, p) \<Rightarrow>
          if r \<noteq> sint index then Inl (Exit 1)
          else
            bindE (read_disk c 4 True p) (\<lambda>(s, p).
            bindE (get_le32 0 s) (\<lambda>b.
            bindE (if b \<noteq> 0 then print_file_contents c b (block_size fsi) ok (fst bp, p) else Inr (fst bp, p)) (\<lambda>bp.
            print_indirect k c fsi ok (index + 4) lim bp))))"

definition print_disk :: "nat \<Rightarrow> cenv \<Rightarrow> file_system_info \<Rightarrow> proc \<Rightarrow> proc res" where
  "print_disk k c fsi p =
     bindE (fsa_populate_list k c fsi p) (\<lambda>(l, p).
     bindE (print_list l p) (\<lambda>p.
     bindE (fsa_destroy_list l (hp p)) (\<lambda>m. Inr (p\<lparr>hp := m\<rparr>))))"

definition print_node :: "cenv \<Rightarrow> file_system_info \<Rightarrow> bool \<Rightarrow> 32 word \<Rightarrow> linebuf \<times> proc \<Rightarrow> (linebuf \<times> proc) res" where
  "print_node c fsi ok inode_found bp =
     bindE (read_inode c fsi inode_found (snd bp)) (\<lambda>(read_node, p).
     bindE (print_direct c fsi read_node ok [0..<12] (fst bp, p)) (\<lambda>bp.
     bindE (i_block read_node 12) (\<lambda>b.
     bindE (if b \<noteq> 0
            then print_indirect (Suc (unat (block_size fsi))) c fsi ok (b * block_size fsi) (b * block_size fsi + block_size fsi) bp
            else Inr bp) (\<lambda>(buf, p).
     Inr (buf, release p)))))"

definition print_file :: "nat \<Rightarrow> cenv \<Rightarrow> file_system_info \<Rightarrow> string option \<Rightarrow> proc \<Rightarrow> proc res" where
  "print_file k c fsi absolute_path p =
     bindE (fsa_populate_list k c fsi p) (\<lambda>(l, p).
     case alloc p of (ok, p) \<Rightarrow>
     let line_buffer = replicate (unat (block_size fsi)) None in
     bindE (search_by_path absolute_path l (hp p)) (\<lambda>inode_found.
     bindE (if inode_found \<noteq> 0 then print_node c fsi ok inode_found (line_buffer, p)
            else Inr (line_buffer, p)) (\<lambda>(buf, p).
     let p = (if ok then release p else p) in
     bindE (fsa_destroy_list l (hp p)) (\<lambda>m. Inr (p\<lparr>hp := m\<rparr>)))))"

section \<open>The program\<close>

text \<open>The shift of the \<open>int\<close> 1024 is defined only as long as its value fits.\<close>

definition shift_1024 :: "32 word \<Rightarrow> 32 word res" where
  "shift_1024 w = (if unat w \<le> 20 then Inr (push_bit (unat w) 1024) else Inl Overflow)"

definition disk_analyze :: "nat \<Rightarrow> (string \<Rightarrow> cenv option) \<Rightarrow> string \<Rightarrow> bool \<Rightarrow> bool \<Rightarrow> string option \<Rightarrow> proc \<Rightarrow>
    proc res" where
  "disk_analyze k disks disk_name traverse file absolute_path p =
     (case alloc p of (ok_sb, p) \<Rightarrow> case alloc p of (ok_gd, p) \<Rightarrow>
      case disks disk_name of
        None \<Rightarrow> Inl (Exit 1)
      | Some c \<Rightarrow>
          bindE (read_disk c (sizeof ext2_super_block) ok_sb (p\<lparr>foff := 1024\<rparr>)) (\<lambda>(sbb, p).
          bindE (get_le32 (offsetof ext2_super_block ''s_log_block_size'') sbb) (\<lambda>w.
          bindE (shift_1024 w) (\<lambda>bs.
          bindE (read_disk c (sizeof ext2_group_desc) ok_gd (p\<lparr>foff := uint bs\<rparr>)) (\<lambda>(gdb, p).
          bindE (get_le32 (offsetof ext2_group_desc ''bg_inode_table'') gdb) (\<lambda>itb.
          bindE (get_le16 (offsetof ext2_super_block ''s_inode_size'') sbb) (\<lambda>isz.
          bindE (create_fsi sbb gdb bs itb (ucast isz) p) (\<lambda>(fsi, p).
          bindE (if traverse then print_disk k c fsi p else Inr p) (\<lambda>p.
          bindE (if file then print_file k c fsi absolute_path p else Inr p) (\<lambda>p.
          Inr (release (release (release p)))))))))))))"

text \<open>The arguments behind the disk name: the flags, the path, and whether they are valid.\<close>

fun parse_args :: "string list \<Rightarrow> bool \<Rightarrow> bool \<Rightarrow> string option \<Rightarrow> (bool \<times> bool \<times> string option) option" where
  "parse_args [] t f path = Some (t, f, path)"
| "parse_args (a # as) t f path =
     (if strcmp a ''-traverse'' = 0 then parse_args as True f path
      else if strcmp a ''-file'' = 0 \<and> \<not> f then
        (case as of [] \<Rightarrow> Some (t, True, None) | s # as \<Rightarrow> parse_args as t True (Some s))
      else None)"

text \<open>\<open>q\<close> is the number of allocations that succeed; the result is the exit status and the process.\<close>

definition fsa_main :: "nat \<Rightarrow> (string \<Rightarrow> cenv option) \<Rightarrow> nat \<Rightarrow> string list \<Rightarrow> (int \<times> proc) res" where
  "fsa_main k disks q argv =
     (let p = \<lparr>foff = 0, hp = empty_mem q, sout = []\<rparr> in
      case argv of
        a0 # disk_name # args \<Rightarrow>
          (case parse_args args False False None of
             None \<Rightarrow> Inr (1, p)
           | Some (t, f, path) \<Rightarrow> bindE (disk_analyze k disks disk_name t f path p) (\<lambda>p. Inr (0, p)))
      | _ \<Rightarrow> Inr (1, p))"

end
