(* ===== verification/Fsa_Disk.thy ===== *)
theory Fsa_Disk
  imports Fsa
begin

text \<open>
  What \<open>fsa\<close> finds on a well-formed image. The directory tree of an image is read off its
  blocks by a reference parser; the traversal lists exactly this tree.
\<close>

section \<open>The list\<close>

interpretation fl: tail_list l_next "\<lambda>p n. n\<lparr>l_next := p\<rparr>" fsa_insert_tail fsa_destroy_loop
proof
  fix l :: inode_list and a and m :: "list_node mem"
  assume "t_head l = None" "t_tail l = None"
  then show "\<exists>l'. fsa_insert_tail a m l = Inr (m, l') \<and> t_head l' = Some a \<and> t_tail l' = Some a"
    by (simp add: fsa_insert_tail_def)
next
  fix l :: inode_list and z a and m :: "list_node mem" and n
  assume "t_tail l = Some z" "cells m z = Some n"
  then show "\<exists>l'. fsa_insert_tail a m l = Inr (m\<lparr>cells := (cells m)(z := Some (n\<lparr>l_next := Some a\<rparr>))\<rparr>, l') \<and>
      t_head l' = t_head l \<and> t_tail l' = Some a"
    by (simp add: fsa_insert_tail_def store_def)
qed (auto simp: deref_def split: option.splits)

definition entry_of :: "list_node \<Rightarrow> 32 word \<times> string" where
  "entry_of n = (inode_number n, npath n)"

lemma entry_of_next [simp]: "entry_of (n\<lparr>l_next := x\<rparr>) = entry_of n"
  by (simp add: entry_of_def)

definition lrep :: "list_node mem \<Rightarrow> inode_list \<Rightarrow> nat list \<Rightarrow> (32 word \<times> string) list \<Rightarrow> bool" where
  "lrep m l as xs \<longleftrightarrow> fl.holds m l as \<and> mem_ok m \<and> map (\<lambda>a. map_option entry_of (cells m a)) as = map Some xs"

lemma lrep_frame:
  assumes "lrep m l as xs" and "\<forall>a \<in> set as. cells m' a = cells m a" and "mem_ok m'"
  shows "lrep m' l as xs"
proof -
  have "map (\<lambda>a. map_option entry_of (cells m' a)) as = map Some xs"
    using assms(1,2) by (metis (no_types, lifting) lrep_def map_eq_conv)
  then show ?thesis using assms fl.seg_frame [of m "t_head l" as m'] by (auto simp: lrep_def fl.holds_def)
qed

lemma lrep_less: "lrep m l as xs \<Longrightarrow> a \<in> set as \<Longrightarrow> a < brk m"
  unfolding lrep_def fl.holds_def using fl.seg_cells [of m "t_head l" as a] mem_ok_less [of m a] by auto

lemma lrep_insert:
  assumes r: "lrep m l as xs" and a: "cells m a = Some n" "l_next n = None" "a \<notin> set as"
  shows "\<exists>m' l'. fsa_insert_tail a m l = Inr (m', l') \<and> lrep m' l' (as @ [a]) (xs @ [entry_of n]) \<and>
    brk m' = brk m \<and> quota m' = quota m \<and> (\<forall>b. b \<notin> set as \<longrightarrow> cells m' b = cells m b)"
proof -
  have h: "fl.holds m l as" using r by (simp add: lrep_def)
  obtain m' l' where i: "fsa_insert_tail a m l = Inr (m', l')" "fl.holds m' l' (as @ [a])" "brk m' = brk m" "quota m' = quota m"
    and c: "\<forall>b. cells m' b = cells m b \<or> (as \<noteq> [] \<and> b = last as \<and>
      cells m' b = map_option (\<lambda>n. n\<lparr>l_next := Some a\<rparr>) (cells m b))"
    using fl.ins_ok [OF h a(3,1,2)] by auto
  have same: "map_option entry_of (cells m' b) = map_option entry_of (cells m b)" for b
    using c [rule_format, of b] by (auto simp: map_option.compositionality comp_def)
  have "mem_ok m'" using r c i(3) unfolding mem_ok_def lrep_def by (metis option.map_disc_iff)
  then have "lrep m' l' (as @ [a]) (xs @ [entry_of n])"
    using i(2) r a(1) by (simp add: lrep_def same)
  moreover have "\<forall>b. b \<notin> set as \<longrightarrow> cells m' b = cells m b" using c by (metis last_in_set)
  ultimately show ?thesis using i by blast
qed

text \<open>
  \<open>grows ok f n es\<close>: with memory for \<open>n\<close> more objects, \<open>f\<close> succeeds and the list grows by \<open>es\<close> at
  its end, while older cells outside the list, the output and the memory not used for nodes are as
  before; or, when \<open>ok\<close> is false, \<open>f\<close> overruns an array.
\<close>

definition grows :: "bool \<Rightarrow> (inode_list \<times> proc \<Rightarrow> (inode_list \<times> proc) res) \<Rightarrow> nat \<Rightarrow> (32 word \<times> string) list \<Rightarrow> bool" where
  "grows ok f n es \<longleftrightarrow>
     (\<forall>l p as xs. lrep (hp p) l as xs \<longrightarrow> n \<le> quota (hp p) \<longrightarrow>
        (if ok then
          (\<exists>l' p' bs. f (l, p) = Inr (l', p') \<and> lrep (hp p') l' (as @ bs) (xs @ es) \<and>
            (\<forall>b \<in> set bs. brk (hp p) \<le> b) \<and>
            (\<forall>b. b \<notin> set (as @ bs) \<longrightarrow> cells (hp p') b = cells (hp p) b) \<and>
            brk (hp p) \<le> brk (hp p') \<and> quota (hp p') + length es = quota (hp p) \<and> sout p' = sout p)
         else f (l, p) = Inl Overflow))"

lemma growsE:
  assumes "grows True f n es" and "lrep (hp p) l as xs" and "n \<le> quota (hp p)"
  obtains l' p' bs where "f (l, p) = Inr (l', p')" and "lrep (hp p') l' (as @ bs) (xs @ es)"
    and "\<forall>b \<in> set bs. brk (hp p) \<le> b"
    and "\<forall>b. b \<notin> set (as @ bs) \<longrightarrow> cells (hp p') b = cells (hp p) b"
    and "brk (hp p) \<le> brk (hp p')" and "quota (hp p') + length es = quota (hp p)" and "sout p' = sout p"
  using assms unfolding grows_def if_True by blast

lemma grows_overrun: "grows False f n es \<Longrightarrow> lrep (hp p) l as xs \<Longrightarrow> n \<le> quota (hp p) \<Longrightarrow> f (l, p) = Inl Overflow"
  by (auto simp: grows_def)

lemma grows_overrunI: "(\<And>l p. f (l, p) = Inl Overflow) \<Longrightarrow> grows False f n es"
  by (simp add: grows_def)

lemma grows_none: "grows True Inr n []"
  by (auto simp: grows_def intro: exI [of _ "[]"])

lemma grows_mono: "grows ok f n es \<Longrightarrow> n \<le> n' \<Longrightarrow> grows ok f n' es"
  unfolding grows_def by (intro allI impI) (drule spec, drule spec, drule spec, drule spec, drule mp, assumption, drule mp, rule le_trans)

lemma grows_cong: "grows ok f n es \<Longrightarrow> (\<And>l p. n \<le> quota (hp p) \<Longrightarrow> g (l, p) = f (l, p)) \<Longrightarrow> grows ok g n es"
  by (cases ok) (simp_all add: grows_def)

lemma grows_bind_ok:
  assumes f: "grows True f n es" and g: "grows True g n' fs"
  shows "grows True (\<lambda>lp. bindE (f lp) g) (max n (length es + n')) (es @ fs)"
  unfolding grows_def if_True
proof (intro allI impI)
  fix l and p :: proc and as xs assume r: "lrep (hp p) l as xs" and q: "max n (length es + n') \<le> quota (hp p)"
  obtain l1 p1 bs where 1: "f (l, p) = Inr (l1, p1)" "lrep (hp p1) l1 (as @ bs) (xs @ es)" "\<forall>b \<in> set bs. brk (hp p) \<le> b"
    "\<forall>b. b \<notin> set (as @ bs) \<longrightarrow> cells (hp p1) b = cells (hp p) b"
    "brk (hp p) \<le> brk (hp p1)" "quota (hp p1) + length es = quota (hp p)" "sout p1 = sout p"
    using growsE [OF f r] q by auto
  obtain l2 p2 bs' where 2: "g (l1, p1) = Inr (l2, p2)" "lrep (hp p2) l2 ((as @ bs) @ bs') ((xs @ es) @ fs)"
    "\<forall>b \<in> set bs'. brk (hp p1) \<le> b"
    "\<forall>b. b \<notin> set ((as @ bs) @ bs') \<longrightarrow> cells (hp p2) b = cells (hp p1) b"
    "brk (hp p1) \<le> brk (hp p2)" "quota (hp p2) + length fs = quota (hp p1)" "sout p2 = sout p1"
    using growsE [OF g 1(2)] q 1(6) by auto
  have "\<forall>b \<in> set (bs @ bs'). brk (hp p) \<le> b" using 1(3,5) 2(3) by fastforce
  moreover have "\<forall>b. b \<notin> set (as @ bs @ bs') \<longrightarrow> cells (hp p2) b = cells (hp p) b" using 1(4) 2(4) by simp
  ultimately show "\<exists>l' p' cs. bindE (f (l, p)) g = Inr (l', p') \<and> lrep (hp p') l' (as @ cs) (xs @ es @ fs) \<and>
      (\<forall>b \<in> set cs. brk (hp p) \<le> b) \<and>
      (\<forall>b. b \<notin> set (as @ cs) \<longrightarrow> cells (hp p') b = cells (hp p) b) \<and>
      brk (hp p) \<le> brk (hp p') \<and> quota (hp p') + length (es @ fs) = quota (hp p) \<and> sout p' = sout p"
    using 1 2 by (intro exI [of _ l2] exI [of _ p2] exI [of _ "bs @ bs'"]) simp
qed

lemma grows_bind:
  assumes f: "grows a f n es" and g: "grows b g n' fs"
  shows "grows (a \<and> b) (\<lambda>lp. bindE (f lp) g) (max n (length es + n')) (es @ fs)"
proof -
  consider "a" "b" | "\<not> a" | "a" "\<not> b" by blast
  then show ?thesis
  proof cases
    case 1
    then show ?thesis using grows_bind_ok f g by simp
  next
    case 2
    then show ?thesis using f by (auto simp: grows_def)
  next
    case 3
    have f1: "grows True f n es" using f 3(1) by simp
    have "bindE (f (l, p)) g = Inl Overflow" if r: "lrep (hp p) l as xs" and q: "max n (length es + n') \<le> quota (hp p)" for l p as xs
    proof -
      obtain l1 p1 bs where "f (l, p) = Inr (l1, p1)" "lrep (hp p1) l1 (as @ bs) (xs @ es)"
        "quota (hp p1) + length es = quota (hp p)"
        using growsE [OF f1 r, of thesis] q by simp
      then show ?thesis using grows_overrun [of g n' fs p1 l1] g 3(2) q by simp
    qed
    then show ?thesis using 3(2) by (simp add: grows_def)
  qed
qed

lemma lrep_quota: "lrep (m\<lparr>quota := x\<rparr>) l as xs = lrep m l as xs"
proof -
  have "fl.seg (m\<lparr>quota := x\<rparr>) h as = fl.seg m h as" for h by (induction as arbitrary: h) auto
  then show ?thesis by (simp add: lrep_def fl.holds_def mem_ok_def)
qed

text \<open>A scratch object that is allocated before \<open>f\<close> and released behind it.\<close>

lemma grows_scratch:
  assumes f: "grows ok f n es"
    and g: "\<And>l p. 0 < quota (hp p) \<Longrightarrow>
      g (l, p) = bindE (f (l, p\<lparr>hp := (hp p)\<lparr>quota := quota (hp p) - 1\<rparr>, foff := h l p\<rparr>)) (\<lambda>(l, p). Inr (l, release p))"
  shows "grows ok g (Suc n) es"
proof (cases ok)
  case False
  have "g (l, p) = Inl Overflow" if "lrep (hp p) l as xs" "Suc n \<le> quota (hp p)" for l p as xs
    using grows_overrun [of f n es "p\<lparr>hp := (hp p)\<lparr>quota := quota (hp p) - 1\<rparr>, foff := h l p\<rparr>" l as xs] f False that g [of p l]
    by (simp add: lrep_quota)
  then show ?thesis using False by (simp add: grows_def)
next
  case True
  show ?thesis unfolding grows_def using True
  proof (simp only: if_True, intro allI impI)
    fix l and p :: proc and as xs assume r: "lrep (hp p) l as xs" and q: "Suc n \<le> quota (hp p)"
    let ?p = "p\<lparr>hp := (hp p)\<lparr>quota := quota (hp p) - 1\<rparr>, foff := h l p\<rparr>"
    have r': "lrep (hp ?p) l as xs" using r by (simp add: lrep_quota)
    have f': "grows True f n es" using f True by simp
    obtain l1 p1 bs where 1: "f (l, ?p) = Inr (l1, p1)" "lrep (hp p1) l1 (as @ bs) (xs @ es)" "\<forall>b \<in> set bs. brk (hp ?p) \<le> b"
      "\<forall>b. b \<notin> set (as @ bs) \<longrightarrow> cells (hp p1) b = cells (hp ?p) b"
      "brk (hp ?p) \<le> brk (hp p1)" "quota (hp p1) + length es = quota (hp ?p)" "sout p1 = sout ?p"
      by (rule growsE [OF f' r']) (use q in auto)
    then show "\<exists>l' p' cs. g (l, p) = Inr (l', p') \<and> lrep (hp p') l' (as @ cs) (xs @ es) \<and>
        (\<forall>b \<in> set cs. brk (hp p) \<le> b) \<and>
        (\<forall>b. b \<notin> set (as @ cs) \<longrightarrow> cells (hp p') b = cells (hp p) b) \<and>
        brk (hp p) \<le> brk (hp p') \<and> quota (hp p') + length es = quota (hp p) \<and> sout p' = sout p"
      using q g [of p l]
      by (intro exI [of _ l1] exI [of _ "release p1"] exI [of _ bs]) (simp add: release_def free_other_def lrep_quota)
  qed
qed

lemma grows_append_node: "grows True (append_node ino s) 1 [(ino, s)]"
  unfolding grows_def if_True
proof (intro allI impI)
  fix l and p :: proc and as xs assume r: "lrep (hp p) l as xs" and q: "1 \<le> quota (hp p)"
  let ?n = "\<lparr>inode_number = ino, npath = s, l_next = None\<rparr>" and ?a = "brk (hp p)"
  let ?m = "(hp p)\<lparr>cells := (cells (hp p))(?a := Some ?n), brk := Suc ?a, quota := quota (hp p) - 1\<rparr>"
  have fresh: "?a \<notin> set as" using lrep_less [OF r] by blast
  have "mem_ok ?m" using r by (simp add: lrep_def mem_ok_def)
  then have r': "lrep ?m l as xs" using fresh by (intro lrep_frame [OF r]) auto
  obtain m' l' where i: "fsa_insert_tail ?a ?m l = Inr (m', l')" "lrep m' l' (as @ [?a]) (xs @ [entry_of ?n])"
    "brk m' = brk ?m" "quota m' = quota ?m" "\<forall>b. b \<notin> set as \<longrightarrow> cells m' b = cells ?m b"
    using lrep_insert [OF r', of ?a ?n] fresh by auto
  then show "\<exists>l' p' bs. append_node ino s (l, p) = Inr (l', p') \<and> lrep (hp p') l' (as @ bs) (xs @ [(ino, s)]) \<and>
      (\<forall>b \<in> set bs. brk (hp p) \<le> b) \<and>
      (\<forall>b. b \<notin> set (as @ bs) \<longrightarrow> cells (hp p') b = cells (hp p) b) \<and>
      brk (hp p) \<le> brk (hp p') \<and> quota (hp p') + length [(ino, s)] = quota (hp p) \<and> sout p' = sout p"
    using q by (intro exI [of _ l'] exI [of _ "p\<lparr>hp := m'\<rparr>"] exI [of _ "[?a]"])
      (simp add: append_node_def fsa_create_node_def malloc_def entry_of_def)
qed

section \<open>The tree on the disk\<close>

text \<open>
  The entries of a directory block, from offset \<open>off\<close> on: inode, file type and name. Records lie
  inside the block and are at least twelve bytes long; the name of an entry in use is not empty
  and has no NUL.
\<close>

type_synonym dent = "32 word \<times> 8 word \<times> string"

definition entry_wf :: "string \<Rightarrow> nat \<Rightarrow> bool" where
  "entry_wf s off \<longleftrightarrow>
     12 \<le> de_rec s off \<and> 8 + de_nlen s off \<le> de_rec s off \<and> off + de_rec s off \<le> length s \<and>
     (de_ino s off \<noteq> 0 \<longrightarrow> de_nlen s off \<noteq> 0 \<and> nul \<notin> set (de_name s off))"

function dir_block :: "string \<Rightarrow> nat \<Rightarrow> dent list option" where
  "dir_block s off =
     (if length s \<le> off then Some []
      else if entry_wf s off then
        map_option (Cons (de_ino s off, de_type s off, de_name s off)) (dir_block s (off + de_rec s off))
      else None)"
  by pat_completeness auto

termination
  by (relation "measure (\<lambda>(s, off). length s - off)") (auto simp: entry_wf_def)

declare dir_block.simps [simp del]

definition visible :: "dent \<Rightarrow> bool" where
  "visible d = (case d of (ino, ft, nm) \<Rightarrow> ino \<noteq> 0 \<and> nm \<noteq> [] \<and> hd nm \<noteq> CHR ''.'')"

text \<open>An inode and a data block, where they lie inside the image.\<close>

definition inode_at :: "cenv \<Rightarrow> file_system_info \<Rightarrow> 32 word \<Rightarrow> string option" where
  "inode_at c fsi ino =
     (let loc = unat (inode_table_block fsi) * unat (block_size fsi) + (unat ino - 1) * unat (inode_size fsi) in
      if ino \<noteq> 0 \<and> loc + 128 \<le> length (disk_image c) then Some (take 128 (drop loc (disk_image c))) else None)"

definition block_at :: "cenv \<Rightarrow> file_system_info \<Rightarrow> 32 word \<Rightarrow> string option" where
  "block_at c fsi b =
     (let loc = unat b * unat (block_size fsi) in
      if loc + unat (block_size fsi) \<le> length (disk_image c)
      then Some (take (unat (block_size fsi)) (drop loc (disk_image c))) else None)"

abbreviation blk :: "string \<Rightarrow> nat \<Rightarrow> 32 word" where
  "blk inode i \<equiv> le32_dec (take 4 (drop (40 + 4 * i) inode))"

fun dir_blocks :: "cenv \<Rightarrow> file_system_info \<Rightarrow> string \<Rightarrow> nat list \<Rightarrow> dent list option" where
  "dir_blocks c fsi inode [] = Some []"
| "dir_blocks c fsi inode (i # is) =
     (if blk inode i = 0 then dir_blocks c fsi inode is
      else
        case block_at c fsi (blk inode i) of
          None \<Rightarrow> None
        | Some s \<Rightarrow>
            (case dir_block s 0 of
               None \<Rightarrow> None
             | Some ds \<Rightarrow> map_option (append ds) (dir_blocks c fsi inode is)))"

datatype etree = Entry (e_ino: "32 word") (e_type: "8 word") (e_name: string) (e_kids: "etree list")

definition shows_dir :: "cenv \<Rightarrow> file_system_info \<Rightarrow> string \<Rightarrow> etree list \<Rightarrow> bool" where
  "shows_dir c fsi inode ts =
     (case dir_blocks c fsi inode [0..<12] of
        None \<Rightarrow> False
      | Some ds \<Rightarrow> filter visible ds = map (\<lambda>t. (e_ino t, e_type t, e_name t)) ts)"

fun entry_ok :: "cenv \<Rightarrow> file_system_info \<Rightarrow> etree \<Rightarrow> bool" where
  "entry_ok c fsi (Entry ino ft nm ts) =
     (if ft = EXT2_FT_DIR then
        (case inode_at c fsi ino of
           None \<Rightarrow> False
         | Some inode \<Rightarrow> shows_dir c fsi inode ts \<and> list_all (entry_ok c fsi) ts)
      else ts = [])"

definition disk_tree :: "cenv \<Rightarrow> file_system_info \<Rightarrow> etree list \<Rightarrow> bool" where
  "disk_tree c fsi ts =
     (case inode_at c fsi EXT2_ROOT_INO of
        None \<Rightarrow> False
      | Some inode \<Rightarrow> shows_dir c fsi inode ts \<and> list_all (entry_ok c fsi) ts)"

fun tree_paths :: "string \<Rightarrow> etree \<Rightarrow> (32 word \<times> string) list" where
  "tree_paths p (Entry ino ft nm ts) =
     (ino, join_path p nm) # concat (map (tree_paths (join_path p nm)) ts)"

text \<open>
  Whether the arrays that \<open>fsa\<close> makes for the names and paths of a tree have the harmless bytes
  behind them that it overwrites: one behind \<open>file_name\<close>, two behind \<open>file_path\<close>.
\<close>

fun arrays_fit :: "cenv \<Rightarrow> string \<Rightarrow> etree \<Rightarrow> bool" where
  "arrays_fit c path (Entry ino ft nm ts) \<longleftrightarrow>
     1 \<le> pad c (length nm) \<and> 2 \<le> pad c (length path + length nm) \<and> list_all (arrays_fit c (join_path path nm)) ts"

fun depth :: "etree \<Rightarrow> nat" where
  "depth (Entry ino ft nm ts) = Suc (foldr max (map depth ts) 0)"

abbreviation depths :: "etree list \<Rightarrow> nat" where
  "depths ts \<equiv> foldr max (map depth ts) 0"

lemma depth_le: "t \<in> set ts \<Longrightarrow> depth t \<le> depths ts"
  by (induction ts) (auto simp: le_max_iff_disj)

text \<open>The image fits into \<open>int\<close> offsets; names are read whole.\<close>

definition disk_ok :: "cenv \<Rightarrow> file_system_info \<Rightarrow> bool" where
  "disk_ok c fsi \<longleftrightarrow> length (disk_image c) < 2 ^ 31 \<and> 263 \<le> dsz c \<and> 0 < unat (block_size fsi)"

section \<open>Reading\<close>

lemma sint_small:
  assumes "uint (w :: 32 word) < 2 ^ 31"
  shows "sint w = uint w"
proof -
  have "0 \<le> uint w" by simp
  then have "- (2 ^ 31) \<le> uint w" by (rule order_trans [rotated]) simp
  then show ?thesis using signed_take_bit_int_eq_self [of 31 "uint w"] assms by (simp add: sint_uint)
qed

lemma sint_int: "uint (w :: 32 word) = int n \<Longrightarrow> n < 2 ^ 31 \<Longrightarrow> sint w = int n"
  using sint_small [of w] by simp

lemma unat_mult_small: "unat a * unat b < 2 ^ 32 \<Longrightarrow> unat (a * b :: 32 word) = unat a * unat b"
  by (simp add: unat_word_ariths)

lemma unat_add_small: "unat a + unat b < 2 ^ 32 \<Longrightarrow> unat (a + b :: 32 word) = unat a + unat b"
  by (simp add: unat_word_ariths)

lemma alloc_ok: "0 < quota (hp p) \<Longrightarrow> alloc p = (True, p\<lparr>hp := (hp p)\<lparr>quota := quota (hp p) - 1\<rparr>\<rparr>)"
  by (simp add: alloc_def malloc_other_def)

lemma lseek_ok: "lseek_set (int n) p = (int n, p\<lparr>foff := int n\<rparr>)"
  by (simp add: lseek_set_def)

lemma read_inode_ok:
  assumes "disk_ok c fsi" and "inode_at c fsi ino = Some inode" and "0 < quota (hp p)"
  shows "\<exists>f. read_inode c fsi ino p = Inr (inode, p\<lparr>hp := (hp p)\<lparr>quota := quota (hp p) - 1\<rparr>, foff := f\<rparr>)"
proof -
  let ?a = "unat (inode_table_block fsi) * unat (block_size fsi)" and ?b = "(unat ino - 1) * unat (inode_size fsi)"
  have h: "ino \<noteq> 0" "?a + ?b + 128 \<le> length (disk_image c)" "length (disk_image c) < 2 ^ 31"
    "inode = take 128 (drop (?a + ?b) (disk_image c))"
    using assms(1,2) by (auto simp: inode_at_def disk_ok_def Let_def split: if_splits)
  have i: "unat (ino - 1) = unat ino - 1" using h(1) by (simp add: unat_minus_one)
  have "unat (inode_table_block fsi * block_size fsi + (ino - 1) * inode_size fsi) = ?a + ?b"
    using h(2,3) i by (simp add: unat_add_small unat_mult_small)
  then have u: "uint (inode_table_block fsi * block_size fsi + (ino - 1) * inode_size fsi) = int (?a + ?b)"
    by (metis uint_nat)
  show ?thesis unfolding read_inode_def Let_def alloc_ok [OF assms(3)] u
    by (simp add: lseek_ok read_disk_def h(4) del: of_nat_add of_nat_mult) (metis proc.surjective proc.update_convs)
qed

lemma u8_dot: "u8_dec [b] = 46 \<longleftrightarrow> b = CHR ''.''"
proof
  assume "u8_dec [b] = 46"
  then have "[b] = u8_enc 46" using u8f.enc_dec [of "[b]"] by simp
  then show "b = CHR ''.''" by (simp add: u8_enc_def char_of_iff)
qed (simp add: u8_dec_def)

text \<open>The bytes of an entry, as \<open>read\<close> delivers them and as they lie in their block.\<close>

definition block_in :: "cenv \<Rightarrow> nat \<Rightarrow> string \<Rightarrow> bool" where
  "block_in c base s \<longleftrightarrow> s = take (length s) (drop base (disk_image c)) \<and>
     base + length s \<le> length (disk_image c) \<and> length (disk_image c) < 2 ^ 31 \<and> 263 \<le> dsz c"

definition dirent_in :: "cenv \<Rightarrow> nat \<Rightarrow> string \<Rightarrow> nat \<Rightarrow> string \<Rightarrow> bool" where
  "dirent_in c base s off dirent \<longleftrightarrow>
     block_in c base s \<and> dirent = take (dsz c) (drop (base + off) (disk_image c)) \<and> entry_wf s off"

lemma block_field:
  assumes b: "block_in c base s" and "j + n \<le> 263" and "off + j + n \<le> length s"
    and dirent: "dirent = take (dsz c) (drop (base + off) (disk_image c))"
  shows "take n (drop j dirent) = take n (drop (off + j) s)" and "j + n \<le> length dirent"
proof -
  have "min n (dsz c - j) = n" using b assms(2) by (auto simp: block_in_def)
  then have "take n (drop j dirent) = take n (drop (base + off + j) (disk_image c))"
    by (simp add: dirent drop_take add.commute add.left_commute)
  also have "\<dots> = take n (drop (off + j) (take (length s) (drop base (disk_image c))))"
    using assms(3) by (simp add: drop_take add.commute add.left_commute)
  finally show "take n (drop j dirent) = take n (drop (off + j) s)" using b unfolding block_in_def by metis
  have "base + length s \<le> length (disk_image c)" "263 \<le> dsz c"
    "length dirent = min (length (disk_image c) - (base + off)) (dsz c)" using b by (simp_all add: block_in_def dirent)
  then show "j + n \<le> length dirent" using assms(2,3) by linarith
qed

lemma dirent_field:
  assumes d: "dirent_in c base s off dirent" and "j + n \<le> 263" and "off + j + n \<le> length s"
  shows "take n (drop j dirent) = take n (drop (off + j) s)" and "j + n \<le> length dirent"
  using block_field [OF _ assms(2,3)] d by (auto simp: dirent_in_def)

lemma dirent_room: "dirent_in c base s off dirent \<Longrightarrow> off + 12 \<le> length s"
  by (simp add: dirent_in_def entry_wf_def)

lemma dirent_fields:
  assumes d: "dirent_in c base s off dirent"
  shows "get_le32 0 dirent = Inr (de_ino s off)" "get_le16 4 dirent = Inr (le16_dec (take 2 (drop (off + 4) s)))"
    "get_u8 6 dirent = Inr (u8_dec (take 1 (drop (off + 6) s)))" "get_u8 7 dirent = Inr (de_type s off)"
    "get_u8 8 dirent = Inr (u8_dec (take 1 (drop (off + 8) s)))"
  using dirent_room [OF d] dirent_field [OF d, of 0 4] dirent_field [OF d, of 4 2] dirent_field [OF d, of 6 1]
    dirent_field [OF d, of 7 1] dirent_field [OF d, of 8 1]
  by (simp_all add: get_at_def del: One_nat_def)

lemma dirent_name_room:
  assumes "dirent_in c base s off dirent"
  shows "8 + de_nlen s off \<le> 263" "off + 8 + de_nlen s off \<le> length s"
  using assms unat_bound [of "u8_dec (take 1 (drop (off + 6) s))"] by (auto simp: dirent_in_def entry_wf_def)

lemma dirent_listed:
  assumes d: "dirent_in c base s off dirent"
  shows "entry_listed dirent = Inr (visible (de_ino s off, de_type s off, de_name s off))"
proof -
  have "off + 8 < length s" using dirent_room [OF d] by simp
  then obtain b where b: "drop (off + 8) s = b # drop (off + 9) s"
    using Cons_nth_drop_Suc [of "off + 8" s]
    by (metis Suc_eq_plus1 add_Suc_right numeral_plus_one semiring_norm(5) eval_nat_numeral(3))
  show ?thesis
  proof (cases "de_ino s off = 0")
    case False
    then have "de_name s off = b # take (de_nlen s off - 1) (drop (off + 9) s)"
      using d b by (cases "de_nlen s off") (auto simp: dirent_in_def entry_wf_def)
    then show ?thesis using False dirent_fields(1,5) [OF d] b u8_dot by (simp add: entry_listed_def visible_def)
  qed (use dirent_fields(1,5) [OF d] in \<open>simp add: entry_listed_def visible_def\<close>)
qed

abbreviation name_fits :: "cenv \<Rightarrow> string \<Rightarrow> string \<Rightarrow> bool" where
  "name_fits c path nm \<equiv> 1 \<le> pad c (length nm) \<and> 2 \<le> pad c (length path + length nm)"

lemma dirent_path:
  assumes d: "dirent_in c base s off dirent" and "de_ino s off \<noteq> 0"
  shows "entry_path c path dirent =
    (if name_fits c path (de_name s off) then Inr (join_path path (de_name s off)) else Inl Overflow)"
proof -
  have "cstr (de_name s off) = de_name s off"
    using d assms(2) by (auto simp: dirent_in_def entry_wf_def cstr_def takeWhile_eq_all_conv)
  moreover have "length (de_name s off) = de_nlen s off" using dirent_name_room(2) [OF d] by simp
  ultimately show ?thesis using dirent_fields(3) [OF d] dirent_field [OF d dirent_name_room [OF d]]
    by (auto simp: entry_path_def not_le not_less simp del: One_nat_def)
qed

lemma read_dirent_ok:
  assumes "uint index = int (base + off)" and "base + off < 2 ^ 31" and "0 < quota (hp p)"
  shows "\<exists>f. read_dirent c index p = Inr (take (dsz c) (drop (base + off) (disk_image c)),
    p\<lparr>hp := (hp p)\<lparr>quota := quota (hp p) - 1\<rparr>, foff := f\<rparr>)"
proof -
  have "sint index = int (base + off)" using assms(1,2) sint_small [of index] by simp
  then show ?thesis unfolding read_dirent_def alloc_ok [OF assms(3)]
    by (simp add: lseek_ok read_disk_def del: of_nat_add) (metis proc.surjective proc.update_convs)
qed

text \<open>The number of objects needed to list the trees \<open>ts\<close> below \<open>path\<close>.\<close>

definition need :: "string \<Rightarrow> etree list \<Rightarrow> nat" where
  "need path ts = length (concat (map (tree_paths path) ts)) + 2 * depths ts + 1"

text \<open>\<open>lists_sub K t\<close>: with fuel \<open>K\<close> the directory of entry \<open>t\<close> is listed.\<close>

definition lists_sub :: "cenv \<Rightarrow> file_system_info \<Rightarrow> nat \<Rightarrow> etree \<Rightarrow> bool" where
  "lists_sub c fsi K t \<longleftrightarrow>
     (if e_type t = EXT2_FT_DIR then
        (\<exists>inode. inode_at c fsi (e_ino t) = Some inode \<and>
          (\<forall>k path. K \<le> k \<longrightarrow> grows (list_all (arrays_fit c path) (e_kids t)) (read_blocks k c fsi inode path [0..<12])
             (need path (e_kids t)) (concat (map (tree_paths path) (e_kids t)))))
      else e_kids t = [])"

definition list_entry :: "nat \<Rightarrow> cenv \<Rightarrow> file_system_info \<Rightarrow> string \<Rightarrow> etree \<Rightarrow> inode_list \<times> proc \<Rightarrow>
    (inode_list \<times> proc) res" where
  "list_entry k c fsi path t lp =
     (if name_fits c path (e_name t) then
        bindE (append_node (e_ino t) (join_path path (e_name t)) lp) (\<lambda>lp.
        if e_type t = EXT2_FT_DIR then
          bindE (read_inode c fsi (e_ino t) (snd lp)) (\<lambda>(tmp, p).
          bindE (read_blocks k c fsi tmp (join_path path (e_name t)) [0..<12] (fst lp, p)) (\<lambda>(l, p).
          Inr (l, release p)))
        else Inr lp)
      else Inl Overflow)"

lemma list_entry_grows:
  assumes ok: "disk_ok c fsi" and sub: "lists_sub c fsi K t" and k: "K \<le> k"
  shows "grows (arrays_fit c path t) (list_entry k c fsi path t) (length (tree_paths path t) + 2 * depth t) (tree_paths path t)"
proof -
  obtain ino ft nm ts where t: "t = Entry ino ft nm ts" by (cases t)
  let ?p = "join_path path nm"
  let ?sub = "\<lambda>lp. if ft = EXT2_FT_DIR then
       bindE (read_inode c fsi ino (snd lp)) (\<lambda>(tmp, p).
       bindE (read_blocks k c fsi tmp ?p [0..<12] (fst lp, p)) (\<lambda>(l, p). Inr (l, release p)))
     else Inr lp"
  have g: "grows (list_all (arrays_fit c ?p) ts) ?sub (Suc (need ?p ts)) (concat (map (tree_paths ?p) ts))"
  proof (cases "ft = EXT2_FT_DIR")
    case True
    then obtain inode where i: "inode_at c fsi ino = Some inode"
      and gr: "grows (list_all (arrays_fit c ?p) ts) (read_blocks k c fsi inode ?p [0..<12]) (need ?p ts) (concat (map (tree_paths ?p) ts))"
      using sub k by (auto simp: lists_sub_def t)
    obtain h where h: "\<And>p. 0 < quota (hp p) \<Longrightarrow> read_inode c fsi ino p =
        Inr (inode, p\<lparr>hp := (hp p)\<lparr>quota := quota (hp p) - 1\<rparr>, foff := h p\<rparr>)"
      using read_inode_ok [OF ok i] by metis
    show ?thesis by (rule grows_scratch [OF gr, of _ "\<lambda>_. h"]) (use True h in simp)
  qed (use sub in \<open>simp add: lists_sub_def t grows_none\<close>)
  have len: "max 1 (length [(ino, ?p)] + Suc (need ?p ts)) = length (tree_paths path t) + 2 * depth t"
    by (simp add: need_def t)
  show ?thesis
  proof (cases "name_fits c path nm")
    case True
    have "grows (list_all (arrays_fit c ?p) ts) (list_entry k c fsi path t) (max 1 (length [(ino, ?p)] + Suc (need ?p ts)))
        ([(ino, ?p)] @ concat (map (tree_paths ?p) ts))"
      using grows_bind [OF grows_append_node g, of ino ?p] True by (simp add: list_entry_def [abs_def] t cong: if_cong)
    then show ?thesis using len True by (simp add: t)
  next
    case False
    then have "\<not> arrays_fit c path t" by (auto simp: t)
    moreover have "grows False (list_entry k c fsi path t) n es" for n es
      by (rule grows_overrunI) (use False in \<open>auto simp: list_entry_def t\<close>)
    ultimately show ?thesis by simp
  qed
qed

abbreviation dent_of :: "etree \<Rightarrow> dent" where
  "dent_of t \<equiv> (e_ino t, e_type t, e_name t)"

lemma next_index_ok:
  assumes "uint index = int n" and "n + unat rl < 2 ^ 31"
  shows "next_index index rl = Inr (index + ucast rl)" and "uint (index + ucast rl :: 32 word) = int (n + unat rl)"
proof -
  have n: "unat index = n" using assms(1) by (metis nat_int unat_eq_nat_uint)
  have "sint index = int n" using sint_small [of index] assms by simp
  moreover have "int (n + unat rl) < int (2 ^ 31)" using assms(2) by (simp only: of_nat_less_iff)
  ultimately show "next_index index rl = Inr (index + ucast rl)" by (simp add: next_index_def)
  have "unat (ucast rl :: 32 word) = unat rl" using unat_bound [of rl] by (simp add: unsigned_ucast_eq take_bit_nat_eq_self)
  then have "unat (index + ucast rl :: 32 word) = n + unat rl" using assms(2) n by (subst unat_add_small) auto
  then show "uint (index + ucast rl :: 32 word) = int (n + unat rl)" by (metis uint_nat)
qed

lemma read_entries_step:
  assumes b: "block_in c base s" and off: "off < length s" and wf: "entry_wf s off"
    and q: "0 < quota (hp p)"
    and ix: "uint index = int (base + off)" and lim: "uint lim = int (base + length s)"
    and t: "visible (de_ino s off, de_type s off, de_name s off) \<Longrightarrow> dent_of t = (de_ino s off, de_type s off, de_name s off)"
  shows "\<exists>f. read_entries (Suc k) c fsi path index lim (l, p) =
    bindE (bindE ((if visible (de_ino s off, de_type s off, de_name s off) then list_entry k c fsi path t else Inr)
                    (l, p\<lparr>hp := (hp p)\<lparr>quota := quota (hp p) - 1\<rparr>, foff := f\<rparr>))
             (\<lambda>(l, p). Inr (l, release p)))
      (read_entries k c fsi path (index + ucast (le16_dec (take 2 (drop (off + 4) s)))) lim)"
proof -
  let ?v = "visible (de_ino s off, de_type s off, de_name s off)"
  let ?rl = "le16_dec (take 2 (drop (off + 4) s))"
  let ?de = "take (dsz c) (drop (base + off) (disk_image c))"
  have d: "dirent_in c base s off ?de" using b wf by (simp add: dirent_in_def)
  have small: "base + off + unat ?rl < 2 ^ 31" "base + off < 2 ^ 31" "base + length s < 2 ^ 31"
    using b wf off by (auto simp: block_in_def entry_wf_def)
  obtain f where r: "read_dirent c index p = Inr (?de, p\<lparr>hp := (hp p)\<lparr>quota := quota (hp p) - 1\<rparr>, foff := f\<rparr>)"
    using read_dirent_ok [OF ix small(2) q, of c] by blast
  have lt: "sint index < sint lim" using ix lim small off sint_small [of index] sint_small [of lim] by simp
  note fld = dirent_fields [OF d] dirent_listed [OF d] dirent_path [OF d] next_index_ok(1) [OF ix small(1)]
  show ?thesis
  proof (cases ?v)
    case True
    then have i: "de_ino s off \<noteq> 0" by (simp add: visible_def)
    show ?thesis
      by (rule exI [of _ f]) (use True lt r fld i t [OF True] in
        \<open>auto simp: list_entry_def bindE_assoc case_prod_unfold EXT2_NDIR_BLOCKS_def simp del: One_nat_def cong: if_cong\<close>)
  next
    case False
    show ?thesis by (rule exI [of _ f]) (use False lt r fld in \<open>simp del: One_nat_def\<close>)
  qed
qed

declare read_entries.simps [simp del]

lemma dir_block_length: "dir_block s off = Some ds \<Longrightarrow> off + 12 * length ds \<le> max off (length s)"
proof (induction s off arbitrary: ds rule: dir_block.induct)
  case (1 s off)
  show ?case
  proof (cases "length s \<le> off")
    case True
    then show ?thesis using 1(2) by (simp add: dir_block.simps [of s off])
  next
    case False
    then obtain es where es: "entry_wf s off" "dir_block s (off + de_rec s off) = Some es" "length ds = Suc (length es)"
      using 1(2) by (auto simp: dir_block.simps [of s off] split: if_splits)
    then show ?thesis using 1(1) [OF False es(1,2)] by (auto simp: entry_wf_def)
  qed
qed

lemma need_Cons:
  "length (tree_paths path t) + 2 * depth t \<le> need path (t # ts) - 1"
  "length (tree_paths path t) + need path ts \<le> need path (t # ts)" "1 \<le> need path ts"
  by (simp_all add: need_def)

lemma dir_block_Cons:
  assumes "dir_block s off = Some (d # ds)"
  shows "off < length s" and "entry_wf s off" and "d = (de_ino s off, de_type s off, de_name s off)"
    and "dir_block s (off + de_rec s off) = Some ds" and "off + de_rec s off \<le> length s"
  using assms by (auto simp: dir_block.simps [of s off] entry_wf_def split: if_splits)

lemma read_entries_Suc:
  assumes bl: "block_in c base s" and off: "off < length s" and wf: "entry_wf s off"
    and ix: "uint index = int (base + off)" and lim: "uint lim = int (base + length s)"
    and t: "visible (de_ino s off, de_type s off, de_name s off) \<Longrightarrow> dent_of t = (de_ino s off, de_type s off, de_name s off)"
    and f: "grows a (if visible (de_ino s off, de_type s off, de_name s off) then list_entry k c fsi path t else Inr) n es"
    and g: "grows b (read_entries k c fsi path (index + ucast (le16_dec (take 2 (drop (off + 4) s)))) lim) n' fs"
  shows "grows (a \<and> b) (read_entries (Suc k) c fsi path index lim) (max (Suc n) (length es + n')) (es @ fs)"
proof -
  let ?f = "if visible (de_ino s off, de_type s off, de_name s off) then list_entry k c fsi path t else Inr"
  let ?g = "read_entries k c fsi path (index + ucast (le16_dec (take 2 (drop (off + 4) s)))) lim"
  let ?p = "\<lambda>p f. p\<lparr>hp := (hp p)\<lparr>quota := quota (hp p) - 1\<rparr>, foff := f\<rparr>"
  have "\<forall>l p. \<exists>x. 0 < quota (hp p) \<longrightarrow> read_entries (Suc k) c fsi path index lim (l, p) =
      bindE (bindE (?f (l, ?p p x)) (\<lambda>(l, p). Inr (l, release p))) ?g"
    using read_entries_step [OF bl off wf _ ix lim t] by blast
  then obtain h where h: "\<And>l p. 0 < quota (hp p) \<Longrightarrow> read_entries (Suc k) c fsi path index lim (l, p) =
      bindE (bindE (?f (l, ?p p (h l p))) (\<lambda>(l, p). Inr (l, release p))) ?g"
    by metis
  let ?s = "\<lambda>(l, p). bindE (?f (l, ?p p (h l p))) (\<lambda>(l, p). Inr (l, release p))"
  have "grows a ?s (Suc n) es" by (rule grows_scratch [OF f, of _ h]) simp
  from grows_bind [OF this g] show ?thesis by (rule grows_cong) (use h in auto)
qed

lemma read_entries_grows:
  assumes b: "block_in c base s" and ok: "disk_ok c fsi"
    and lim: "uint lim = int (base + length s)"
  shows "dir_block s off = Some ds \<Longrightarrow> filter visible ds = map dent_of ts \<Longrightarrow>
    list_all (lists_sub c fsi K) ts \<Longrightarrow> uint index = int (base + off) \<Longrightarrow> off \<le> length s \<Longrightarrow> K + length ds < k \<Longrightarrow>
    grows (list_all (arrays_fit c path) ts) (read_entries k c fsi path index lim) (need path ts) (concat (map (tree_paths path) ts))"
proof (induction ds arbitrary: off ts index k)
  case Nil
  then obtain k' where k: "k = Suc k'" by (cases k) auto
  have "off = length s" using Nil.prems(1,5) by (auto simp: dir_block.simps [of s off] split: if_splits)
  then have "index = lim" using Nil.prems(4) lim by (metis unsigned_word_eqI)
  then have "grows True (read_entries k c fsi path index lim) n []" for n
    using k by (intro grows_cong [OF grows_none]) (simp_all add: read_entries.simps)
  then show ?case using Nil.prems(2) by simp
next
  case (Cons d ds)
  then obtain k' where k: "k = Suc k'" by (cases k) auto
  note bc = dir_block_Cons [OF Cons.prems(1)]
  let ?rl = "le16_dec (take 2 (drop (off + 4) s))"
  have ix: "uint (index + ucast ?rl :: 32 word) = int (base + (off + unat ?rl))"
    using next_index_ok(2) [OF Cons.prems(4), of ?rl] b bc(5) by (simp add: block_in_def add.assoc)
  have IH: "grows (list_all (arrays_fit c path) us) (read_entries k' c fsi path (index + ucast ?rl) lim) (need path us) (concat (map (tree_paths path) us))"
    if "filter visible ds = map dent_of us" "list_all (lists_sub c fsi K) us" for us
    using Cons.IH [OF bc(4) that ix bc(5)] Cons.prems(6) k by simp
  show ?case
  proof (cases "visible d")
    case True
    then obtain t us where ts: "ts = t # us" "dent_of t = d" "filter visible ds = map dent_of us"
      using Cons.prems(2) by auto
    have "grows (arrays_fit c path t) (if visible d then list_entry k' c fsi path t else Inr) (length (tree_paths path t) + 2 * depth t)
        (tree_paths path t)"
      using list_entry_grows [OF ok, of K t k'] Cons.prems(3,6) k ts(1) True by simp
    from read_entries_Suc [OF b bc(1,2) Cons.prems(4) lim _ this [unfolded bc(3)] IH [OF ts(3)]]
    have "grows (list_all (arrays_fit c path) ts) (read_entries k c fsi path index lim)
        (max (Suc (length (tree_paths path t) + 2 * depth t)) (length (tree_paths path t) + need path us))
        (concat (map (tree_paths path) ts))"
      using Cons.prems(3) ts(1,2) bc(3) k by simp
    then show ?thesis by (rule grows_mono) (use need_Cons(1,2) [of path t us] need_Cons(3) [of path "t # us"] ts(1) in simp)
  next
    case False
    then have us: "filter visible ds = map dent_of ts" using Cons.prems(2) by simp
    have "grows True (if visible d then list_entry k' c fsi path t else Inr) 0 []" for t using False grows_none by simp
    from read_entries_Suc [OF b bc(1,2) Cons.prems(4) lim _ this [unfolded bc(3)] IH [OF us]]
    have "grows (list_all (arrays_fit c path) ts) (read_entries k c fsi path index lim) (max (Suc 0) (need path ts)) (concat (map (tree_paths path) ts))"
      using Cons.prems(3) False bc(3) k by simp
    then show ?thesis by (rule grows_mono) (use need_Cons(3) [of path ts] in simp)
  qed
qed

lemma need_append:
  "need path ts \<le> need path (ts @ us)" "length (concat (map (tree_paths path) ts)) + need path us \<le> need path (ts @ us)"
proof -
  have "depths (ts @ us) = max (depths ts) (depths us)" by (induction ts) auto
  then show "need path ts \<le> need path (ts @ us)"
    "length (concat (map (tree_paths path) ts)) + need path us \<le> need path (ts @ us)" by (simp_all add: need_def)
qed

lemma block_at_in:
  assumes "disk_ok c fsi" and "block_at c fsi b = Some s"
  shows "block_in c (unat b * unat (block_size fsi)) s" and "length s = unat (block_size fsi)"
    and "uint (b * block_size fsi) = int (unat b * unat (block_size fsi))"
    and "uint (b * block_size fsi + block_size fsi) = int (unat b * unat (block_size fsi) + length s)"
proof -
  let ?n = "unat b * unat (block_size fsi)"
  have h: "s = take (unat (block_size fsi)) (drop ?n (disk_image c))" "?n + unat (block_size fsi) \<le> length (disk_image c)"
    "length (disk_image c) < 2 ^ 31" "263 \<le> dsz c"
    using assms by (auto simp: block_at_def disk_ok_def Let_def split: if_splits)
  then show len: "length s = unat (block_size fsi)" by simp
  show "block_in c ?n s" using h len by (simp add: block_in_def)
  have u: "unat (b * block_size fsi) = ?n" using h(2,3) by (intro unat_mult_small) simp
  then show "uint (b * block_size fsi) = int ?n" by (metis uint_nat)
  have "unat (b * block_size fsi + block_size fsi) = ?n + length s"
    using h(2,3) u len by (subst unat_add_small) auto
  then show "uint (b * block_size fsi + block_size fsi) = int (?n + length s)" by (metis uint_nat)
qed

lemma i_block_ok: "length inode = 128 \<Longrightarrow> i \<le> 14 \<Longrightarrow> i_block inode i = Inr (blk inode i)"
  by (simp add: i_block_def get_at_def)

lemma read_blocks_grows:
  assumes ok: "disk_ok c fsi" and len: "length inode = 128"
    and k: "K + unat (block_size fsi) div 12 < k"
  shows "dir_blocks c fsi inode is = Some ds \<Longrightarrow> filter visible ds = map dent_of ts \<Longrightarrow>
    list_all (lists_sub c fsi K) ts \<Longrightarrow> \<forall>i \<in> set is. i \<le> 14 \<Longrightarrow>
    grows (list_all (arrays_fit c path) ts) (read_blocks k c fsi inode path is) (need path ts) (concat (map (tree_paths path) ts))"
proof (induction "is" arbitrary: ds ts)
  case Nil
  then show ?case by (auto intro: grows_cong [OF grows_none])
next
  case (Cons i "is")
  let ?b = "blk inode i"
  show ?case
  proof (cases "?b = 0")
    case True
    then show ?thesis using Cons i_block_ok [OF len, of i] by (auto intro: grows_cong)
  next
    case False
    then obtain s ds1 ds2 where s: "block_at c fsi ?b = Some s" "dir_block s 0 = Some ds1"
      "dir_blocks c fsi inode is = Some ds2" "ds = ds1 @ ds2"
      using Cons.prems(1) by (auto split: option.splits)
    obtain ts1 ts2 where ts: "ts = ts1 @ ts2" "filter visible ds1 = map dent_of ts1" "filter visible ds2 = map dent_of ts2"
      using Cons.prems(2) s(4) append_eq_map_conv [of "filter visible ds1" "filter visible ds2" dent_of ts] by auto
    note b = block_at_in [OF ok s(1)]
    have "12 * length ds1 \<le> unat (block_size fsi)" using dir_block_length [OF s(2)] b(2) by simp
    then have "K + length ds1 < k" using k by linarith
    then have "grows (list_all (arrays_fit c path) ts1) (read_entries k c fsi path (?b * block_size fsi) (?b * block_size fsi + block_size fsi))
        (need path ts1) (concat (map (tree_paths path) ts1))"
      using read_entries_grows [OF b(1) ok b(4) s(2) ts(2), of K] Cons.prems(3) b(3) ts(1) by simp
    from grows_bind [OF this Cons.IH [OF s(3) ts(3)]]
    have "grows (list_all (arrays_fit c path) ts) (read_blocks k c fsi inode path (i # is))
        (max (need path ts1) (length (concat (map (tree_paths path) ts1)) + need path ts2))
        (concat (map (tree_paths path) ts1) @ concat (map (tree_paths path) ts2))"
      using Cons.prems(3,4) ts(1) False i_block_ok [OF len, of i] by (auto intro: grows_cong)
    then have "grows (list_all (arrays_fit c path) ts) (read_blocks k c fsi inode path (i # is)) (need path ts)
        (concat (map (tree_paths path) ts1) @ concat (map (tree_paths path) ts2))"
      by (rule grows_mono) (use need_append [of path ts1 ts2] ts(1) in simp)
    then show ?thesis by (simp only: ts(1) map_append concat_append)
  qed
qed

lemma inode_at_length: "inode_at c fsi ino = Some inode \<Longrightarrow> length inode = 128"
  by (auto simp: inode_at_def Let_def split: if_splits)

text \<open>Fuel for one level of directories: the most entries a block can hold, and one.\<close>

abbreviation level_fuel :: "file_system_info \<Rightarrow> nat" where
  "level_fuel fsi \<equiv> unat (block_size fsi) div 12 + 1"

lemma shows_dir_grows:
  assumes "disk_ok c fsi" and "length inode = 128" and "shows_dir c fsi inode ts"
    and sub: "\<forall>t \<in> set ts. lists_sub c fsi (depth t * level_fuel fsi) t" and k: "(depths ts + 1) * level_fuel fsi \<le> k"
  shows "grows (list_all (arrays_fit c path) ts) (read_blocks k c fsi inode path [0..<12]) (need path ts) (concat (map (tree_paths path) ts))"
proof -
  obtain ds where ds: "dir_blocks c fsi inode [0..<12] = Some ds" "filter visible ds = map dent_of ts"
    using assms(3) by (auto simp: shows_dir_def split: option.splits)
  have "lists_sub c fsi (depths ts * level_fuel fsi) t" if "t \<in> set ts" for t
  proof -
    have "depth t * level_fuel fsi \<le> depths ts * level_fuel fsi" using depth_le [OF that] by (rule mult_le_mono1)
    then show ?thesis using sub that unfolding lists_sub_def by (meson le_trans)
  qed
  then show ?thesis
    using read_blocks_grows [OF assms(1,2) _ ds, of "depths ts * level_fuel fsi" k path] k
    by (simp add: list_all_iff)
qed

lemma entry_ok_lists:
  assumes ok: "disk_ok c fsi"
  shows "entry_ok c fsi t \<Longrightarrow> lists_sub c fsi (depth t * level_fuel fsi) t"
proof (induction t)
  case (Entry ino ft nm ts)
  show ?case
  proof (cases "ft = EXT2_FT_DIR")
    case True
    then obtain inode where i: "inode_at c fsi ino = Some inode" "shows_dir c fsi inode ts" "list_all (entry_ok c fsi) ts"
      using Entry.prems by (auto split: option.splits)
    have "\<forall>t \<in> set ts. lists_sub c fsi (depth t * level_fuel fsi) t"
      using Entry.IH i(3) by (auto simp: list_all_iff)
    from shows_dir_grows [OF ok inode_at_length [OF i(1)] i(2) this] show ?thesis
      using True i(1) by (auto simp: lists_sub_def)
  qed (use Entry.prems in \<open>simp add: lists_sub_def\<close>)
qed

section \<open>The whole list\<close>

definition clean :: "list_node mem \<Rightarrow> bool" where
  "clean m \<longleftrightarrow> (\<forall>a. cells m a = None)"

abbreviation disk_paths :: "etree list \<Rightarrow> (32 word \<times> string) list" where
  "disk_paths ts \<equiv> concat (map (tree_paths []) ts) @ [(EXT2_ROOT_INO, ''/'')]"

lemma populate_disk:
  assumes ok: "disk_ok c fsi" and t: "disk_tree c fsi ts"
    and k: "(depths ts + 1) * level_fuel fsi \<le> k" and m: "clean (hp p)" and q: "need [] ts + 3 \<le> quota (hp p)"
  shows "if list_all (arrays_fit c []) ts
    then \<exists>l p' as. fsa_populate_list k c fsi p = Inr (l, p') \<and> lrep (hp p') l as (disk_paths ts) \<and>
      (\<forall>b. b \<notin> set as \<longrightarrow> cells (hp p') b = None) \<and> quota (hp p') + length (disk_paths ts) + 1 = quota (hp p) \<and>
      sout p' = sout p
    else fsa_populate_list k c fsi p = Inl Overflow"
proof -
  let ?l = "\<lparr>t_head = None, t_tail = None\<rparr> :: inode_list"
  obtain inode where i: "inode_at c fsi EXT2_ROOT_INO = Some inode" "shows_dir c fsi inode ts" "list_all (entry_ok c fsi) ts"
    using t by (auto simp: disk_tree_def split: option.splits)
  have "\<forall>t \<in> set ts. lists_sub c fsi (depth t * level_fuel fsi) t"
    using entry_ok_lists [OF ok] i(3) by (simp add: list_all_iff)
  note g = shows_dir_grows [OF ok inode_at_length [OF i(1)] i(2) this k, of "[]"]
  define p1 where "p1 = p\<lparr>hp := (hp p)\<lparr>quota := quota (hp p) - 1\<rparr>\<rparr>"
  obtain f where f: "read_inode c fsi EXT2_ROOT_INO p1 = Inr (inode, p1\<lparr>hp := (hp p1)\<lparr>quota := quota (hp p1) - 1\<rparr>, foff := f\<rparr>)"
    using read_inode_ok [OF ok i(1), of p1] q by (auto simp: p1_def)
  let ?r = "brk (hp p)" and ?n = "\<lparr>inode_number = EXT2_ROOT_INO, npath = ''/'', l_next = None\<rparr>"
  define p2 where "p2 = p1\<lparr>foff := f, hp := (hp p)\<lparr>cells := (cells (hp p))(?r := Some ?n), brk := Suc ?r, quota := quota (hp p) - 3\<rparr>\<rparr>"
  have r2: "lrep (hp p2) ?l [] []" using m by (simp add: lrep_def fl.holds_def mem_ok_def p2_def p1_def clean_def)
  have q2: "need [] ts \<le> quota (hp p2)" using q by (simp add: p2_def)
  have run: "fsa_populate_list k c fsi p = bindE (read_blocks k c fsi inode [] [0..<12] (?l, p2)) (\<lambda>(l, p).
      bindE (fsa_insert_tail ?r (hp p) l) (\<lambda>(m, l). Inr (l, release (p\<lparr>hp := m\<rparr>))))"
    using q f
    by (simp add: fsa_populate_list_def init_list_def malloc_other_def fsa_create_node_def malloc_def read_directory_def
        EXT2_NDIR_BLOCKS_def p1_def p2_def numeral_3_eq_3)
  show ?thesis
  proof (cases "list_all (arrays_fit c []) ts")
    case False
    then have "grows False (read_blocks k c fsi inode [] [0..<12]) (need [] ts) (concat (map (tree_paths []) ts))"
      using g by simp
    from grows_overrun [OF this r2 q2] show ?thesis using False run by simp
  next
    case True
    then have g: "grows True (read_blocks k c fsi inode [] [0..<12]) (need [] ts) (concat (map (tree_paths []) ts))"
      using g by simp
    from growsE [OF g r2 q2] obtain l3 p3 bs where g3: "read_blocks k c fsi inode [] [0..<12] (?l, p2) = Inr (l3, p3)"
      "lrep (hp p3) l3 ([] @ bs) ([] @ concat (map (tree_paths []) ts))" "\<forall>b \<in> set bs. brk (hp p2) \<le> b"
      "\<forall>b. b \<notin> set ([] @ bs) \<longrightarrow> cells (hp p3) b = cells (hp p2) b" "sout p3 = sout p2"
      "quota (hp p3) + length (concat (map (tree_paths []) ts)) = quota (hp p2)" by metis
    have nr: "?r \<notin> set bs" using g3(3) by (auto simp: p2_def)
    then have "cells (hp p3) ?r = Some ?n" using g3(4) by (simp add: p2_def)
    from lrep_insert [OF g3(2) this _] nr obtain m4 l4 where g4: "fsa_insert_tail ?r (hp p3) l3 = Inr (m4, l4)"
      "lrep m4 l4 (bs @ [?r]) (disk_paths ts)" "quota m4 = quota (hp p3)" "\<forall>b. b \<notin> set bs \<longrightarrow> cells m4 b = cells (hp p3) b"
      by (auto simp: entry_of_def)
    have "fsa_populate_list k c fsi p = Inr (l4, release (p3\<lparr>hp := m4\<rparr>))"
      using run g3(1) g4(1) by simp
    moreover have "\<forall>b. b \<notin> set (bs @ [?r]) \<longrightarrow> cells m4 b = None" using g4(4) g3(4) m by (simp add: p2_def clean_def)
    moreover have "quota m4 + 1 + length (disk_paths ts) + 1 = quota (hp p)" using g4(3) g3(6) q by (simp add: p2_def)
    ultimately have "\<exists>l p' as. fsa_populate_list k c fsi p = Inr (l, p') \<and> lrep (hp p') l as (disk_paths ts) \<and>
        (\<forall>b. b \<notin> set as \<longrightarrow> cells (hp p') b = None) \<and> quota (hp p') + length (disk_paths ts) + 1 = quota (hp p) \<and>
        sout p' = sout p"
      using g4(2) g3(5)
      by (intro exI [of _ l4] exI [of _ "release (p3\<lparr>hp := m4\<rparr>)"] exI [of _ "bs @ [?r]"])
        (simp add: release_def free_other_def lrep_quota p2_def p1_def)
    then show ?thesis using True by simp
  qed
qed

end
