(* ===== verification/Fsa_Run.thy ===== *)
theory Fsa_Run
  imports Fsa_Disk
begin

text \<open>
  The output of \<open>fsa\<close> on a well-formed image: \<open>-traverse\<close> prints the paths of the tree,
  \<open>-file\<close> the blocks of a file. Everything allocated is freed.
\<close>

section \<open>Using the list\<close>

lemma lrep_length:
  assumes "lrep m l as xs"
  shows "length as \<le> brk m" and "length as = length xs"
proof -
  have "set as \<subseteq> {..<brk m}" using lrep_less [OF assms] by auto
  then have "card (set as) \<le> brk m" using card_mono [of "{..<brk m}" "set as"] by simp
  then show "length as \<le> brk m" using assms by (simp add: lrep_def fl.holds_def distinct_card)
  show "length as = length xs" using assms unfolding lrep_def by (metis length_map)
qed

definition lines :: "(32 word \<times> string) list \<Rightarrow> string" where
  "lines xs = concat (map (\<lambda>e. snd e @ [CHR 0x0A]) xs)"

lemma print_nodes_ok:
  "fl.seg m p as \<Longrightarrow> map (\<lambda>a. map_option entry_of (cells m a)) as = map Some xs \<Longrightarrow> length as < k \<Longrightarrow>
    print_nodes k m p s = Inr (s @ lines xs)"
proof (induction as arbitrary: p xs s k)
  case Nil
  then show ?case by (cases k) (auto simp: lines_def)
next
  case (Cons a as)
  then obtain k' y ys where "k = Suc k'" "xs = y # ys" by (cases k; cases xs) auto
  with Cons show ?case by (auto simp: deref_def lines_def entry_of_def)
qed

definition path_ino :: "string \<Rightarrow> (32 word \<times> string) list \<Rightarrow> 32 word" where
  "path_ino s xs = (case find (\<lambda>e. snd e = s) xs of None \<Rightarrow> 0 | Some e \<Rightarrow> fst e)"

lemma search_nodes_ok:
  "fl.seg m p as \<Longrightarrow> map (\<lambda>a. map_option entry_of (cells m a)) as = map Some xs \<Longrightarrow> length as < k \<Longrightarrow>
    search_nodes k s m p = Inr (path_ino s xs)"
proof (induction as arbitrary: p xs k)
  case Nil
  then show ?case by (cases k) (auto simp: path_ino_def)
next
  case (Cons a as)
  then obtain k' y ys where "k = Suc k'" "xs = y # ys" by (cases k; cases xs) auto
  with Cons show ?case by (auto simp: deref_def path_ino_def entry_of_def strcmp_eq)
qed

lemma fsa_print_list_ok: "lrep (hp p) l as xs \<Longrightarrow> print_list l p = Inr (p\<lparr>sout := sout p @ lines xs\<rparr>)"
  using lrep_length(1) [of "hp p" l as xs] print_nodes_ok [of "hp p" "t_head l" as xs "Suc (brk (hp p))" "sout p"]
  by (simp add: print_list_def lrep_def fl.holds_def)

lemma search_by_path_ok: "lrep m l as xs \<Longrightarrow> search_by_path (Some s) l m = Inr (path_ino s xs)"
  using lrep_length(1) [of m l as xs] search_nodes_ok [of m "t_head l" as xs "Suc (brk m)" s]
  by (simp add: search_by_path_def lrep_def fl.holds_def)

lemma fsa_destroy_ok:
  assumes r: "lrep m l as xs" and "\<forall>b. b \<notin> set as \<longrightarrow> cells m b = None"
  shows "\<exists>m'. fsa_destroy_list l m = Inr m' \<and> clean m' \<and> quota m' = quota m + length xs + 1"
proof -
  obtain m' where "fsa_destroy_loop (Suc (brk m)) m (t_head l) = Inr m'"
    "\<forall>a. cells m' a = (if a \<in> set as then None else cells m a)" "quota m' = quota m + length as"
    using fl.wipe_ok [of m "t_head l" as "Suc (brk m)"] lrep_length(1) [OF r] r by (auto simp: lrep_def fl.holds_def)
  then show ?thesis using assms lrep_length(2) [OF r]
    by (simp add: fsa_destroy_list_def free_other_def clean_def)
qed

lemma print_disk_ok:
  assumes "disk_ok c fsi" and "disk_tree c fsi ts" and "(depths ts + 1) * level_fuel fsi \<le> k"
    and "clean (hp p)" and "need [] ts + 3 \<le> quota (hp p)"
  shows "if list_all (arrays_fit c []) ts
    then \<exists>p'. print_disk k c fsi p = Inr p' \<and> clean (hp p') \<and> quota (hp p') = quota (hp p) \<and>
      sout p' = sout p @ lines (disk_paths ts)
    else print_disk k c fsi p = Inl Overflow"
proof (cases "list_all (arrays_fit c []) ts")
  case True
  obtain l p1 as where 1: "fsa_populate_list k c fsi p = Inr (l, p1)" "lrep (hp p1) l as (disk_paths ts)"
    "\<forall>b. b \<notin> set as \<longrightarrow> cells (hp p1) b = None" "quota (hp p1) + length (disk_paths ts) + 1 = quota (hp p)" "sout p1 = sout p"
    using populate_disk [OF assms] True by auto
  obtain m' where 2: "fsa_destroy_list l (hp p1) = Inr m'" "clean m'" "quota m' = quota (hp p1) + length (disk_paths ts) + 1"
    using fsa_destroy_ok [OF 1(2,3)] by blast
  have "\<exists>p'. print_disk k c fsi p = Inr p' \<and> clean (hp p') \<and> quota (hp p') = quota (hp p) \<and>
      sout p' = sout p @ lines (disk_paths ts)"
    using 1 2 fsa_print_list_ok [OF 1(2)]
    by (intro exI [of _ "p1\<lparr>sout := sout p1 @ lines (disk_paths ts), hp := m'\<rparr>"]) (simp add: print_disk_def)
  then show ?thesis using True by simp
next
  case False
  then show ?thesis using populate_disk [OF assms] by (simp add: print_disk_def)
qed

section \<open>The blocks of a file\<close>

text \<open>A block as \<open>printf\<close> shows it.\<close>

definition block_text :: "cenv \<Rightarrow> string \<Rightarrow> string" where
  "block_text c s = (if nul \<in> set s then cstr s else s @ behind c)"

fun blocks_text :: "cenv \<Rightarrow> file_system_info \<Rightarrow> 32 word list \<Rightarrow> string option" where
  "blocks_text c fsi [] = Some []"
| "blocks_text c fsi (b # bs) =
     (if b = 0 then blocks_text c fsi bs
      else
        case block_at c fsi b of
          None \<Rightarrow> None
        | Some s \<Rightarrow> map_option (append (block_text c s)) (blocks_text c fsi bs))"

definition table_of :: "string \<Rightarrow> 32 word list" where
  "table_of s = map (\<lambda>j. le32_dec (take 4 (drop (4 * j) s))) [0..<length s div 4]"

text \<open>The block numbers of a file: the direct ones and those of the single indirect block.\<close>

definition file_blocks :: "cenv \<Rightarrow> file_system_info \<Rightarrow> string \<Rightarrow> 32 word list option" where
  "file_blocks c fsi inode =
     (let direct = map (blk inode) [0..<12] in
      if blk inode 12 = 0 then Some direct
      else map_option (\<lambda>s. direct @ table_of s) (block_at c fsi (blk inode 12)))"

lemma put_str_ok: "put_str c (map Some s) = Inr (block_text c s)"
  by (induction s) (auto simp: block_text_def cstr_def)

lemma blocks_text_append:
  "blocks_text c fsi (xs @ ys) = Some t \<longleftrightarrow>
    (\<exists>u v. blocks_text c fsi xs = Some u \<and> blocks_text c fsi ys = Some v \<and> t = u @ v)"
  by (induction xs arbitrary: t) (auto split: option.splits)

text \<open>
  \<open>prints f n t\<close>: on a buffer of \<open>n\<close> bytes, \<open>f\<close> appends \<open>t\<close> to the output and changes only the
  buffer and the file offset besides.
\<close>

definition prints :: "(linebuf \<times> proc \<Rightarrow> (linebuf \<times> proc) res) \<Rightarrow> nat \<Rightarrow> string \<Rightarrow> bool" where
  "prints f n t \<longleftrightarrow>
     (\<forall>buf p. length buf = n \<longrightarrow>
        (\<exists>buf' p'. f (buf, p) = Inr (buf', p') \<and> length buf' = n \<and> hp p' = hp p \<and> sout p' = sout p @ t))"

lemma prints_none: "prints Inr n []"
  by (simp add: prints_def)

lemma prints_bind: "prints f n t \<Longrightarrow> prints g n u \<Longrightarrow> prints (\<lambda>bp. bindE (f bp) g) n (t @ u)"
  unfolding prints_def by (metis (no_types, lifting) append.assoc bindE_Inr)

lemma prints_cong: "prints f n t \<Longrightarrow> (\<And>buf p. g (buf, p) = f (buf, p)) \<Longrightarrow> prints g n t"
  by (simp add: prints_def)

lemma prints_seek:
  assumes "prints f n t"
  shows "prints (\<lambda>(buf, p). f (buf, p\<lparr>foff := h\<rparr>)) n t"
  unfolding prints_def
proof (intro allI impI)
  fix buf :: linebuf and p :: proc assume "length buf = n"
  then show "\<exists>buf' p'. (case (buf, p) of (buf, p) \<Rightarrow> f (buf, p\<lparr>foff := h\<rparr>)) = Inr (buf', p') \<and> length buf' = n \<and>
      hp p' = hp p \<and> sout p' = sout p @ t"
    using assms [unfolded prints_def, rule_format, of buf "p\<lparr>foff := h\<rparr>"] by simp
qed

lemma read_disk_ok:
  "foff p = int n \<Longrightarrow> s = take k (drop n (disk_image c)) \<Longrightarrow>
    read_disk c k True p = Inr (s, p\<lparr>foff := int n + int (length s)\<rparr>)"
  by (simp add: read_disk_def)

lemma print_file_contents_ok:
  assumes "disk_ok c fsi" and "block_at c fsi b = Some s"
  shows "prints (print_file_contents c b (block_size fsi) True) (unat (block_size fsi)) (block_text c s)"
  unfolding prints_def
proof (intro allI impI)
  fix buf :: linebuf and p :: proc assume len: "length buf = unat (block_size fsi)"
  note b = block_at_in [OF assms]
  let ?n = "unat b * unat (block_size fsi)"
  have s: "s = take (unat (block_size fsi)) (drop ?n (disk_image c))" "?n < 2 ^ 31"
    using b(1,2) assms(1) unfolding block_in_def disk_ok_def by auto
  have "sint (b * block_size fsi) = int ?n" by (rule sint_int [OF b(3) s(2)])
  then have "print_file_contents c b (block_size fsi) True (buf, p) =
      Inr (map Some s, p\<lparr>foff := int ?n + int (length s), sout := sout p @ block_text c s\<rparr>)"
    using len b(2) read_disk_ok [OF _ s(1), of "p\<lparr>foff := int ?n\<rparr>"]
    by (simp add: print_file_contents_def lseek_ok put_str_ok del: of_nat_mult)
  then show "\<exists>buf' p'. print_file_contents c b (block_size fsi) True (buf, p) = Inr (buf', p') \<and>
      length buf' = unat (block_size fsi) \<and> hp p' = hp p \<and> sout p' = sout p @ block_text c s"
    using b(2) by simp
qed

lemma print_direct_ok:
  assumes ok: "disk_ok c fsi" and len: "length inode = 128"
  shows "blocks_text c fsi (map (blk inode) is) = Some t \<Longrightarrow> \<forall>i \<in> set is. i \<le> 14 \<Longrightarrow>
    prints (print_direct c fsi inode True is) (unat (block_size fsi)) t"
proof (induction "is" arbitrary: t)
  case Nil
  then show ?case by (auto intro: prints_cong [OF prints_none])
next
  case (Cons i "is")
  have i: "i_block inode i = Inr (blk inode i)" using i_block_ok [OF len, of i] Cons.prems(2) by simp
  show ?case
  proof (cases "blk inode i = 0")
    case True
    then have "prints (print_direct c fsi inode True is) (unat (block_size fsi)) t" using Cons by simp
    then show ?thesis by (rule prints_cong) (use i True in simp)
  next
    case False
    then obtain s u where s: "block_at c fsi (blk inode i) = Some s" "blocks_text c fsi (map (blk inode) is) = Some u"
      "t = block_text c s @ u"
      using Cons.prems(1) by (auto split: option.splits)
    have "prints (print_direct c fsi inode True is) (unat (block_size fsi)) u" using Cons s(2) by simp
    from prints_bind [OF print_file_contents_ok [OF ok s(1)] this] show ?thesis
      unfolding s(3) by (rule prints_cong) (use i False in simp)
  qed
qed

lemma print_indirect_ok:
  assumes ok: "disk_ok c fsi" and b: "block_at c fsi b = Some s" and dv: "4 dvd unat (block_size fsi)"
    and lim: "lim = b * block_size fsi + block_size fsi"
  shows "blocks_text c fsi (map (\<lambda>j. le32_dec (take 4 (drop (4 * j) s))) [j..<unat (block_size fsi) div 4]) = Some t \<Longrightarrow>
    uint index = int (unat b * unat (block_size fsi) + 4 * j) \<Longrightarrow> 4 * j \<le> unat (block_size fsi) \<Longrightarrow>
    unat (block_size fsi) div 4 - j < k \<Longrightarrow>
    prints (print_indirect k c fsi True index lim) (unat (block_size fsi)) t"
proof (induction k arbitrary: j index t)
  case (Suc k)
  let ?bs = "unat (block_size fsi)"
  let ?base = "unat b * ?bs"
  note bl = block_at_in [OF ok b]
  have l31: "?base + ?bs < 2 ^ 31" using bl(1,2) by (simp add: block_in_def)
  have sl: "sint lim = int (?base + ?bs)" using sint_int [OF bl(4)] l31 bl(2) lim by simp
  have si: "sint index = int (?base + 4 * j)" by (rule sint_int [OF Suc.prems(2)]) (use l31 Suc.prems(3) in linarith)
  show ?case
  proof (cases "4 * j = ?bs")
    case True
    then have "prints (print_indirect (Suc k) c fsi True index lim) ?bs []"
      by (intro prints_cong [OF prints_none]) (simp add: si sl del: of_nat_add of_nat_mult)
    then show ?thesis using True Suc.prems(1) by (simp del: print_indirect.simps)
  next
    case False
    then have lt: "4 * j < ?bs" using Suc.prems(3) by simp
    then have j4: "4 * Suc j \<le> ?bs" "j < ?bs div 4" using dv by auto
    let ?e = "le32_dec (take 4 (drop (4 * j) s))"
    have up: "[j..<?bs div 4] = j # [Suc j..<?bs div 4]" using j4(2) by (simp add: upt_rec)
    let ?f = "if ?e \<noteq> 0 then print_file_contents c ?e (block_size fsi) True else Inr"
    obtain u v where t: "prints ?f ?bs u" "blocks_text c fsi (map (\<lambda>j. le32_dec (take 4 (drop (4 * j) s))) [Suc j..<?bs div 4]) = Some v"
      "t = u @ v"
    proof (cases "?e = 0")
      case True
      then show thesis using that [of "[]" t] Suc.prems(1) prints_none by (simp add: up)
    next
      case False
      then obtain s' v where "block_at c fsi ?e = Some s'" "t = block_text c s' @ v"
        "blocks_text c fsi (map (\<lambda>j. le32_dec (take 4 (drop (4 * j) s))) [Suc j..<?bs div 4]) = Some v"
        using Suc.prems(1) by (auto simp: up split: option.splits)
      then show thesis using that [of "block_text c s'" v] print_file_contents_ok [OF ok, of ?e s'] False by simp
    qed
    have "unat (index + 4) = ?base + 4 * Suc j"
    proof -
      have "unat index = ?base + 4 * j" using Suc.prems(2) by (metis nat_int unat_eq_nat_uint)
      then show ?thesis using unat_add_small [of index 4] l31 j4(1) by simp
    qed
    then have ui: "uint (index + 4) = int (?base + 4 * Suc j)" by (metis uint_nat)
    have "prints (print_indirect k c fsi True (index + 4) lim) ?bs v"
      by (rule Suc.IH [OF t(2) ui j4(1)]) (use Suc.prems(4) j4(2) in linarith)
    from prints_bind [OF prints_seek [OF t(1)] this, of "int (?base + 4 * j) + 4"]
    show ?thesis unfolding t(3)
    proof (rule prints_cong)
      fix buf :: linebuf and p :: proc
      have e: "take 4 (drop (4 * j) s) = take 4 (drop (?base + 4 * j) (disk_image c))"
      proof -
        have "take 4 (drop (4 * j) s) = take 4 (drop (4 * j) (take ?bs (drop ?base (disk_image c))))"
          using bl(1,2) by (metis block_in_def)
        then show ?thesis using j4(1) by (simp add: drop_take add.commute)
      qed
      have l4: "length (take 4 (drop (4 * j) s)) = 4" using j4(1) bl(2) by simp
      have "read_disk c 4 True (p\<lparr>foff := int (?base + 4 * j)\<rparr>) =
          Inr (take 4 (drop (4 * j) s), p\<lparr>foff := int (?base + 4 * j) + 4\<rparr>)"
        using read_disk_ok [OF _ e, of "p\<lparr>foff := int (?base + 4 * j)\<rparr>"] l4 by (simp del: of_nat_add of_nat_mult length_take)
      then show "print_indirect (Suc k) c fsi True index lim (buf, p) =
          bindE (case (buf, p) of (buf, p) \<Rightarrow> ?f (buf, p\<lparr>foff := int (?base + 4 * j) + 4\<rparr>))
            (print_indirect k c fsi True (index + 4) lim)"
        using lt l4 by (simp add: si sl lseek_ok get_at_def del: of_nat_add of_nat_mult length_take)
    qed
  qed
qed simp

declare print_indirect.simps [simp del]

text \<open>The text of the file with inode \<open>ino\<close>.\<close>

definition file_text :: "cenv \<Rightarrow> file_system_info \<Rightarrow> 32 word \<Rightarrow> string option" where
  "file_text c fsi ino =
     (case inode_at c fsi ino of
        None \<Rightarrow> None
      | Some inode \<Rightarrow> (case file_blocks c fsi inode of None \<Rightarrow> None | Some bs \<Rightarrow> blocks_text c fsi bs))"

lemma print_node_ok:
  assumes ok: "disk_ok c fsi" and dv: "4 dvd unat (block_size fsi)" and t: "file_text c fsi ino = Some t"
    and len: "length buf = unat (block_size fsi)" and q: "0 < quota (hp p)"
  shows "\<exists>buf' p'. print_node c fsi True ino (buf, p) = Inr (buf', p') \<and> hp p' = hp p \<and> sout p' = sout p @ t"
proof -
  let ?bs = "unat (block_size fsi)"
  obtain inode bl where i: "inode_at c fsi ino = Some inode" "file_blocks c fsi inode = Some bl" "blocks_text c fsi bl = Some t"
    using t by (auto simp: file_text_def split: option.splits)
  note len_i = inode_at_length [OF i(1)]
  let ?ind = "\<lambda>bp. if blk inode 12 \<noteq> 0
    then print_indirect (Suc ?bs) c fsi True (blk inode 12 * block_size fsi) (blk inode 12 * block_size fsi + block_size fsi) bp
    else Inr bp"
  have "prints (\<lambda>bp. bindE (print_direct c fsi inode True [0..<12] bp) ?ind) ?bs t"
  proof (cases "blk inode 12 = 0")
    case True
    then have "blocks_text c fsi (map (blk inode) [0..<12]) = Some t"
      using i(2,3) by (simp only: file_blocks_def Let_def if_True option.inject simp_thms)
    from prints_bind [OF print_direct_ok [OF ok len_i this] prints_none] show ?thesis using True by simp
  next
    case False
    then obtain s u v where s: "block_at c fsi (blk inode 12) = Some s" "blocks_text c fsi (map (blk inode) [0..<12]) = Some u"
      "blocks_text c fsi (table_of s) = Some v" "t = u @ v"
      using i(2,3) by (auto simp: file_blocks_def Let_def blocks_text_append)
    note b = block_at_in [OF ok s(1)]
    have "prints (print_indirect (Suc ?bs) c fsi True (blk inode 12 * block_size fsi)
        (blk inode 12 * block_size fsi + block_size fsi)) ?bs v"
      using print_indirect_ok [OF ok s(1) dv refl, of 0 v "blk inode 12 * block_size fsi" "Suc ?bs"] s(3) b(2,3)
      by (simp add: table_of_def)
    from prints_bind [OF print_direct_ok [OF ok len_i s(2)] this] show ?thesis using False s(4) by simp
  qed
  note pr = this [unfolded prints_def, rule_format]
  obtain f where f: "read_inode c fsi ino p = Inr (inode, p\<lparr>hp := (hp p)\<lparr>quota := quota (hp p) - 1\<rparr>, foff := f\<rparr>)"
    using read_inode_ok [OF ok i(1) q] by blast
  let ?p = "p\<lparr>hp := (hp p)\<lparr>quota := quota (hp p) - 1\<rparr>, foff := f\<rparr>"
  obtain buf' p' where bp: "bindE (print_direct c fsi inode True [0..<12] (buf, ?p)) ?ind = Inr (buf', p')"
    "hp p' = hp ?p" "sout p' = sout ?p @ t" using pr [OF len, of ?p] by metis
  then obtain bp1 where bp1: "print_direct c fsi inode True [0..<12] (buf, ?p) = Inr bp1" "?ind bp1 = Inr (buf', p')"
    by (auto simp: bindE_eq_Inr)
  have "print_node c fsi True ino (buf, p) = Inr (buf', release p')"
    unfolding print_node_def using f bp1 i_block_ok [OF len_i, of 12] by (simp only: snd_conv fst_conv bindE_Inr prod.case)
  then show ?thesis using bp(2,3) q by (simp add: release_def free_other_def)
qed

text \<open>What \<open>-file s\<close> prints: nothing when no path matches.\<close>

definition path_text :: "cenv \<Rightarrow> file_system_info \<Rightarrow> etree list \<Rightarrow> string \<Rightarrow> string option" where
  "path_text c fsi ts s =
     (let ino = path_ino s (disk_paths ts) in if ino = 0 then Some [] else file_text c fsi ino)"

lemma print_file_ok:
  assumes fit: "list_all (arrays_fit c []) ts" and ok: "disk_ok c fsi" and "disk_tree c fsi ts" and "(depths ts + 1) * level_fuel fsi \<le> k"
    and "clean (hp p)" and q: "need [] ts + 3 \<le> quota (hp p)"
    and dv: "4 dvd unat (block_size fsi)" and t: "path_text c fsi ts s = Some t"
  shows "\<exists>p'. print_file k c fsi (Some s) p = Inr p' \<and> clean (hp p') \<and> quota (hp p') = quota (hp p) \<and>
    sout p' = sout p @ t"
proof -
  obtain l p1 as where 1: "fsa_populate_list k c fsi p = Inr (l, p1)" "lrep (hp p1) l as (disk_paths ts)"
    "\<forall>b. b \<notin> set as \<longrightarrow> cells (hp p1) b = None" "quota (hp p1) + length (disk_paths ts) + 1 = quota (hp p)" "sout p1 = sout p"
    using populate_disk [OF assms(2-6)] fit by auto
  have q1: "2 \<le> quota (hp p1)" using 1(4) q by (simp add: need_def)
  let ?p = "p1\<lparr>hp := (hp p1)\<lparr>quota := quota (hp p1) - 1\<rparr>\<rparr>" and ?buf = "replicate (unat (block_size fsi)) None :: linebuf"
  let ?ino = "path_ino s (disk_paths ts)"
  have "\<exists>buf' p'. (if ?ino \<noteq> 0 then print_node c fsi True ?ino (?buf, ?p) else Inr (?buf, ?p)) = Inr (buf', p') \<and>
      hp p' = hp ?p \<and> sout p' = sout ?p @ t"
    using print_node_ok [OF ok dv, of ?ino t ?buf ?p] t q1 by (simp add: path_text_def Let_def split: if_splits)
  then obtain buf' p' where 2: "(if ?ino \<noteq> 0 then print_node c fsi True ?ino (?buf, ?p) else Inr (?buf, ?p)) = Inr (buf', p')"
    "hp p' = hp ?p" "sout p' = sout ?p @ t" by blast
  have "hp (release p') = hp p1" using 2(2) q1 by (simp add: release_def free_other_def)
  moreover obtain m' where 3: "fsa_destroy_list l (hp p1) = Inr m'" "clean m'" "quota m' = quota (hp p1) + length (disk_paths ts) + 1"
    using fsa_destroy_ok [OF 1(2,3)] by blast
  moreover have "search_by_path (Some s) l (hp ?p) = Inr ?ino"
    using search_by_path_ok [of "hp ?p" l as "disk_paths ts"] 1(2) by (simp add: lrep_quota)
  moreover have "alloc p1 = (True, ?p)" using alloc_ok [of p1] q1 by simp
  ultimately have "print_file k c fsi (Some s) p = Inr ((release p')\<lparr>hp := m'\<rparr>)"
    unfolding print_file_def using 1(1) 2(1) by (simp only: bindE_Inr prod.case Let_def if_True)
  then show ?thesis using 1(4,5) 2(3) 3(2,3) by (simp add: release_def)
qed

section \<open>The whole program\<close>

text \<open>The parameters of the file system, from the super block and the first group descriptor.\<close>

definition fsi_of :: "cenv \<Rightarrow> file_system_info option" where
  "fsi_of c =
     (let sbb = take 1024 (drop 1024 (disk_image c)); w = le32_dec (take 4 (drop 24 sbb));
          bs = push_bit (unat w) 1024; gdb = take 32 (drop (unat bs) (disk_image c)) in
      if unat w \<le> 20 \<and> 90 \<le> length sbb \<and> 12 \<le> length gdb then
        Some \<lparr>fd = 3, sb = sbb, gd = gdb, block_size = bs, inode_table_block = le32_dec (take 4 (drop 8 gdb)),
          inode_size = ucast (le16_dec (take 2 (drop 88 sbb)))\<rparr>
      else None)"

lemma shift_dvd: "n \<le> 20 \<Longrightarrow> 1024 dvd unat (push_bit n (1024 :: 32 word))"
proof -
  assume n: "n \<le> 20"
  then have "(2 :: nat) ^ n \<le> 2 ^ 20" by (rule power_increasing) simp
  then have "(1024 :: nat) * 2 ^ n < 2 ^ 32" by simp
  then have "unat (push_bit n (1024 :: 32 word)) = 1024 * 2 ^ n"
    by (simp add: unsigned_push_bit_eq) (simp add: push_bit_eq_mult take_bit_nat_eq_self)
  then show ?thesis by simp
qed

lemma disk_analyze_ok:
  assumes d: "disks d = Some c" and f: "fsi_of c = Some fsi" and q: "3 \<le> quota (hp p)"
  shows "\<exists>p1. hp p1 = (hp p)\<lparr>quota := quota (hp p) - 3\<rparr> \<and> sout p1 = sout p \<and>
    disk_analyze k disks d t fl path p =
      bindE (if t then print_disk k c fsi p1 else Inr p1) (\<lambda>p.
      bindE (if fl then print_file k c fsi path p else Inr p) (\<lambda>p. Inr (release (release (release p)))))"
    and "4 dvd unat (block_size fsi)"
proof -
  define sbb w bs gdb where def: "sbb = take 1024 (drop 1024 (disk_image c))" "w = le32_dec (take 4 (drop 24 sbb))"
    "bs = (push_bit (unat w) 1024 :: 32 word)" "gdb = take 32 (drop (unat bs) (disk_image c))"
  have h: "unat w \<le> 20" "90 \<le> length sbb" "12 \<le> length gdb"
    "fsi = \<lparr>fd = 3, sb = sbb, gd = gdb, block_size = bs, inode_table_block = le32_dec (take 4 (drop 8 gdb)),
          inode_size = ucast (le16_dec (take 2 (drop 88 sbb)))\<rparr>"
    using f [unfolded fsi_of_def Let_def, folded def(1), folded def(2), folded def(3), folded def(4)]
    by (simp_all only: split: if_splits) (simp_all only: option.inject option.distinct)
  show "4 dvd unat (block_size fsi)" using shift_dvd [OF h(1)] by (auto simp: h(4) def(3) intro: dvd_trans [of 4 1024])
  have q3: "quota (hp p) \<noteq> 0" "quota (hp p) - 1 \<noteq> 0" "quota (hp p) - 1 - 1 \<noteq> 0" using q by auto
  have "get_le32 24 sbb = Inr w" using h(2) by (simp add: get_at_def def(2))
  moreover have "get_le16 88 sbb = Inr (le16_dec (take 2 (drop 88 sbb)))" using h(2) by (simp add: get_at_def)
  moreover have "get_le32 8 gdb = Inr (le32_dec (take 4 (drop 8 gdb)))" using h(3) by (simp add: get_at_def)
  moreover have "shift_1024 w = Inr bs" using h(1) by (simp add: shift_1024_def def(3))
  ultimately have g: "get_le32 24 sbb = Inr w" "get_le16 88 sbb = Inr (le16_dec (take 2 (drop 88 sbb)))"
    "get_le32 8 gdb = Inr (le32_dec (take 4 (drop 8 gdb)))" "shift_1024 w = Inr bs" by auto
  have r: "read_disk c 1024 True (p\<lparr>foff := 1024\<rparr>) = Inr (sbb, p\<lparr>foff := 1024 + int (length sbb)\<rparr>)"
    "read_disk c 32 True (p\<lparr>foff := uint bs\<rparr>) = Inr (gdb, p\<lparr>foff := uint bs + int (length gdb)\<rparr>)" for p
    using read_disk_ok [OF _ def(1), of "p\<lparr>foff := 1024\<rparr>"] read_disk_ok [OF _ def(4), of "p\<lparr>foff := uint bs\<rparr>"] by simp_all
  have eq: "disk_analyze k disks d t fl path p =
      bindE (if t then print_disk k c fsi p1 else Inr p1) (\<lambda>p.
      bindE (if fl then print_file k c fsi path p else Inr p) (\<lambda>p. Inr (release (release (release p)))))"
    if "p1 = p\<lparr>foff := uint bs + int (length gdb), hp := (hp p)\<lparr>quota := quota (hp p) - 1 - 1 - 1\<rparr>\<rparr>" for p1
    using d q3 g r that h(4)
    by (simp add: disk_analyze_def alloc_def malloc_other_def create_fsi_def del: One_nat_def diff_diff_left)
  show "\<exists>p1. hp p1 = (hp p)\<lparr>quota := quota (hp p) - 3\<rparr> \<and> sout p1 = sout p \<and>
    disk_analyze k disks d t fl path p =
      bindE (if t then print_disk k c fsi p1 else Inr p1) (\<lambda>p.
      bindE (if fl then print_file k c fsi path p else Inr p) (\<lambda>p. Inr (release (release (release p)))))"
    using eq [OF refl]
    by (intro exI [of _ "p\<lparr>foff := uint bs + int (length gdb), hp := (hp p)\<lparr>quota := quota (hp p) - 1 - 1 - 1\<rparr>\<rparr>"])
      (simp add: numeral_3_eq_3)
qed

lemma clean_quota: "clean (m\<lparr>quota := x\<rparr>) = clean m"
  by (simp add: clean_def)

lemma release3: "hp (release (release (release p))) = (hp p)\<lparr>quota := quota (hp p) + 3\<rparr>"
  "sout (release p) = sout p"
  by (simp_all add: release_def free_other_def)

text \<open>What the theorems below ask of an image: \<open>fsa\<close> finds its parameters and a finite tree.\<close>

definition good_disk :: "cenv \<Rightarrow> file_system_info \<Rightarrow> etree list \<Rightarrow> bool" where
  "good_disk c fsi ts \<longleftrightarrow> fsi_of c = Some fsi \<and> disk_ok c fsi \<and> disk_tree c fsi ts"

text \<open>The two runs of the program; both stop at the first path that overruns its array.\<close>

lemma traverse_run:
  assumes "disks d = Some c" and "good_disk c fsi ts"
    and "(depths ts + 1) * level_fuel fsi \<le> k" and "need [] ts + 6 \<le> q"
  shows "if list_all (arrays_fit c []) ts
    then \<exists>p. fsa_main k disks q [a0, d, ''-traverse''] = Inr (0, p) \<and> sout p = lines (disk_paths ts) \<and>
      clean (hp p) \<and> quota (hp p) = q
    else fsa_main k disks q [a0, d, ''-traverse''] = Inl Overflow"
proof -
  let ?p = "\<lparr>foff = 0, hp = empty_mem q, sout = []\<rparr>"
  have g: "fsi_of c = Some fsi" "disk_ok c fsi" "disk_tree c fsi ts" using assms(2) by (simp_all add: good_disk_def)
  obtain p1 where p1: "hp p1 = (hp ?p)\<lparr>quota := q - 3\<rparr>" "sout p1 = []" "disk_analyze k disks d True False None ?p =
      bindE (print_disk k c fsi p1) (\<lambda>p. Inr (release (release (release p))))"
    using disk_analyze_ok(1) [of disks d c fsi ?p k True False None] assms(1) g(1) assms(4) by (auto simp: empty_mem_def)
  have "clean (hp p1)" "need [] ts + 3 \<le> quota (hp p1)" using p1(1) assms(4) by (simp_all add: clean_def empty_mem_def)
  note pd = print_disk_ok [OF g(2,3) assms(3) this]
  show ?thesis
  proof (cases "list_all (arrays_fit c []) ts")
    case True
    then show ?thesis using pd p1 assms(4) by (auto simp: fsa_main_def strcmp_eq release3 clean_quota)
  next
    case False
    then show ?thesis using pd p1 by (simp add: fsa_main_def strcmp_eq)
  qed
qed

lemma file_run:
  assumes "disks d = Some c" and "good_disk c fsi ts"
    and "(depths ts + 1) * level_fuel fsi \<le> k" and "need [] ts + 6 \<le> q" and "path_text c fsi ts s = Some t"
  shows "if list_all (arrays_fit c []) ts
    then \<exists>p. fsa_main k disks q [a0, d, ''-file'', s] = Inr (0, p) \<and> sout p = t \<and> clean (hp p) \<and> quota (hp p) = q
    else fsa_main k disks q [a0, d, ''-file'', s] = Inl Overflow"
proof -
  let ?p = "\<lparr>foff = 0, hp = empty_mem q, sout = []\<rparr>"
  have g: "fsi_of c = Some fsi" "disk_ok c fsi" "disk_tree c fsi ts" using assms(2) by (simp_all add: good_disk_def)
  obtain p1 where p1: "hp p1 = (hp ?p)\<lparr>quota := q - 3\<rparr>" "sout p1 = []" "disk_analyze k disks d False True (Some s) ?p =
      bindE (print_file k c fsi (Some s) p1) (\<lambda>p. Inr (release (release (release p))))"
    using disk_analyze_ok(1) [of disks d c fsi ?p k False True "Some s"] assms(1) g(1) assms(4) by (auto simp: empty_mem_def)
  have m: "clean (hp p1)" "need [] ts + 3 \<le> quota (hp p1)" using p1(1) assms(4) by (simp_all add: clean_def empty_mem_def)
  have "3 \<le> quota (hp ?p)" using assms(4) by (simp add: empty_mem_def)
  then have dv: "4 dvd unat (block_size fsi)" using disk_analyze_ok(2) [of disks d c fsi ?p] assms(1) g(1) by blast
  show ?thesis
  proof (cases "list_all (arrays_fit c []) ts")
    case True
    obtain p2 where "print_file k c fsi (Some s) p1 = Inr p2" "clean (hp p2)" "quota (hp p2) = quota (hp p1)" "sout p2 = t"
      using print_file_ok [OF True g(2,3) assms(3) m dv assms(5)] p1(2) by auto
    then show ?thesis using True p1 assms(4) by (auto simp: fsa_main_def strcmp_eq release3 clean_quota)
  next
    case False
    then have "print_file k c fsi (Some s) p1 = Inl Overflow"
      using populate_disk [OF g(2,3) assms(3) m] by (simp add: print_file_def)
    then show ?thesis using False p1 by (simp add: fsa_main_def strcmp_eq)
  qed
qed

end
