(* ===== verification/Fsa_Output.thy ===== *)
theory Fsa_Output
  imports Fsa_Run
begin

text \<open>
  The properties of \<open>fsa\<close>, with a small image on which they are applied: block 0 with the super
  block, block 1 with the group descriptor, block 2 with the inode table, block 3 with the root
  directory and block 4 with the file \<open>/note\<close>.
\<close>

section \<open>A sample image\<close>

definition fill :: "nat \<Rightarrow> string \<Rightarrow> string" where
  "fill n s = s @ replicate (n - length s) nul"

definition mk_dirent :: "32 word \<Rightarrow> nat \<Rightarrow> 8 word \<Rightarrow> string \<Rightarrow> string" where
  "mk_dirent ino rl ft nm = fill rl (le32_enc ino @ le16_enc (of_nat rl) @ u8_enc (of_nat (length nm)) @ u8_enc ft @ nm)"

lemma length_fill [simp]: "length s \<le> n \<Longrightarrow> length (fill n s) = n"
  by (simp add: fill_def)

definition sample_boot :: string where
  "sample_boot = fill 4096 (fill 1024 [] @ fill 24 [] @ le32_enc 2 @ fill 60 [] @ le16_enc 128)"

definition sample_groups :: string where
  "sample_groups = fill 4096 (fill 8 [] @ le32_enc 2)"

definition sample_inodes :: string where
  "sample_inodes = fill 4096 (fill 128 [] @ fill 128 (fill 40 [] @ le32_enc 3) @ fill 128 (fill 40 [] @ le32_enc 4))"

definition sample_root :: string where
  "sample_root = mk_dirent 2 12 2 ''.'' @ mk_dirent 2 12 2 ''..'' @ mk_dirent 3 4072 1 ''note''"

definition sample_note :: string where
  "sample_note = fill 4096 ''hi''"

definition sample :: cenv where
  "sample = \<lparr>disk_image = sample_boot @ sample_groups @ sample_inodes @ sample_root @ sample_note,
     pad = (\<lambda>n. 16), dsz = 264, behind = []\<rparr>"

definition sample_fsi :: file_system_info where
  "sample_fsi = \<lparr>fd = 3, sb = take 1024 (drop 1024 sample_boot), gd = take 32 sample_groups, block_size = 4096,
     inode_table_block = 2, inode_size = 128\<rparr>"

lemmas codec_len [simp] = u8f.enc_len le16f.enc_len le32f.enc_len

lemma sample_len [simp]: "length sample_boot = 4096" "length sample_groups = 4096" "length sample_inodes = 4096"
  "length sample_root = 4096" "length sample_note = 4096"
  by (simp_all add: sample_boot_def sample_groups_def sample_inodes_def sample_root_def sample_note_def mk_dirent_def)


lemma at_skip: "length a \<le> k \<Longrightarrow> take n (drop k (a @ b)) = take n (drop (k - length a) b)"
  by simp

lemma at_hit: "k + n \<le> length a \<Longrightarrow> take n (drop k (a @ b)) = take n (drop k a)"
  by simp

lemma at_here: "length a = n \<Longrightarrow> take n (drop 0 a) = a" "length a = n \<Longrightarrow> take n a = a"
  by simp_all

lemma at_fill: "k + n \<le> length s \<Longrightarrow> take n (drop k (fill m s)) = take n (drop k s)"
  by (simp add: fill_def)

lemma at_fill0: "n \<le> length s \<Longrightarrow> take n (fill m s) = take n s"
  by (simp add: fill_def)

lemma at_zeros: "length s \<le> k \<Longrightarrow> k + n \<le> m \<Longrightarrow> take n (drop k (fill m s)) = replicate n nul"
  by (simp add: fill_def)

lemma at_take: "k + n \<le> m \<Longrightarrow> take n (drop k (take m s)) = take n (drop k s)"
  by (simp add: drop_take)

lemma at_drop: "take n (drop k (drop m s)) = take n (drop (m + k) s)"
  by (simp add: add.commute)

lemmas at = at_skip at_hit at_here at_fill at_fill0 at_zeros at_take at_drop

lemma dec_zeros: "le32_dec (replicate 4 nul) = 0" "le16_dec (replicate 2 nul) = 0" "u8_dec (replicate 1 nul) = 0"
  by (simp_all add: le32_dec_def le16_dec_def u8_dec_def nul_def numeral_eq_Suc)

lemma sample_disk: "disk_image sample = sample_boot @ sample_groups @ sample_inodes @ sample_root @ sample_note"
  by (simp add: sample_def)


lemma sample_ok: "disk_ok sample sample_fsi"
  by (simp add: disk_ok_def sample_disk sample_fsi_def) (simp add: sample_def)








lemma upt_12: "[0..<12] = 0 # [1..<12]"
  by (simp add: upt_conv_Cons)






section \<open>Properties\<close>

















lemma zero_record:
  assumes b: "block_in c base s" and z: "take 12 s = replicate 12 nul" and len: "12 \<le> length s"
    and ix: "uint index = int base" and lim: "uint lim = int (base + length s)"
  shows "0 < quota (hp p) \<Longrightarrow> read_entries k c fsi path index lim (l, p) = Inl Diverge"
proof (induction k arbitrary: p)
  case (Suc k)
  let ?de = "take (dsz c) (drop base (disk_image c))"
  let ?p = "\<lambda>f. p\<lparr>hp := (hp p)\<lparr>quota := quota (hp p) - 1\<rparr>, foff := f\<rparr>"
  have small: "base < 2 ^ 31" "base + length s < 2 ^ 31" using b len by (auto simp: block_in_def)
  obtain f where r: "read_dirent c index p = Inr (?de, ?p f)"
    using read_dirent_ok [of index base 0 p c] ix small(1) Suc.prems by auto
  have fld: "take n (drop j ?de) = replicate n nul \<and> j + n \<le> length ?de" if "j + n \<le> 12" for j n
  proof -
    have "take n (drop j s) = take n (drop j (take 12 s))" using that by (simp add: drop_take)
    then have "take n (drop j s) = replicate n nul" using that z by (simp add: min_def)
    then show ?thesis using block_field [OF b, of j n 0 ?de] that len by simp
  qed
  have "get_le16 4 ?de = Inr 0" "get_u8 8 ?de = Inr 0" "get_le32 0 ?de = Inr 0"
    using fld [of 4 2] fld [of 8 1] fld [of 0 4]
    by (simp_all add: get_at_def dec_zeros del: One_nat_def length_take)
  moreover have "next_index index 0 = Inr index" using next_index_ok(1) [OF ix, of 0] small(1) by simp
  moreover have "sint index < sint lim" using sint_int [OF ix small(1)] sint_int [OF lim small(2)] len by auto
  moreover have "read_entries k c fsi path index lim (l, release (?p f)) = Inl Diverge"
    by (rule Suc.IH) (simp add: release_def free_other_def)
  ultimately show ?case using r by (simp add: read_entries.simps entry_listed_def del: One_nat_def)
qed (simp add: read_entries.simps)

text \<open>
  C30. A record length of 0 stops the traversal for ever: if the first block of a directory begins
  with twelve zero bytes, \<open>read_directory\<close> does not return, however long it runs.
\<close>

theorem fsa_zero_record_hangs:
  assumes "disk_ok c fsi" and "length inode = 128" and "blk inode 0 \<noteq> 0" and "block_at c fsi (blk inode 0) = Some s"
    and "take 12 s = replicate 12 nul" and "12 \<le> length s" and "0 < quota (hp p)"
  shows "read_directory k c fsi inode path (l, p) = Inl Diverge"
  using zero_record [OF block_at_in(1) [OF assms(1,4)] assms(5,6) block_at_in(3,4) [OF assms(1,4)] assms(7)]
    i_block_ok [OF assms(2), of 0] assms(3)
  by (simp add: read_directory_def EXT2_NDIR_BLOCKS_def upt_12)

theorem fsa_zero_record_hangs_witness:
  "disk_ok sample sample_fsi \<and>
    read_directory 1000 sample sample_fsi (fill 128 (fill 40 [] @ le32_enc 2)) []
      (\<lparr>t_head = None, t_tail = None\<rparr>, \<lparr>foff = 0, hp = empty_mem 5, sout = []\<rparr>) = Inl Diverge"
proof -
  let ?i = "fill 128 (fill 40 [] @ le32_enc 2)"
  have "blk ?i 0 = 2" by (simp add: at le32f.dec_enc)
  moreover have "block_at sample sample_fsi 2 = Some sample_inodes" by (simp add: block_at_def sample_fsi_def sample_disk at)
  moreover have "take 12 sample_inodes = replicate 12 nul" by (simp add: sample_inodes_def fill_def)
  ultimately show ?thesis
    using fsa_zero_record_hangs [of sample sample_fsi ?i sample_inodes
        "\<lparr>foff = 0, hp = empty_mem 5, sout = []\<rparr>" 1000 "[]" "\<lparr>t_head = None, t_tail = None\<rparr>"] sample_ok
    by (simp add: empty_mem_def)
qed

end
