(* ===== verification/Nls_Utf8.thy ===== *)
theory Nls_Utf8
  imports Main "HOL-Library.Word"
begin

unbundle bit_operations_syntax

text \<open>
  The Unicode conversions of \<open>fs/nls/nls_base.c\<close>: UTF-8 to code points and back. Bytes are
  \<open>8 word\<close>; the \<open>unsigned long\<close> accumulator stays below 38 bits, so it is a natural number.
\<close>

section \<open>Conversions of one character\<close>

text \<open>The ways in which a conversion ends without a result. \<open>OutOfBounds\<close> is a read behind the given bytes.\<close>

datatype nls_err = ENAMETOOLONG | EINVAL | EBUSY | OutOfBounds

record utf8_table =
  cmask :: nat
  cval :: nat
  tshift :: nat
  lmask :: nat
  lval :: nat

definition utf8_table :: "utf8_table list" where
  "utf8_table =
    [\<lparr>cmask = 0x80, cval = 0x00, tshift = 0 * 6, lmask = 0x7F, lval = 0\<rparr>,
     \<lparr>cmask = 0xE0, cval = 0xC0, tshift = 1 * 6, lmask = 0x7FF, lval = 0x80\<rparr>,
     \<lparr>cmask = 0xF0, cval = 0xE0, tshift = 2 * 6, lmask = 0xFFFF, lval = 0x800\<rparr>,
     \<lparr>cmask = 0xF8, cval = 0xF0, tshift = 3 * 6, lmask = 0x1FFFFF, lval = 0x10000\<rparr>,
     \<lparr>cmask = 0xFC, cval = 0xF8, tshift = 4 * 6, lmask = 0x3FFFFFF, lval = 0x200000\<rparr>,
     \<lparr>cmask = 0xFE, cval = 0xFC, tshift = 5 * 6, lmask = 0x7FFFFFFF, lval = 0x4000000\<rparr>]"

definition UNICODE_MAX :: nat where "UNICODE_MAX = 0x0010ffff"
definition PLANE_SIZE :: nat where "PLANE_SIZE = 0x00010000"
definition SURROGATE_MASK :: nat where "SURROGATE_MASK = 0xfffff800"
definition SURROGATE_PAIR :: nat where "SURROGATE_PAIR = 0x0000d800"
definition SURROGATE_LOW :: nat where "SURROGATE_LOW = 0x00000400"
definition SURROGATE_BITS :: nat where "SURROGATE_BITS = 0x000003ff"

text \<open>
  The loop over the table; \<open>s\<close> are the bytes behind the current one. A result is the number of
  bytes read and the code point.
\<close>

fun utf8_loop :: "utf8_table list \<Rightarrow> nat \<Rightarrow> nat \<Rightarrow> nat \<Rightarrow> 8 word list \<Rightarrow> int \<Rightarrow> nls_err + nat \<times> nat" where
  "utf8_loop [] nc c0 l s inlen = Inl EINVAL"
| "utf8_loop (t # ts) nc c0 l s inlen =
     (let nc = nc + 1 in
      if c0 AND cmask t = cval t then
        (let l = l AND lmask t in
         if l < lval t \<or> l > UNICODE_MAX \<or> l AND SURROGATE_MASK = SURROGATE_PAIR then Inl EINVAL
         else Inr (nc, l))
      else if inlen \<le> int nc then Inl EINVAL
      else
        case s of
          [] \<Rightarrow> Inl OutOfBounds
        | b # s \<Rightarrow>
            (let c = (unat b XOR 0x80) AND 0xFF in
             if c AND 0xC0 \<noteq> 0 then Inl EINVAL
             else utf8_loop ts nc c0 (push_bit 6 l OR c) s inlen))"

definition utf8_to_utf32 :: "8 word list \<Rightarrow> int \<Rightarrow> nls_err + nat \<times> nat" where
  "utf8_to_utf32 s inlen =
     (case s of
        [] \<Rightarrow> Inl OutOfBounds
      | c0 # s \<Rightarrow> utf8_loop utf8_table 0 (unat c0) (unat c0) s inlen)"

text \<open>The continuation bytes: \<open>c\<close> goes down in steps of six.\<close>

fun utf8_tail :: "nat \<Rightarrow> nat \<Rightarrow> 8 word list" where
  "utf8_tail 0 l = []"
| "utf8_tail c l = (let c = c - 6 in of_nat (0x80 OR (drop_bit c l AND 0x3F)) # utf8_tail c l)"

fun utf32_loop :: "utf8_table list \<Rightarrow> nat \<Rightarrow> int \<Rightarrow> nls_err + 8 word list" where
  "utf32_loop [] l maxout = Inl EINVAL"
| "utf32_loop (t # ts) l maxout =
     (if maxout = 0 then Inl EINVAL
      else if l \<le> lmask t then Inr (of_nat (cval t OR drop_bit (tshift t) l) # utf8_tail (tshift t) l)
      else utf32_loop ts l (maxout - 1))"

definition utf32_to_utf8 :: "nat \<Rightarrow> int \<Rightarrow> nls_err + 8 word list" where
  "utf32_to_utf8 u maxout =
     (if u > UNICODE_MAX \<or> u AND SURROGATE_MASK = SURROGATE_PAIR then Inl EINVAL
      else utf32_loop utf8_table u maxout)"

section \<open>The arithmetic of the bit operations\<close>

lemma and_push: "(l :: nat) AND push_bit k x = push_bit k (drop_bit k l AND x)"
  by (rule bit_eqI) (auto simp: bit_simps)

lemma and_high:
  assumes "(b :: nat) < 2 ^ (k + m)"
  shows "b AND push_bit k (mask m) = 2 ^ k * (b div 2 ^ k)"
proof -
  have "b div 2 ^ k < 2 ^ m" using assms by (simp add: power_add less_mult_imp_div_less mult.commute)
  then have "drop_bit k b AND mask m = b div 2 ^ k"
    by (simp add: drop_bit_eq_div take_bit_nat_eq_self flip: take_bit_eq_mask)
  then show ?thesis by (simp only: and_push) (simp add: push_bit_eq_mult)
qed

lemma and_byte:
  assumes "(b :: nat) < 256"
  shows "b AND 0x80 = 128 * (b div 128)" "b AND 0xC0 = 64 * (b div 64)" "b AND 0xE0 = 32 * (b div 32)"
    "b AND 0xF0 = 16 * (b div 16)" "b AND 0xF8 = 8 * (b div 8)" "b AND 0xFC = 4 * (b div 4)" "b AND 0xFE = 2 * (b div 2)"
  using and_high [of b 7 1] and_high [of b 6 2] and_high [of b 5 3] and_high [of b 4 4] and_high [of b 3 5]
    and_high [of b 2 6] and_high [of b 1 7] assms by (simp_all add: mask_eq_exp_minus_1)

lemma or_disj: "c < 2 ^ k \<Longrightarrow> push_bit k l OR c = 2 ^ k * l + (c :: nat)"
proof -
  assume c: "c < 2 ^ k"
  have "\<not> bit c n" if "k \<le> n" for n
  proof -
    have "c < 2 ^ n" using c power_increasing [OF that, of "2 :: nat"] by linarith
    then show ?thesis by (simp add: bit_iff_odd)
  qed
  then have "push_bit k l AND c = 0" by (intro bit_eqI) (auto simp: bit_simps)
  then show ?thesis using disjunctive_add_eq_or [of "push_bit k l" c] by (simp add: push_bit_eq_mult mult.commute)
qed

lemma xor_high:
  assumes "(b :: nat) < 256"
  shows "b XOR 0x80 = (if b < 128 then 128 + b else b - 128)"
proof -
  have lo: "r XOR 128 = 128 + r" if "r < 128" for r :: nat
    using flip_bit_def [of 7 r] flip_bit_eq_if [of 7 r] set_bit_eq [of 7 r] that by (simp add: bit_iff_odd)
  show ?thesis
  proof (cases "b < 128")
    case False
    then have "b XOR 128 = (b - 128 XOR 128) XOR 128" using lo [of "b - 128"] assms by simp
    then show ?thesis using False by (simp add: xor.assoc)
  qed (simp add: lo)
qed

lemma continuation:
  assumes "(b :: nat) < 256"
  shows "(b XOR 0x80) AND 0xFF = (if b < 128 then 128 + b else b - 128)"
proof -
  have "b XOR 0x80 < 256" using assms xor_high [OF assms] by (cases "b < 128") auto
  then show ?thesis using take_bit_eq_mask [of 8 "b XOR 0x80"] xor_high [OF assms]
    by (simp add: take_bit_eq_mod mask_eq_exp_minus_1)
qed

lemma and_C0: "(c :: nat) < 256 \<Longrightarrow> c AND 0xC0 = 0 \<longleftrightarrow> c < 64"
  by (simp add: and_byte(2) div_eq_0_iff)

lemma lead_byte:
  assumes "(b :: nat) < 256"
  shows "b AND 0x80 = 0 \<longleftrightarrow> b < 128" "b AND 0xE0 = 0xC0 \<longleftrightarrow> 192 \<le> b \<and> b < 224" "b AND 0xF0 = 0xE0 \<longleftrightarrow> 224 \<le> b \<and> b < 240"
    "b AND 0xF8 = 0xF0 \<longleftrightarrow> 240 \<le> b \<and> b < 248"
  using assms by (simp_all add: and_byte) linarith+

lemma mask_mod: "(l :: nat) AND 0x7F = l mod 128" "l AND 0x7FF = l mod 2048" "l AND 0xFFFF = l mod 65536"
  "l AND 0x1FFFFF = l mod 2097152" "l AND 0x3F = l mod 64" "l AND 0x3FF = l mod 1024"
  using take_bit_eq_mask [of 7 l] take_bit_eq_mask [of 11 l] take_bit_eq_mask [of 16 l] take_bit_eq_mask [of 21 l]
    take_bit_eq_mask [of 6 l] take_bit_eq_mask [of 10 l]
  by (simp_all add: take_bit_eq_mod mask_eq_exp_minus_1)

lemma surrogate_range:
  assumes "l \<le> UNICODE_MAX"
  shows "l AND SURROGATE_MASK = SURROGATE_PAIR \<longleftrightarrow> 0xD800 \<le> l \<and> l < 0xE000"
proof -
  have "l AND SURROGATE_MASK = 2048 * (l div 2048)"
    using and_high [of l 11 21] assms by (simp add: mask_eq_exp_minus_1 SURROGATE_MASK_def UNICODE_MAX_def)
  moreover have "l div 2048 = 27 \<longleftrightarrow> 0xD800 \<le> l \<and> l < 0xE000" by (auto simp: div_nat_eqI less_mult_imp_div_less)
  ultimately show ?thesis by (auto simp: SURROGATE_PAIR_def)
qed

section \<open>UTF-8\<close>

text \<open>The code points that can be encoded, and their bytes.\<close>

definition codepoint :: "nat \<Rightarrow> bool" where
  "codepoint u \<longleftrightarrow> u \<le> 0x10FFFF \<and> \<not> (0xD800 \<le> u \<and> u < 0xE000)"

definition utf8_bytes :: "nat \<Rightarrow> nat list" where
  "utf8_bytes u =
     (if u < 0x80 then [u]
      else if u < 0x800 then [192 + u div 64, 128 + u mod 64]
      else if u < 0x10000 then [224 + u div 4096, 128 + u div 64 mod 64, 128 + u mod 64]
      else [240 + u div 262144, 128 + u div 4096 mod 64, 128 + u div 64 mod 64, 128 + u mod 64])"

abbreviation bytes :: "nat list \<Rightarrow> 8 word list" where
  "bytes \<equiv> map of_nat"

lemma codepoint_iff: "codepoint u \<longleftrightarrow> \<not> (u > UNICODE_MAX \<or> u AND SURROGATE_MASK = SURROGATE_PAIR)"
  using surrogate_range [of u] by (auto simp: codepoint_def UNICODE_MAX_def)

lemma or_cont: "c < 64 \<Longrightarrow> 0x80 OR c = 128 + (c :: nat)"
  using or_disj [of c 6 2] by simp

lemma drop_shift: "drop_bit n l = (l :: nat) div 2 ^ n"
  by (simp add: drop_bit_eq_div)

lemma utf8_tail_step:
  "0 < c \<Longrightarrow> utf8_tail c l = of_nat (128 + drop_bit (c - 6) l mod 64) # utf8_tail (c - 6) l"
  by (cases c) (simp_all add: Let_def mask_mod or_cont del: of_nat_add)

declare utf8_tail.simps(2) [simp del]

lemma utf8_tail_6: "utf8_tail 6 l = bytes [128 + l mod 64]"
  and utf8_tail_12: "utf8_tail 12 l = bytes [128 + l div 64 mod 64, 128 + l mod 64]"
  and utf8_tail_18: "utf8_tail 18 l = bytes [128 + l div 4096 mod 64, 128 + l div 64 mod 64, 128 + l mod 64]"
  by (simp_all add: utf8_tail_step drop_shift del: of_nat_add)

lemma or_lead:
  "c < 32 \<Longrightarrow> 0xC0 OR c = 192 + (c :: nat)" "c < 16 \<Longrightarrow> 0xE0 OR c = 224 + (c :: nat)" "c < 8 \<Longrightarrow> 0xF0 OR c = 240 + (c :: nat)"
  using or_disj [of c 5 6] or_disj [of c 4 14] or_disj [of c 3 30] by simp_all

lemma utf32_to_utf8_eq:
  assumes "codepoint u"
  shows "utf32_to_utf8 u maxout =
    (if 0 \<le> maxout \<and> maxout < int (length (utf8_bytes u)) then Inl EINVAL else Inr (bytes (utf8_bytes u)))"
proof -
  have le: "u \<le> 0x10FFFF" using assms by (simp add: codepoint_def)
  have d: "u div 64 < 32" if "u < 0x800" using that by (simp add: less_mult_imp_div_less)
  have d2: "u div 4096 < 16" if "u < 0x10000" using that by (simp add: less_mult_imp_div_less)
  have d3: "u div 262144 < 8" using le by (simp add: less_mult_imp_div_less)
  have 0: "utf32_to_utf8 u maxout = utf32_loop utf8_table u maxout"
    using assms by (simp add: utf32_to_utf8_def codepoint_iff)
  show ?thesis unfolding 0 using le d d2 d3
    by (auto simp: utf8_table_def utf8_bytes_def drop_shift or_lead utf8_tail_6 utf8_tail_12 utf8_tail_18 simp del: of_nat_add)
qed

lemma unat_byte_less: "unat (b :: 8 word) < 256"
proof -
  have "unat b < 2 ^ LENGTH(8)" by (rule unsigned_less)
  then show ?thesis by simp
qed

lemma unat_byte: "n < 256 \<Longrightarrow> unat (of_nat n :: 8 word) = n"
  by (simp add: unat_of_nat)

text \<open>One step of the decoder over a continuation byte, and its end.\<close>

lemma utf8_loop_cont:
  assumes "c0 AND cmask t \<noteq> cval t" and "int nc + 1 < inlen" and "c < 64"
  shows "utf8_loop (t # ts) nc c0 l (of_nat (128 + c) # s) inlen = utf8_loop ts (nc + 1) c0 (64 * l + c) s inlen"
proof -
  have "unat (of_nat (128 + c) :: 8 word) = 128 + c" using assms(3) by (intro unat_byte) simp
  moreover have "((128 + c) XOR 0x80) AND 0xFF = c" using continuation [of "128 + c"] assms(3) by simp
  moreover have "c AND 0xC0 = 0" using and_C0 [of c] assms(3) by simp
  ultimately show ?thesis using assms or_disj [of c 6 l] by (simp del: of_nat_add)
qed

lemma utf8_loop_end:
  assumes "c0 AND cmask t = cval t" and "l AND lmask t = u" and "codepoint u" and "lval t \<le> u"
  shows "utf8_loop (t # ts) nc c0 l s inlen = Inr (nc + 1, u)"
  using assms codepoint_iff [of u] by simp

declare utf8_loop.simps(2) [simp del]

lemma split_12: "64 * (64 * (u div 4096) + u div 64 mod 64) + u mod 64 = (u :: nat)"
  and split_18: "64 * (64 * (64 * (u div 262144) + u div 4096 mod 64) + u div 64 mod 64) + u mod 64 = (u :: nat)"
proof -
  have s: "64 * (v div 64) + v mod 64 = v" for v :: nat by simp
  have d: "u div 4096 = u div 64 div 64" "u div 262144 = u div 64 div 64 div 64" by (simp_all flip: div_mult2_eq)
  show "64 * (64 * (u div 4096) + u div 64 mod 64) + u mod 64 = u"
    "64 * (64 * (64 * (u div 262144) + u div 4096 mod 64) + u div 64 mod 64) + u mod 64 = u"
    unfolding d by (simp_all only: s)
qed

lemma utf8_decode:
  assumes u: "codepoint u" and len: "int (length (utf8_bytes u)) \<le> inlen"
  shows "utf8_to_utf32 (bytes (utf8_bytes u) @ rest) inlen = Inr (length (utf8_bytes u), u)"
proof -
  have le: "u \<le> 0x10FFFF" using u by (simp add: codepoint_def)
  consider "u < 0x80" | "0x80 \<le> u" "u < 0x800" | "0x800 \<le> u" "u < 0x10000" | "0x10000 \<le> u" by linarith
  then show ?thesis
  proof cases
    case 1
    then show ?thesis using u
      by (simp add: utf8_to_utf32_def utf8_bytes_def unat_byte utf8_table_def utf8_loop_end lead_byte mask_mod)
  next
    case 2
    let ?c = "192 + u div 64"
    have d: "u div 64 < 32" using 2 by (simp add: less_mult_imp_div_less)
    have "(64 * ?c + u mod 64) mod 2048 = u"
    proof -
      have "64 * ?c + u mod 64 = 2048 * 6 + u" by simp
      then show ?thesis using 2 by (simp only: mod_mult_self4 mod_less)
    qed
    then show ?thesis using u len 2 d
      by (simp add: utf8_to_utf32_def utf8_bytes_def unat_byte utf8_table_def utf8_loop_cont utf8_loop_end lead_byte mask_mod
          del: of_nat_add)
  next
    case 3
    let ?c = "224 + u div 4096"
    have d: "u div 4096 < 16" using 3 by (simp add: less_mult_imp_div_less)
    have "(64 * (64 * ?c + u div 64 mod 64) + u mod 64) mod 65536 = u"
    proof -
      have "64 * (64 * ?c + u div 64 mod 64) + u mod 64 = 65536 * 14 + u" using split_12 [of u] by simp
      then show ?thesis using 3 by (simp only: mod_mult_self4 mod_less)
    qed
    then show ?thesis using u len 3 d
      by (simp add: utf8_to_utf32_def utf8_bytes_def unat_byte utf8_table_def utf8_loop_cont utf8_loop_end lead_byte mask_mod
          del: of_nat_add)
  next
    case 4
    let ?c = "240 + u div 262144"
    have d: "u div 262144 < 8" using le by (simp add: less_mult_imp_div_less)
    have "(64 * (64 * (64 * ?c + u div 4096 mod 64) + u div 64 mod 64) + u mod 64) mod 2097152 = u"
    proof -
      have "64 * (64 * (64 * ?c + u div 4096 mod 64) + u div 64 mod 64) + u mod 64 = 2097152 * 30 + u"
        using split_18 [of u] by simp
      then show ?thesis using le mod_less [of u 2097152] by (simp only: mod_mult_self4)
    qed
    then show ?thesis using u len 4 d
      by (simp add: utf8_to_utf32_def utf8_bytes_def unat_byte utf8_table_def utf8_loop_cont utf8_loop_end lead_byte mask_mod
          del: of_nat_add)
  qed
qed

lemma utf8_loop_inv:
  assumes "utf8_loop (t # ts) nc c0 l s inlen = Inr (n, u)"
  shows "(c0 AND cmask t = cval t \<and> u = l AND lmask t \<and> codepoint u \<and> lval t \<le> u \<and> n = nc + 1) \<or>
    (c0 AND cmask t \<noteq> cval t \<and> (\<exists>c s'. c < 64 \<and> s = of_nat (128 + c) # s' \<and>
      utf8_loop ts (nc + 1) c0 (64 * l + c) s' inlen = Inr (n, u)))"
proof (cases "c0 AND cmask t = cval t")
  case True
  then show ?thesis using assms codepoint_iff [of u] by (auto simp: utf8_loop.simps(2) Let_def split: if_splits)
next
  case False
  then obtain b s' where s: "s = b # s'" "((unat b XOR 0x80) AND 0xFF) AND 0xC0 = 0"
    "utf8_loop ts (nc + 1) c0 (push_bit 6 l OR ((unat b XOR 0x80) AND 0xFF)) s' inlen = Inr (n, u)"
    using assms by (cases s) (simp_all add: utf8_loop.simps(2) Let_def split: if_splits)
  have b: "unat b < 256" by (rule unat_byte_less)
  let ?c = "unat b - 128"
  have x: "(unat b XOR 0x80) AND 0xFF = (if unat b < 128 then 128 + unat b else ?c)" by (rule continuation [OF b])
  have r: "\<not> unat b < 128" "?c < 64" using s(2) unfolding x using and_C0 [of "128 + unat b"] and_C0 [of ?c] b by (auto split: if_splits)
  then have "utf8_loop ts (nc + 1) c0 (64 * l + ?c) s' inlen = Inr (n, u)"
    using s(3) x or_disj [of ?c 6 l] by simp
  moreover have "b = of_nat (128 + ?c)" using r(1) by simp
  ultimately show ?thesis using False s(1) r(2) by (intro disjI2 conjI) (auto intro!: exI [of _ ?c])
qed

lemma utf8_bytes_2: "x < 32 \<Longrightarrow> c < 64 \<Longrightarrow> 128 \<le> 64 * x + c \<Longrightarrow> utf8_bytes (64 * x + c) = [192 + x, 128 + c]"
  by (simp add: utf8_bytes_def)

lemma utf8_bytes_3:
  assumes "x < 16" and "c < 64" and "d < 64" and "2048 \<le> 64 * (64 * x + c) + d"
  shows "utf8_bytes (64 * (64 * x + c) + d) = [224 + x, 128 + c, 128 + d]"
proof -
  let ?u = "64 * (64 * x + c) + d"
  have "?u div 64 = 64 * x + c" using assms(3) by simp
  moreover have "?u div 4096 = x" using assms(2,3) by (simp add: div_mult2_eq [of _ 64 64, simplified])
  moreover have "?u mod 64 = d" using assms(3) by (simp only: mod_mult_self4 mod_less)
  moreover have "?u < 65536" using assms by simp
  ultimately show ?thesis using assms by (simp add: utf8_bytes_def)
qed

lemma utf8_bytes_4:
  assumes "c < 64" and "d < 64" and "e < 64" and "65536 \<le> 64 * (64 * (64 * x + c) + d) + e"
  shows "utf8_bytes (64 * (64 * (64 * x + c) + d) + e) = [240 + x, 128 + c, 128 + d, 128 + e]"
proof -
  let ?u = "64 * (64 * (64 * x + c) + d) + e"
  have 1: "?u div 64 = 64 * (64 * x + c) + d" using assms(3) by simp
  moreover have 2: "?u div 4096 = 64 * x + c" using 1 assms(2) by (simp add: div_mult2_eq [of _ 64 64, simplified])
  moreover have "?u div 262144 = x" using 2 assms(1) by (simp add: div_mult2_eq [of _ 4096 64, simplified])
  moreover have "(64 * (64 * x + c) + d) mod 64 = d" using assms(2) by (simp only: mod_mult_self4 mod_less)
  moreover have "?u mod 64 = e" using assms(3) by (simp only: mod_mult_self4 mod_less)
  ultimately show ?thesis using assms by (simp add: utf8_bytes_def)
qed

lemma lead_mod:
  "x < 32 \<Longrightarrow> c < 64 \<Longrightarrow> (64 * (192 + x) + c) mod 2048 = 64 * x + (c :: nat)"
  "x < 16 \<Longrightarrow> c < 64 \<Longrightarrow> d < 64 \<Longrightarrow> (64 * (64 * (224 + x) + c) + d) mod 65536 = 64 * (64 * x + c) + (d :: nat)"
  "x < 8 \<Longrightarrow> c < 64 \<Longrightarrow> d < 64 \<Longrightarrow> e < 64 \<Longrightarrow>
    (64 * (64 * (64 * (240 + x) + c) + d) + e) mod 2097152 = 64 * (64 * (64 * x + c) + d) + (e :: nat)"
proof -
  show "(64 * (192 + x) + c) mod 2048 = 64 * x + c" if "x < 32" "c < 64" for x c :: nat
  proof -
    have "64 * (192 + x) + c = 2048 * 6 + (64 * x + c)" by simp
    then show ?thesis using that by (simp only: mod_mult_self4) simp
  qed
  show "(64 * (64 * (224 + x) + c) + d) mod 65536 = 64 * (64 * x + c) + d" if "x < 16" "c < 64" "d < 64" for x c d :: nat
  proof -
    have "64 * (64 * (224 + x) + c) + d = 65536 * 14 + (64 * (64 * x + c) + d)" by simp
    then show ?thesis using that by (simp only: mod_mult_self4) simp
  qed
  show "(64 * (64 * (64 * (240 + x) + c) + d) + e) mod 2097152 = 64 * (64 * (64 * x + c) + d) + e"
    if "x < 8" "c < 64" "d < 64" "e < 64" for x c d e :: nat
  proof -
    have "64 * (64 * (64 * (240 + x) + c) + d) + e = 2097152 * 30 + (64 * (64 * (64 * x + c) + d) + e)" by simp
    then show ?thesis using that by (simp only: mod_mult_self4) simp
  qed
qed

lemma utf8_canonical:
  assumes "utf8_to_utf32 s inlen = Inr (n, u)"
  shows "codepoint u \<and> n = length (utf8_bytes u) \<and> (\<exists>rest. s = bytes (utf8_bytes u) @ rest)"
proof -
  obtain b s1 where s: "s = b # s1" using assms by (auto simp: utf8_to_utf32_def split: list.splits)
  define c0 where "c0 = unat b"
  have b: "b = of_nat c0" "c0 < 256" by (simp_all add: c0_def unat_byte_less)
  have "utf8_loop utf8_table 0 c0 c0 s1 inlen = Inr (n, u)" using assms s by (simp add: utf8_to_utf32_def c0_def)
  note inv1 = utf8_loop_inv [OF this [unfolded utf8_table_def]]
  consider "c0 < 128" | "128 \<le> c0" by linarith
  then show ?thesis
  proof cases
    case 1
    then show ?thesis using inv1 b(2) s b(1) by (auto simp: lead_byte mask_mod utf8_bytes_def)
  next
    case 2
    then obtain c1 s2 where 1: "c1 < 64" "s1 = of_nat (128 + c1) # s2"
      "utf8_loop (tl utf8_table) 1 c0 (64 * c0 + c1) s2 inlen = Inr (n, u)"
      using inv1 b(2) by (auto simp: lead_byte utf8_table_def)
    note inv2 = utf8_loop_inv [OF 1(3) [unfolded utf8_table_def list.sel]]
    show ?thesis
    proof (cases "192 \<le> c0 \<and> c0 < 224")
      case True
      then obtain x where x: "c0 = 192 + x" "x < 32" using le_Suc_ex [of 192 c0] by auto
      then have u: "u = 64 * x + c1" "codepoint u" "128 \<le> u" "n = 2"
        using inv2 True b(2) 1(1) lead_mod(1) [of x c1] by (auto simp: lead_byte mask_mod)
      then show ?thesis using utf8_bytes_2 [OF x(2) 1(1)] s b(1) 1(2) x(1) by simp
    next
      case False
      then obtain c2 s3 where 2: "c2 < 64" "s2 = of_nat (128 + c2) # s3"
        "utf8_loop (tl (tl utf8_table)) 2 c0 (64 * (64 * c0 + c1) + c2) s3 inlen = Inr (n, u)"
        using inv2 b(2) by (auto simp: lead_byte utf8_table_def numeral_2_eq_2)
      note inv3 = utf8_loop_inv [OF 2(3) [unfolded utf8_table_def list.sel]]
      show ?thesis
      proof (cases "224 \<le> c0 \<and> c0 < 240")
        case True
        then obtain x where x: "c0 = 224 + x" "x < 16" using le_Suc_ex [of 224 c0] by auto
        then have u: "u = 64 * (64 * x + c1) + c2" "codepoint u" "2048 \<le> u" "n = 3"
          using inv3 True b(2) 1(1) 2(1) lead_mod(2) [of x c1 c2] by (auto simp: lead_byte mask_mod)
        then show ?thesis using utf8_bytes_3 [OF x(2) 1(1) 2(1)] s b(1) 1(2) 2(2) x(1) by simp
      next
        case False
        then obtain c3 s4 where 3: "c3 < 64" "s3 = of_nat (128 + c3) # s4"
          "utf8_loop (tl (tl (tl utf8_table))) 3 c0 (64 * (64 * (64 * c0 + c1) + c2) + c3) s4 inlen = Inr (n, u)"
          using inv3 b(2) by (auto simp: lead_byte utf8_table_def)
        note inv4 = utf8_loop_inv [OF 3(3) [unfolded utf8_table_def list.sel]]
        show ?thesis
        proof (cases "240 \<le> c0 \<and> c0 < 248")
          case True
          then obtain x where x: "c0 = 240 + x" "x < 8" using le_Suc_ex [of 240 c0] by auto
          then have u: "u = 64 * (64 * (64 * x + c1) + c2) + c3" "codepoint u" "65536 \<le> u" "n = 4"
            using inv4 True b(2) 1(1) 2(1) 3(1) lead_mod(3) [of x c1 c2 c3] by (auto simp: lead_byte mask_mod)
          then show ?thesis using utf8_bytes_4 [OF 1(1) 2(1) 3(1)] s b(1) 1(2) 2(2) 3(2) x(1) by simp
        next
          case False
          then obtain l s5 where 4: "utf8_loop (tl (tl (tl (tl utf8_table)))) 4 c0 l s5 inlen = Inr (n, u)"
            using inv4 b(2) by (auto simp: lead_byte utf8_table_def)
          obtain l' s6 where 5: "utf8_loop (tl (tl (tl (tl (tl utf8_table))))) 5 c0 l' s6 inlen = Inr (n, u)"
            using utf8_loop_inv [OF 4 [unfolded utf8_table_def list.sel]] by (auto simp: utf8_table_def codepoint_def)
          show ?thesis using utf8_loop_inv [OF 5 [unfolded utf8_table_def list.sel]] by (auto simp: codepoint_def)
        qed
      qed
    qed
  qed
qed

end
