(* ===== verification/Nls_Utf16.thy ===== *)
theory Nls_Utf16
  imports Nls_Utf8
begin

unbundle bit_operations_syntax

text \<open>
  The string conversions between UTF-8 and UTF-16 of \<open>fs/nls/nls_base.c\<close>. The host is
  little-endian. A read behind the given string is \<open>OutOfBounds\<close>.
\<close>

datatype utf16_endian = UTF16_HOST_ENDIAN | UTF16_LITTLE_ENDIAN | UTF16_BIG_ENDIAN

definition swab16 :: "16 word \<Rightarrow> 16 word" where
  "swab16 w = push_bit 8 w OR drop_bit 8 w"

definition put_utf16 :: "nat \<Rightarrow> utf16_endian \<Rightarrow> 16 word" where
  "put_utf16 c e =
     (case e of
        UTF16_LITTLE_ENDIAN \<Rightarrow> of_nat c
      | UTF16_BIG_ENDIAN \<Rightarrow> swab16 (of_nat c)
      | _ \<Rightarrow> of_nat c)"

definition get_utf16 :: "16 word \<Rightarrow> utf16_endian \<Rightarrow> nat" where
  "get_utf16 c e =
     (case e of
        UTF16_LITTLE_ENDIAN \<Rightarrow> unat c
      | UTF16_BIG_ENDIAN \<Rightarrow> unat (swab16 c)
      | _ \<Rightarrow> unat c)"

text \<open>Output in front of what the rest of the loop writes.\<close>

definition emit :: "'a list \<Rightarrow> nls_err + 'a list \<Rightarrow> nls_err + 'a list" where
  "emit xs r = (case r of Inl e \<Rightarrow> Inl e | Inr ys \<Rightarrow> Inr (xs @ ys))"

lemma emit_Inr [simp]: "emit xs (Inr ys) = Inr (xs @ ys)"
  by (simp add: emit_def)

lemma utf8_to_utf32_size: "utf8_to_utf32 s inlen = Inr (n, u) \<Longrightarrow> 0 < n"
  using utf8_canonical [of s inlen n u] by (auto simp: utf8_bytes_def)

function utf8s_to_utf16s :: "8 word list \<Rightarrow> int \<Rightarrow> utf16_endian \<Rightarrow> int \<Rightarrow> nls_err + 16 word list" where
  "utf8s_to_utf16s s inlen e maxout =
     (if \<not> (inlen > 0 \<and> maxout > 0) then Inr []
      else
        case s of
          [] \<Rightarrow> Inl OutOfBounds
        | b # s' \<Rightarrow>
            if b = 0 then Inr []
            else if unat b AND 0x80 \<noteq> 0 then
              (case utf8_to_utf32 s inlen of
                 Inl err \<Rightarrow> Inl err
               | Inr (sz, u) \<Rightarrow>
                   if u \<ge> PLANE_SIZE then
                     if maxout < 2 then Inr []
                     else
                       (let u = u - PLANE_SIZE in
                        emit [put_utf16 (SURROGATE_PAIR OR (drop_bit 10 u AND SURROGATE_BITS)) e,
                              put_utf16 (SURROGATE_PAIR OR SURROGATE_LOW OR (u AND SURROGATE_BITS)) e]
                          (utf8s_to_utf16s (drop sz s) (inlen - int sz) e (maxout - 2)))
                   else emit [put_utf16 u e] (utf8s_to_utf16s (drop sz s) (inlen - int sz) e (maxout - 1)))
            else emit [put_utf16 (unat b) e] (utf8s_to_utf16s s' (inlen - 1) e (maxout - 1)))"
  by pat_completeness auto

termination
  by (relation "measure (\<lambda>(s, _). length s)") (auto dest: utf8_to_utf32_size)

function utf16s_to_utf8s :: "16 word list \<Rightarrow> int \<Rightarrow> utf16_endian \<Rightarrow> int \<Rightarrow> nls_err + 8 word list" where
  "utf16s_to_utf8s pwcs inlen e maxout =
     (if \<not> (inlen > 0 \<and> maxout > 0) then Inr []
      else
        case pwcs of
          [] \<Rightarrow> Inl OutOfBounds
        | w # ws \<Rightarrow>
            (let u = get_utf16 w e; inlen = inlen - 1 in
             if u = 0 then Inr []
             else if u > 0x7f then
               if u AND SURROGATE_MASK = SURROGATE_PAIR then
                 if u AND SURROGATE_LOW \<noteq> 0 then utf16s_to_utf8s ws inlen e maxout
                 else if inlen \<le> 0 then Inr []
                 else
                   case ws of
                     [] \<Rightarrow> Inl OutOfBounds
                   | w' # ws' \<Rightarrow>
                       (let v = get_utf16 w' e in
                        if v AND SURROGATE_MASK \<noteq> SURROGATE_PAIR \<or> v AND SURROGATE_LOW = 0
                        then utf16s_to_utf8s ws inlen e maxout
                        else
                          (let u = PLANE_SIZE + push_bit 10 (u AND SURROGATE_BITS) + (v AND SURROGATE_BITS) in
                           case utf32_to_utf8 u maxout of
                             Inl err \<Rightarrow> utf16s_to_utf8s ws' (inlen - 1) e maxout
                           | Inr bs \<Rightarrow> emit bs (utf16s_to_utf8s ws' (inlen - 1) e (maxout - int (length bs)))))
               else
                 (case utf32_to_utf8 u maxout of
                    Inl err \<Rightarrow> utf16s_to_utf8s ws inlen e maxout
                  | Inr bs \<Rightarrow> emit bs (utf16s_to_utf8s ws inlen e (maxout - int (length bs))))
             else emit [of_nat u] (utf16s_to_utf8s ws inlen e (maxout - 1))))"
  by pat_completeness auto

termination
  by (relation "measure (\<lambda>(s, _). length s)") auto

declare utf8s_to_utf16s.simps [simp del] utf16s_to_utf8s.simps [simp del]

section \<open>Units\<close>

definition utf16_units :: "nat \<Rightarrow> nat list" where
  "utf16_units u =
     (if u < 0x10000 then [u]
      else [0xD800 + (u - 0x10000) div 1024, 0xDC00 + (u - 0x10000) mod 1024])"

lemma swab16_swab16 [simp]: "swab16 (swab16 w) = w"
  unfolding swab16_def by (rule bit_word_eqI) (auto simp: bit_simps)

lemma get_put_utf16 [simp]: "c < 65536 \<Longrightarrow> get_utf16 (put_utf16 c e) e = c"
  by (cases e) (simp_all add: get_utf16_def put_utf16_def unat_of_nat)

lemma surrogate_bits:
  "x < 1024 \<Longrightarrow> SURROGATE_PAIR OR x = 0xD800 + x" "x < 1024 \<Longrightarrow> SURROGATE_PAIR OR SURROGATE_LOW OR x = 0xDC00 + x"
  "u AND SURROGATE_BITS = u mod 1024" "u AND SURROGATE_LOW = 1024 * (u div 1024 mod 2)"
proof -
  show "x < 1024 \<Longrightarrow> SURROGATE_PAIR OR x = 0xD800 + x" using or_disj [of x 10 54] by (simp add: SURROGATE_PAIR_def)
  show "x < 1024 \<Longrightarrow> SURROGATE_PAIR OR SURROGATE_LOW OR x = 0xDC00 + x"
    using or_disj [of x 10 55] by (simp add: SURROGATE_PAIR_def SURROGATE_LOW_def flip: or.assoc)
  show "u AND SURROGATE_BITS = u mod 1024" by (simp add: SURROGATE_BITS_def mask_mod)
  show "u AND SURROGATE_LOW = 1024 * (u div 1024 mod 2)"
    using and_push [of u 10 1] by (simp add: SURROGATE_LOW_def drop_shift push_bit_eq_mult and_one_eq mult.commute)
qed

lemma utf8_lead:
  assumes "codepoint u" and "0x80 \<le> u"
  obtains c cs where "utf8_bytes u = c # cs" and "128 \<le> c" and "c < 256"
proof -
  have "u div 64 < 32" if "u < 0x800" using that by (simp add: less_mult_imp_div_less)
  moreover have "u div 4096 < 16" if "u < 0x10000" using that by (simp add: less_mult_imp_div_less)
  moreover have "u div 262144 < 8" using assms(1) by (simp add: codepoint_def less_mult_imp_div_less)
  ultimately have "128 \<le> hd (utf8_bytes u) \<and> hd (utf8_bytes u) < 256 \<and> utf8_bytes u \<noteq> []"
    using assms(2) by (auto simp: utf8_bytes_def)
  then show ?thesis using that by (cases "utf8_bytes u") auto
qed

lemma plane_div: "codepoint u \<Longrightarrow> (u - 65536) div 1024 < 1024"
  by (rule less_mult_imp_div_less) (auto simp: codepoint_def)

lemma utf8s_step:
  assumes u: "codepoint u" "u \<noteq> 0" and len: "int (length (utf8_bytes u)) \<le> inlen" "int (length (utf16_units u)) \<le> maxout"
  shows "utf8s_to_utf16s (bytes (utf8_bytes u) @ rest) inlen e maxout =
    emit (map (\<lambda>c. put_utf16 c e) (utf16_units u))
      (utf8s_to_utf16s rest (inlen - int (length (utf8_bytes u))) e (maxout - int (length (utf16_units u))))"
proof (cases "u < 0x80")
  case True
  then have "unat (of_nat u :: 8 word) = u" "(of_nat u :: 8 word) \<noteq> 0"
    using u(2) unat_byte [of u] by (auto simp flip: unat_eq_zero)
  then show ?thesis using True len
    by (subst utf8s_to_utf16s.simps) (simp add: utf8_bytes_def utf16_units_def and_byte)
next
  case False
  then obtain c cs where c: "utf8_bytes u = c # cs" "128 \<le> c" "c < 256" using utf8_lead [OF u(1)] by auto
  have b: "unat (of_nat c :: 8 word) = c" "(of_nat c :: 8 word) \<noteq> 0" using c(2,3) unat_byte [of c] by (auto simp flip: unat_eq_zero)
  have "c AND 0x80 \<noteq> 0" using c(2,3) by (simp add: and_byte div_eq_0_iff)
  moreover have "utf8_to_utf32 (bytes (utf8_bytes u) @ rest) inlen = Inr (length (utf8_bytes u), u)"
    by (rule utf8_decode [OF u(1) len(1)])
  moreover have "(u - 65536) div 1024 < 1024" by (rule plane_div [OF u(1)])
  ultimately show ?thesis using b c len
    by (cases "u < 0x10000") (subst utf8s_to_utf16s.simps,
      simp add: Let_def utf16_units_def PLANE_SIZE_def surrogate_bits drop_shift del: of_nat_add)+
qed

lemma utf8s_to_utf16s_ok:
  "\<forall>u \<in> set us. codepoint u \<and> u \<noteq> 0 \<Longrightarrow> int (length (concat (map utf8_bytes us))) = inlen \<Longrightarrow>
    int (length (concat (map utf16_units us))) \<le> maxout \<Longrightarrow>
    utf8s_to_utf16s (bytes (concat (map utf8_bytes us))) inlen e maxout =
      Inr (map (\<lambda>c. put_utf16 c e) (concat (map utf16_units us)))"
proof (induction us arbitrary: inlen maxout)
  case Nil
  then show ?case by (simp add: utf8s_to_utf16s.simps)
next
  case (Cons u us)
  then show ?case using utf8s_step [of u inlen maxout "bytes (concat (map utf8_bytes us))" e] by (simp add: emit_def)
qed

lemma utf16s_step:
  assumes u: "codepoint u" "u \<noteq> 0" and len: "int (length (utf16_units u)) \<le> inlen" "int (length (utf8_bytes u)) \<le> maxout"
  shows "utf16s_to_utf8s (map (\<lambda>c. put_utf16 c e) (utf16_units u) @ rest) inlen e maxout =
    emit (bytes (utf8_bytes u))
      (utf16s_to_utf8s rest (inlen - int (length (utf16_units u))) e (maxout - int (length (utf8_bytes u))))"
proof -
  have enc: "utf32_to_utf8 u maxout = Inr (bytes (utf8_bytes u))" using utf32_to_utf8_eq [OF u(1), of maxout] len(2) by simp
  have pos: "0 < maxout" using len(2) by (auto simp: utf8_bytes_def split: if_splits)
  consider "u < 0x80" | "0x80 \<le> u" "u < 0x10000" | "0x10000 \<le> u" by linarith
  then show ?thesis
  proof cases
    case 1
    then show ?thesis using u(2) len
      by (subst utf16s_to_utf8s.simps) (simp add: utf16_units_def utf8_bytes_def Let_def)
  next
    case 2
    then have "u AND SURROGATE_MASK \<noteq> SURROGATE_PAIR" using u(1) by (simp add: codepoint_iff)
    then show ?thesis using 2 len enc pos by (subst utf16s_to_utf8s.simps) (simp add: utf16_units_def Let_def)
  next
    case 3
    define x y where xy: "x = (u - 0x10000) div 1024" "y = (u - 0x10000) mod 1024"
    have x: "x < 1024" and y: "y < 1024" using plane_div [OF u(1)] by (simp_all add: xy)
    have whole: "0x10000 + x * 1024 + y = u" using 3 div_mult_mod_eq [of "u - 0x10000" 1024] by (simp add: xy)
    have "\<not> (0xD800 + x > UNICODE_MAX)" "\<not> (0xDC00 + y > UNICODE_MAX)" using x y by (simp_all add: UNICODE_MAX_def)
    then have s: "(0xD800 + x) AND SURROGATE_MASK = SURROGATE_PAIR" "(0xDC00 + y) AND SURROGATE_MASK = SURROGATE_PAIR"
      using surrogate_range [of "0xD800 + x"] surrogate_range [of "0xDC00 + y"] x y by simp_all
    have d: "(0xD800 + x) div 1024 = 54" "(0xDC00 + y) div 1024 = 55" "(0xD800 + x) mod 1024 = x" "(0xDC00 + y) mod 1024 = y"
      using x y by (auto simp: div_nat_eqI) (simp_all add: mod_nat_eqI)
    show ?thesis using 3 len enc x y s d whole pos
      by (subst utf16s_to_utf8s.simps) (simp add: utf16_units_def Let_def surrogate_bits PLANE_SIZE_def push_bit_eq_mult
          diff_diff_eq flip: xy)
  qed
qed

lemma utf16s_to_utf8s_ok:
  "\<forall>u \<in> set us. codepoint u \<and> u \<noteq> 0 \<Longrightarrow> int (length (concat (map utf16_units us))) = inlen \<Longrightarrow>
    int (length (concat (map utf8_bytes us))) \<le> maxout \<Longrightarrow>
    utf16s_to_utf8s (map (\<lambda>c. put_utf16 c e) (concat (map utf16_units us))) inlen e maxout =
      Inr (bytes (concat (map utf8_bytes us)))"
proof (induction us arbitrary: inlen maxout)
  case Nil
  then show ?case by (simp add: utf16s_to_utf8s.simps)
next
  case (Cons u us)
  then show ?case
    using utf16s_step [of u inlen maxout e "map (\<lambda>c. put_utf16 c e) (concat (map utf16_units us))"] by (simp add: emit_def)
qed

section \<open>Properties\<close>

text \<open>
  C31. UTF-8 of one character. Every code point up to 0x10FFFF that is not a surrogate has an
  encoding of one to four bytes that the decoder reads back, whatever follows it; and whatever the
  decoder accepts is the encoding of its result: no overlong form, no surrogate and nothing above
  0x10FFFF gets through.
\<close>

theorem utf8_round_trip:
  "(\<forall>u maxout inlen rest bs. utf32_to_utf8 u maxout = Inr bs \<longrightarrow> int (length bs) \<le> inlen \<longrightarrow>
      utf8_to_utf32 (bs @ rest) inlen = Inr (length bs, u)) \<and>
    (\<forall>s inlen n u. utf8_to_utf32 s inlen = Inr (n, u) \<longrightarrow>
      utf32_to_utf8 u (int n) = Inr (take n s) \<and> n \<le> length s \<and> 1 \<le> n \<and> n \<le> 4)"
proof (intro conjI allI impI)
  fix u maxout inlen rest bs assume bs: "utf32_to_utf8 u maxout = Inr bs" and len: "int (length bs) \<le> inlen"
  then have u: "codepoint u" by (auto simp: utf32_to_utf8_def codepoint_iff split: if_splits)
  then have "bs = bytes (utf8_bytes u)" using bs utf32_to_utf8_eq [of u maxout] by (simp split: if_splits)
  then show "utf8_to_utf32 (bs @ rest) inlen = Inr (length bs, u)" using utf8_decode [OF u, of inlen rest] len by simp
next
  fix s inlen n u assume "utf8_to_utf32 s inlen = Inr (n, u)"
  from utf8_canonical [OF this] obtain rest where r: "codepoint u" "n = length (utf8_bytes u)" "s = bytes (utf8_bytes u) @ rest"
    by blast
  then show "utf32_to_utf8 u (int n) = Inr (take n s)" "n \<le> length s"
    using utf32_to_utf8_eq [OF r(1), of "int n"] by simp_all
  show "1 \<le> n" "n \<le> 4" unfolding r(2) by (auto simp: utf8_bytes_def)
qed

theorem utf8_round_trip_witness:
  "utf32_to_utf8 0x20AC 6 = Inr [0xE2, 0x82, 0xAC] \<and> utf8_to_utf32 [0xE2, 0x82, 0xAC, 0x21] 4 = Inr (3, 0x20AC)"
proof -
  have enc: "utf32_to_utf8 0x20AC 6 = Inr [0xE2, 0x82, 0xAC]"
    by (simp add: utf32_to_utf8_eq codepoint_def utf8_bytes_def)
  have "utf8_to_utf32 ([0xE2, 0x82, 0xAC] @ [0x21]) 4 = Inr (length [0xE2 :: 8 word, 0x82, 0xAC], 0x20AC)"
    by (rule conjunct1 [OF utf8_round_trip, THEN spec, THEN spec, THEN spec, THEN spec, THEN spec, THEN mp, THEN mp, OF enc]) simp
  then show ?thesis using enc by simp
qed

text \<open>
  C32. Strings. A text without NUL converts from UTF-8 to UTF-16 and back to the same bytes, in
  every byte order, with surrogate pairs for the code points above 0xFFFF, provided the output
  buffers are large enough; nothing behind the given length is read.
\<close>

theorem utf16_round_trip:
  assumes "\<forall>u \<in> set us. codepoint u \<and> u \<noteq> 0" and "s = bytes (concat (map utf8_bytes us))"
    and "ws = map (\<lambda>c. put_utf16 c e) (concat (map utf16_units us))"
    and "int (length ws) \<le> m" and "int (length s) \<le> n"
  shows "utf8s_to_utf16s s (int (length s)) e m = Inr ws \<and> utf16s_to_utf8s ws (int (length ws)) e n = Inr s"
  using utf8s_to_utf16s_ok [OF assms(1) refl] utf16s_to_utf8s_ok [OF assms(1) refl] assms(2-) by simp

theorem utf16_round_trip_witness:
  "utf8s_to_utf16s [0x61, 0xF0, 0x9F, 0x98, 0x80] 5 UTF16_HOST_ENDIAN 3 = Inr [0x61, 0xD83D, 0xDE00] \<and>
    utf16s_to_utf8s [0x61, 0xD83D, 0xDE00] 3 UTF16_HOST_ENDIAN 5 = Inr [0x61, 0xF0, 0x9F, 0x98, 0x80]"
  using utf16_round_trip [of "[0x61, 0x1F600]" "[0x61, 0xF0, 0x9F, 0x98, 0x80]" "[0x61, 0xD83D, 0xDE00]" UTF16_HOST_ENDIAN 3 5]
  by (simp add: codepoint_def utf8_bytes_def utf16_units_def put_utf16_def)

end
