(* ===== verification/Nls_Charset.thy ===== *)
theory Nls_Charset
  imports Nls_Utf16
begin

unbundle bit_operations_syntax

text \<open>
  Character sets (\<open>fs/nls\<close>): the interface \<open>nls_table\<close>, the table-driven implementation that
  most character sets share, and its client \<open>fs/isofs/joliet.c\<close>. A conversion to a character
  returns the bytes written, a conversion from one the number of bytes read and the character.
\<close>

section \<open>The interface\<close>

record nls_table =
  charset :: string
  alias_name :: "string option"
  uni2char :: "16 word \<Rightarrow> int \<Rightarrow> nls_err + 8 word list"
  char2uni :: "8 word list \<Rightarrow> int \<Rightarrow> nls_err + nat \<times> 16 word"
  charset2lower :: "int list"
  charset2upper :: "int list"

text \<open>
  An exact character set: what it writes it reads back, whatever follows; and what it reads it
  writes as the same bytes.
\<close>

locale nls_codec =
  fixes u2c :: "16 word \<Rightarrow> int \<Rightarrow> nls_err + 8 word list"
    and c2u :: "8 word list \<Rightarrow> int \<Rightarrow> nls_err + nat \<times> 16 word"
  assumes reads: "u2c u n = Inr bs \<Longrightarrow> int (length bs) \<le> m \<Longrightarrow> c2u (bs @ rest) m = Inr (length bs, u)"
    and writes: "c2u s m = Inr (k, u) \<Longrightarrow> 0 < n \<Longrightarrow> int k \<le> n \<Longrightarrow> u2c u n = Inr (take k s) \<and> 0 < k \<and> k \<le> length s"
begin

lemma u2c_inj: "u2c u n = Inr bs \<Longrightarrow> u2c v m = Inr bs \<Longrightarrow> u = v"
  using reads [of u n bs "int (length bs)" "[]"] reads [of v m bs "int (length bs)" "[]"] by simp

lemma u2c_nonempty:
  assumes "u2c u n = Inr bs"
  shows "bs \<noteq> []"
  using reads [OF assms, of "int (length bs)" "[]"] writes [of bs "int (length bs)" "length bs" u "int (length bs) + 1"] by auto

lemma u2c_prefix: "u2c u n = Inr bs \<Longrightarrow> u2c v m = Inr cs \<Longrightarrow> bs @ xs = cs @ ys \<Longrightarrow> u = v \<and> bs = cs"
  using reads [of u n bs "int (length bs + length cs)" xs] reads [of v m cs "int (length bs + length cs)" ys]
  by (metis append_eq_append_conv add.commute le_add1 of_nat_le_iff old.sum.inject(2) prod.inject)

end

section \<open>Tables\<close>

text \<open>Reading a C array of 256 entries whose initializer may be shorter; the rest is zero.\<close>

definition tab :: "int list \<Rightarrow> nat \<Rightarrow> int" where
  "tab xs i = (if i < length xs then xs ! i else 0)"

definition page_of :: "int list option list \<Rightarrow> nat \<Rightarrow> int list option" where
  "page_of ps i = (if i < length ps then ps ! i else None)"

text \<open>The bodies of \<open>uni2char\<close> and \<open>char2uni\<close> are the same in all files with tables.\<close>

definition tab_uni2char :: "int list option list \<Rightarrow> 16 word \<Rightarrow> int \<Rightarrow> nls_err + 8 word list" where
  "tab_uni2char page_uni2charset uni boundlen =
     (let cl = uni AND 0x00ff; ch = drop_bit 8 (uni AND 0xff00) in
      if boundlen \<le> 0 then Inl ENAMETOOLONG
      else
        case page_of page_uni2charset (unat ch) of
          None \<Rightarrow> Inl EINVAL
        | Some uni2charset \<Rightarrow>
            if tab uni2charset (unat cl) \<noteq> 0 then Inr [of_int (tab uni2charset (unat cl))] else Inl EINVAL)"

definition tab_char2uni :: "int list \<Rightarrow> 8 word list \<Rightarrow> int \<Rightarrow> nls_err + nat \<times> 16 word" where
  "tab_char2uni charset2uni rawstring boundlen =
     (case rawstring of
        [] \<Rightarrow> Inl OutOfBounds
      | b # _ \<Rightarrow>
          if tab charset2uni (unat b) = 0 then Inl EINVAL else Inr (1, of_int (tab charset2uni (unat b))))"

text \<open>The pairs of a character and its byte, read off the two directions of a table.\<close>

fun from_bytes :: "int \<Rightarrow> int list \<Rightarrow> (int \<times> int) list" where
  "from_bytes c [] = []"
| "from_bytes c (u # us) = (if u = 0 then from_bytes (c + 1) us else (u, c) # from_bytes (c + 1) us)"

fun from_page :: "int \<Rightarrow> int list \<Rightarrow> (int \<times> int) list" where
  "from_page u [] = []"
| "from_page u (c # cs) = (if c = 0 then from_page (u + 1) cs else (u, c) # from_page (u + 1) cs)"

fun from_pages :: "int \<Rightarrow> int list option list \<Rightarrow> (int \<times> int) list" where
  "from_pages u [] = []"
| "from_pages u (None # ps) = from_pages (u + 256) ps"
| "from_pages u (Some p # ps) = from_page u p @ from_pages (u + 256) ps"

fun ins_byte :: "int \<times> int \<Rightarrow> (int \<times> int) list \<Rightarrow> (int \<times> int) list" where
  "ins_byte x [] = [x]"
| "ins_byte x (y # ys) = (if snd x \<le> snd y then x # y # ys else y # ins_byte x ys)"

text \<open>Both directions have the same pairs, and the tables have the size of their C arrays.\<close>

definition exact :: "int list \<Rightarrow> int list option list \<Rightarrow> bool" where
  "exact c2u ps \<longleftrightarrow>
     foldr ins_byte (from_pages 0 ps) [] = from_bytes 0 c2u \<and> length c2u \<le> 256 \<and> length ps \<le> 256 \<and>
     list_all (\<lambda>p. case p of None \<Rightarrow> True | Some p \<Rightarrow> length p \<le> 256) ps"

lemma set_ins_byte: "set (ins_byte x xs) = insert x (set xs)"
  by (induction xs) auto

lemma set_sorted_bytes: "set (foldr ins_byte xs []) = set xs"
  by (induction xs) (simp_all add: set_ins_byte)

lemma from_bytes_iff: "(u, c) \<in> set (from_bytes k xs) \<longleftrightarrow> (\<exists>i < length xs. c = k + int i \<and> u = xs ! i \<and> u \<noteq> 0)"
proof (induction xs arbitrary: k)
  case (Cons x xs)
  have "(\<exists>i < length (x # xs). c = k + int i \<and> u = (x # xs) ! i \<and> u \<noteq> 0) \<longleftrightarrow>
      (c = k \<and> u = x \<and> u \<noteq> 0) \<or> (\<exists>i < length xs. c = k + 1 + int i \<and> u = xs ! i \<and> u \<noteq> 0)"
    by (auto simp: Ex_less_Suc2 ac_simps)
  then show ?case using Cons by auto
qed simp

lemma from_page_iff: "(u, c) \<in> set (from_page k xs) \<longleftrightarrow> (\<exists>i < length xs. u = k + int i \<and> c = xs ! i \<and> c \<noteq> 0)"
proof (induction xs arbitrary: k)
  case (Cons x xs)
  have "(\<exists>i < length (x # xs). u = k + int i \<and> c = (x # xs) ! i \<and> c \<noteq> 0) \<longleftrightarrow>
      (u = k \<and> c = x \<and> c \<noteq> 0) \<or> (\<exists>i < length xs. u = k + 1 + int i \<and> c = xs ! i \<and> c \<noteq> 0)"
    by (auto simp: Ex_less_Suc2 ac_simps)
  then show ?case using Cons by auto
qed simp

lemma from_pages_iff:
  "(u, c) \<in> set (from_pages k ps) \<longleftrightarrow>
    (\<exists>h < length ps. \<exists>p i. ps ! h = Some p \<and> i < length p \<and> u = k + 256 * int h + int i \<and> c = p ! i \<and> c \<noteq> 0)"
proof (induction ps arbitrary: k)
  case (Cons q ps)
  show ?case using Cons [of "k + 256"]
    by (cases q) (auto simp: Ex_less_Suc2 from_page_iff algebra_simps)
qed simp

lemma uni_parts:
  fixes u :: "16 word"
  shows "unat (u AND 0x00ff) = unat u mod 256" and "unat (drop_bit 8 (u AND 0xff00)) = unat u div 256"
proof -
  have small: "unat u < 65536" using unsigned_less [of u] by simp
  show "unat (u AND 0x00ff) = unat u mod 256"
    using take_bit_eq_mask [of 8 "unat u"] by (simp add: unsigned_and_eq take_bit_eq_mod mask_eq_exp_minus_1)
  have "drop_bit 8 (unat u AND 0xff00) = drop_bit 8 (unat u) AND (255 :: nat)"
    by (simp only: drop_bit_and) (simp add: drop_bit_eq_div [of 8 65280])
  also have "\<dots> = unat u div 256"
    using take_bit_eq_mask [of 8 "unat u div 256"] small
    by (simp add: take_bit_eq_mod mask_eq_exp_minus_1 drop_bit_eq_div less_mult_imp_div_less)
  finally show "unat (drop_bit 8 (u AND 0xff00)) = unat u div 256"
    using small by (simp add: unsigned_and_eq unsigned_drop_bit_eq take_bit_nat_eq_self)
qed

lemma exact_pairs: "exact c2u ps \<Longrightarrow> set (from_pages 0 ps) = set (from_bytes 0 c2u)"
  unfolding exact_def by (metis set_sorted_bytes)

lemma tab_uni2char_iff:
  assumes "exact c2u ps"
  shows "tab_uni2char ps u n = Inr bs \<longleftrightarrow>
    0 < n \<and> (\<exists>c. (int (unat u), c) \<in> set (from_bytes 0 c2u) \<and> bs = [of_int c])"
proof -
  have le: "length p \<le> 256" if "h < length ps" "ps ! h = Some p" for h p
    using assms that unfolding exact_def list_all_length by (auto split: option.splits)
  have "(int (unat u), c) \<in> set (from_pages 0 ps) \<longleftrightarrow>
      (\<exists>p. page_of ps (unat u div 256) = Some p \<and> c = tab p (unat u mod 256) \<and> c \<noteq> 0)" for c
  proof
    assume "(int (unat u), c) \<in> set (from_pages 0 ps)"
    then obtain h p i where h: "h < length ps" "ps ! h = Some p" "i < length p" "int (unat u) = 256 * int h + int i" "c = p ! i" "c \<noteq> 0"
      unfolding from_pages_iff by auto
    then have "unat u = 256 * h + i" "i < 256" using le [of h p] by linarith+
    then have "unat u div 256 = h" "unat u mod 256 = i" by (simp_all only: div_mult_self4 mod_mult_self4) simp_all
    then show "\<exists>p. page_of ps (unat u div 256) = Some p \<and> c = tab p (unat u mod 256) \<and> c \<noteq> 0"
      using h by (simp add: page_of_def tab_def)
  next
    assume "\<exists>p. page_of ps (unat u div 256) = Some p \<and> c = tab p (unat u mod 256) \<and> c \<noteq> 0"
    moreover have "int (unat u) = 256 * int (unat u div 256) + int (unat u mod 256)"
      using mult_div_mod_eq [of 256 "unat u"] by linarith
    ultimately show "(int (unat u), c) \<in> set (from_pages 0 ps)"
      unfolding from_pages_iff page_of_def tab_def by (force split: if_splits)
  qed
  then show ?thesis unfolding exact_pairs [OF assms, symmetric] tab_uni2char_def Let_def uni_parts
    by (auto split: option.splits)
qed

lemma tab_char2uni_iff:
  assumes "exact c2u ps"
  shows "tab_char2uni c2u s m = Inr (k, u) \<longleftrightarrow>
    (\<exists>b t. s = b # t \<and> k = 1 \<and> (int (unat u), int (unat b)) \<in> set (from_bytes 0 c2u))"
proof -
  have range: "0 \<le> v \<and> v < 65536" if vc: "(v, c) \<in> set (from_bytes 0 c2u)" for v c
  proof -
    have "(v, c) \<in> set (from_pages 0 ps)" using exact_pairs [OF assms] vc by simp
    then obtain h p i where h: "h < length ps" "ps ! h = Some p" "i < length p" "v = 256 * int h + int i"
      unfolding from_pages_iff by auto
    moreover have "length ps \<le> 256" "length p \<le> 256"
      using assms h unfolding exact_def list_all_length by (auto split: option.splits)
    ultimately show ?thesis by linarith
  qed
  have "(v, int (unat b)) \<in> set (from_bytes 0 c2u) \<longleftrightarrow> v = tab c2u (unat b) \<and> v \<noteq> 0" for v and b :: "8 word"
    unfolding from_bytes_iff tab_def add_0 of_nat_eq_iff by auto
  note at = this
  have "(of_int v :: 16 word) = u \<longleftrightarrow> int (unat u) = v" if "0 \<le> v" "v < 65536" for v
    using that unsigned_less [of u] by (auto simp: unsigned_of_int take_bit_int_eq_self)
  then have "tab c2u (unat b) \<noteq> 0 \<Longrightarrow> (of_int (tab c2u (unat b)) :: 16 word) = u \<longleftrightarrow> int (unat u) = tab c2u (unat b)"
    for b :: "8 word" using range at by blast
  moreover have "(\<exists>b t. s = b # t \<and> k = 1 \<and> (int (unat u), int (unat b)) \<in> set (from_bytes 0 c2u)) \<longleftrightarrow>
      (\<exists>b t. s = b # t \<and> k = 1 \<and> tab c2u (unat b) \<noteq> 0 \<and> int (unat u) = tab c2u (unat b))"
    unfolding at by (intro ex_cong1) auto
  ultimately show ?thesis
    by (cases s) (auto simp: tab_char2uni_def)
qed

lemma table_codec:
  assumes ok: "exact c2u ps"
  shows "nls_codec (tab_uni2char ps) (tab_char2uni c2u)"
proof
  fix u n bs m rest assume "tab_uni2char ps u n = Inr bs"
  then obtain c where c: "(int (unat u), c) \<in> set (from_bytes 0 c2u)" "bs = [of_int c]"
    using tab_uni2char_iff [OF ok] by blast
  moreover have "0 \<le> c" "c < 256" using c ok by (auto simp: from_bytes_iff exact_def)
  then have "int (unat (of_int c :: 8 word)) = c" by (simp add: unsigned_of_int take_bit_int_eq_self)
  ultimately show "tab_char2uni c2u (bs @ rest) m = Inr (length bs, u)"
    unfolding tab_char2uni_iff [OF ok] by simp
next
  fix s m k u n assume "tab_char2uni c2u s m = Inr (k, u)" "0 < (n :: int)"
  then obtain b t where "s = b # t" "k = 1" "(int (unat u), int (unat b)) \<in> set (from_bytes 0 c2u)"
    unfolding tab_char2uni_iff [OF ok] by blast
  then show "tab_uni2char ps u n = Inr (take k s) \<and> 0 < k \<and> k \<le> length s"
    using \<open>0 < n\<close> unfolding tab_uni2char_iff [OF ok] by force
qed

end
