(* ===== verification/Nls_Modules.thy ===== *)
theory Nls_Modules
  imports Nls_Tables
begin

unbundle bit_operations_syntax

text \<open>
  The character sets whose conversions are written out: \<open>nls_utf8.c\<close>, over the functions of
  \<open>nls_base.c\<close>, and \<open>nls_koi8-ru.c\<close>, over the table of another character set. Then the properties
  of the conversions of all modelled character sets.
\<close>

section \<open>\<open>nls_utf8.c\<close>\<close>

text \<open>The question mark that the functions leave behind on an error is not part of the result.\<close>

definition utf8_uni2char :: "16 word \<Rightarrow> int \<Rightarrow> nls_err + 8 word list" where
  "utf8_uni2char uni boundlen =
     (if boundlen \<le> 0 then Inl ENAMETOOLONG
      else case utf32_to_utf8 (unat uni) boundlen of Inl _ \<Rightarrow> Inl EINVAL | Inr bs \<Rightarrow> Inr bs)"

text \<open>\<open>MAX_WCHAR_T\<close> is the largest 16-bit value.\<close>

definition utf8_char2uni :: "8 word list \<Rightarrow> int \<Rightarrow> nls_err + nat \<times> 16 word" where
  "utf8_char2uni rawstring boundlen =
     (case utf8_to_utf32 rawstring boundlen of
        Inl OutOfBounds \<Rightarrow> Inl OutOfBounds
      | Inl _ \<Rightarrow> Inl EINVAL
      | Inr (n, u) \<Rightarrow> if u > 0xffff then Inl EINVAL else Inr (n, of_nat u))"

definition identity :: "int list" where
  "identity = [0..255]"

definition utf8_nls_table :: nls_table where
  "utf8_nls_table = \<lparr>charset = ''utf8'', alias_name = None, uni2char = utf8_uni2char, char2uni = utf8_char2uni,
     charset2lower = identity, charset2upper = identity\<rparr>"

lemma utf8_uni2char_Inr:
  "utf8_uni2char u n = Inr bs \<longleftrightarrow>
    0 < n \<and> codepoint (unat u) \<and> bs = bytes (utf8_bytes (unat u)) \<and> int (length bs) \<le> n"
  using utf32_to_utf8_eq [of "unat u" n]
  by (auto simp: utf8_uni2char_def codepoint_iff utf32_to_utf8_def split: sum.splits if_splits)

lemma utf8_char2uni_Inr:
  "utf8_char2uni s m = Inr (k, u) \<longleftrightarrow> utf8_to_utf32 s m = Inr (k, unat u)"
proof -
  have "unat u < 2 ^ LENGTH(16)" by (rule unsigned_less)
  then have "unat u \<le> 0xffff" by simp
  then show ?thesis
    by (auto simp: utf8_char2uni_def unsigned_of_nat take_bit_nat_eq_self split: sum.splits nls_err.splits if_splits prod.splits)
qed

interpretation utf8_codec: nls_codec utf8_uni2char utf8_char2uni
proof
  fix u n bs m rest assume "utf8_uni2char u n = Inr bs" "int (length bs) \<le> m"
  then show "utf8_char2uni (bs @ rest) m = Inr (length bs, u)"
    using utf8_decode [of "unat u" m rest] by (simp add: utf8_uni2char_Inr utf8_char2uni_Inr)
next
  fix s m k u n assume "utf8_char2uni s m = Inr (k, u)" "0 < n" "int k \<le> n"
  then show "utf8_uni2char u n = Inr (take k s) \<and> 0 < k \<and> k \<le> length s"
    using utf8_canonical [of s m k "unat u"] utf8_to_utf32_size [of s m k "unat u"]
    by (auto simp: utf8_uni2char_Inr utf8_char2uni_Inr)
qed

section \<open>\<open>nls_koi8-ru.c\<close>\<close>

text \<open>\<open>p_nls\<close> is the table that the module loads as \<open>koi8-u\<close>.\<close>

definition koi8_ru_uni2char :: "nls_table \<Rightarrow> 16 word \<Rightarrow> int \<Rightarrow> nls_err + 8 word list" where
  "koi8_ru_uni2char p_nls uni boundlen =
     (if boundlen \<le> 0 then Inl ENAMETOOLONG
      else if uni AND 0xffaf = 0x040e \<or> uni AND 0xffce = 0x254c then
        if uni = 0x040e then Inr [0xbe]
        else if uni = 0x045e then Inr [0xae]
        else if uni = 0x255d \<or> uni = 0x256c then Inr []
        else uni2char p_nls uni boundlen
      else uni2char p_nls uni boundlen)"

definition koi8_ru_char2uni :: "nls_table \<Rightarrow> 8 word list \<Rightarrow> int \<Rightarrow> nls_err + nat \<times> 16 word" where
  "koi8_ru_char2uni p_nls rawstring boundlen =
     (case rawstring of
        [] \<Rightarrow> Inl OutOfBounds
      | b # _ \<Rightarrow>
          if b AND 0xef \<noteq> 0xae then Inr (1, if b AND 0x10 \<noteq> 0 then 0x040e else 0x045e)
          else char2uni p_nls rawstring boundlen)"

definition koi8_ru_table :: "nls_table \<Rightarrow> nls_table" where
  "koi8_ru_table p_nls = \<lparr>charset = ''koi8-ru'', alias_name = None, uni2char = koi8_ru_uni2char p_nls,
     char2uni = koi8_ru_char2uni p_nls, charset2lower = charset2lower p_nls, charset2upper = charset2upper p_nls\<rparr>"

lemma ru_bytes: "(b :: 8 word) AND 0xef \<noteq> 0xae \<longleftrightarrow> b \<noteq> 0xae \<and> b \<noteq> 0xbe"
proof -
  have "list_all (\<lambda>n. let b = (word_of_int n :: 8 word) in (b AND 0xef \<noteq> 0xae) = (b \<noteq> 0xae \<and> b \<noteq> 0xbe)) [0..255]"
    by code_simp
  moreover have "0 \<le> uint b" "uint b < 2 ^ LENGTH(8)" by (rule uint_ge_0, rule unsigned_less)
  then have "uint b \<in> set [0..255]" by simp
  ultimately show ?thesis unfolding list_all_iff Let_def by (metis word_of_int_uint)
qed

section \<open>Properties\<close>

lemma tables_are_codecs:
  assumes "t \<in> set [default_table, ascii_table, iso8859_5_table, koi8_u_table, cp866_table, utf8_nls_table]"
  shows "nls_codec (uni2char t) (char2uni t)"
  using assms default_codec.nls_codec_axioms ascii_codec.nls_codec_axioms iso8859_5_codec.nls_codec_axioms
    koi8_u_codec.nls_codec_axioms cp866_codec.nls_codec_axioms utf8_codec.nls_codec_axioms
  by (auto simp: default_table_def ascii_table_def iso8859_5_table_def koi8_u_table_def cp866_table_def utf8_nls_table_def)

text \<open>
  C33. Exact mappings. The built-in character set, ascii, iso8859-5, koi8-u, cp866 and utf8 read
  back every character they write, whatever bytes follow; and every character they read from a
  string they write as exactly the bytes it was read from, when there is room for them.
\<close>

theorem nls_exact:
  assumes "t \<in> set [default_table, ascii_table, iso8859_5_table, koi8_u_table, cp866_table, utf8_nls_table]"
  shows "(\<forall>u n bs m rest. uni2char t u n = Inr bs \<longrightarrow> int (length bs) \<le> m \<longrightarrow>
      char2uni t (bs @ rest) m = Inr (length bs, u)) \<and>
    (\<forall>s m k u n. char2uni t s m = Inr (k, u) \<longrightarrow> 0 < n \<longrightarrow> int k \<le> n \<longrightarrow>
      uni2char t u n = Inr (take k s) \<and> 0 < k \<and> k \<le> length s)"
  using nls_codec.reads [OF tables_are_codecs [OF assms]] nls_codec.writes [OF tables_are_codecs [OF assms]] by blast

theorem nls_exact_witness:
  "uni2char koi8_u_table 0x416 1 = Inr [0xf6] \<and> char2uni koi8_u_table [0xf6, 0x21] 2 = Inr (1, 0x416)"
proof -
  have enc: "uni2char koi8_u_table 0x416 1 = Inr [0xf6]" by code_simp
  have "char2uni koi8_u_table ([0xf6] @ [0x21]) 2 = Inr (length [0xf6 :: 8 word], 0x416)"
    by (rule conjunct1 [OF nls_exact, THEN spec, THEN spec, THEN spec, THEN spec, THEN spec, THEN mp, THEN mp, OF _ enc]) simp_all
  then show ?thesis using enc by simp
qed

text \<open>
  C37. koi8-ru reads wrongly. It differs from koi8-u in the bytes 0xae and 0xbe only, but the test
  for them is inverted: every other byte, NUL and ASCII letters included, reads as one of the two
  Belarusian letters, and these two bytes read as the box-drawing characters of koi8-u.
\<close>

theorem koi8_ru_reads_wrongly:
  "char2uni (koi8_ru_table koi8_u_table) (b # s) n =
    Inr (1, if b = 0xae then 0x255d else if b = 0xbe then 0x256c else if b AND 0x10 = 0 then 0x045e else 0x040e)"
proof -
  have "char2uni koi8_u_table (0xae # s) n = Inr (1, 0x255d)" "char2uni koi8_u_table (0xbe # s) n = Inr (1, 0x256c)"
    by (simp_all add: koi8_u_table_def koi8_u_char2uni_def tab_char2uni_def tab_def koi8_u_charset2uni_def)
  then show ?thesis using ru_bytes [of b]
    by (auto simp: koi8_ru_table_def koi8_ru_char2uni_def)
qed

text \<open>
  cp1251 is not exact. It reads the euro sign and the letter ghe with upturn from their bytes,
  but does not write the euro sign at all, writes the small letter as the capital one, and writes
  the next character of Unicode, which it never reads, as the small letter.
\<close>

theorem cp1251_not_exact:
  "char2uni cp1251_table (0x88 # s) m = Inr (1, 0x20ac) \<and> uni2char cp1251_table 0x20ac 1 = Inl EINVAL \<and>
    char2uni cp1251_table (0xa5 # s) m = Inr (1, 0x0490) \<and> uni2char cp1251_table 0x0490 1 = Inl EINVAL \<and>
    char2uni cp1251_table (0xb4 # s) m = Inr (1, 0x0491) \<and> uni2char cp1251_table 0x0491 1 = Inr [0xa5] \<and>
    uni2char cp1251_table 0x0492 1 = Inr [0xb4]"
proof -
  have "uni2char cp1251_table 0x20ac 1 = Inl EINVAL" "uni2char cp1251_table 0x0490 1 = Inl EINVAL"
    "uni2char cp1251_table 0x0491 1 = Inr [0xa5]" "uni2char cp1251_table 0x0492 1 = Inr [0xb4]"
    by code_simp+
  then show ?thesis
    by (simp add: cp1251_table_def cp1251_char2uni_def tab_char2uni_def tab_def cp1251_charset2uni_def)
qed

end
