(* ===== verification/Joliet.thy ===== *)
theory Joliet
  imports Nls_Modules "HOL-Library.Sublist"
begin

text \<open>
  File names of Joliet CD-ROMs (\<open>fs/isofs/joliet.c\<close>), the client of the character sets: the
  big-endian 16-bit units of a directory record become a name in the character set of the mount.
  \<open>NLS_MAX_CHARSET_SIZE\<close> and \<open>PAGE_SIZE\<close> come from headers outside the tree and are arguments.
  The loop reads one unit more than the length it is given, so that unit is part of the input.
\<close>

section \<open>Definitions\<close>

fun uni16_to_x8 :: "nls_table \<Rightarrow> int \<Rightarrow> 16 word list \<Rightarrow> nat \<Rightarrow> nls_err + 8 word list" where
  "uni16_to_x8 nls maxcs [] len = Inl OutOfBounds"
| "uni16_to_x8 nls maxcs (ch # ip) len =
     (if ch \<noteq> 0 \<and> len \<noteq> 0 then
        emit (case uni2char nls (swab16 ch) maxcs of
                Inl _ \<Rightarrow> [0x3f]
              | Inr llen \<Rightarrow> if llen \<noteq> [] then llen else [0x3f])
          (uni16_to_x8 nls maxcs ip (len - 1))
      else Inr [])"

fun trim_dots :: "8 word list \<Rightarrow> nat \<Rightarrow> nat" where
  "trim_dots outname 0 = 0"
| "trim_dots outname (Suc n) = (if Suc n \<ge> 2 \<and> outname ! n = 0x2e then trim_dots outname n else Suc n)"

text \<open>
  \<open>len\<close> is an \<open>unsigned char\<close>. The result is the buffer with the length that the function returns.
\<close>

definition get_joliet_filename ::
  "bool \<Rightarrow> nls_table \<Rightarrow> int \<Rightarrow> int \<Rightarrow> 16 word list \<Rightarrow> 8 word \<Rightarrow> nls_err + 8 word list \<times> nat" where
  "get_joliet_filename utf8 nls maxcs page_size name name_len =
     (let n = unat name_len div 2 in
      case if utf8 then utf16s_to_utf8s name (int n) UTF16_BIG_ENDIAN page_size else uni16_to_x8 nls maxcs name n of
        Inl e \<Rightarrow> Inl e
      | Inr outname \<Rightarrow>
          let len = length outname mod 256;
              len = if len > 2 \<and> outname ! (len - 2) = 0x3b \<and> outname ! (len - 1) = 0x31 then len - 2 else len
          in Inr (outname, trim_dots outname len))"

section \<open>Names\<close>

text \<open>What a name becomes: without a version number of one, and without dots at its end.\<close>

definition strip_version :: "8 word list \<Rightarrow> 8 word list" where
  "strip_version bs = (if length bs > 2 \<and> suffix [0x3b, 0x31] bs then butlast (butlast bs) else bs)"

definition strip_dots :: "8 word list \<Rightarrow> 8 word list" where
  "strip_dots bs = (case bs of [] \<Rightarrow> [] | b # r \<Rightarrow> b # rev (dropWhile (\<lambda>c. c = 0x2e) (rev r)))"

text \<open>Bytes that a character set reads, one character after another, as a text.\<close>

inductive spells :: "nls_table \<Rightarrow> 8 word list \<Rightarrow> 16 word list \<Rightarrow> bool" for t where
  spells_Nil: "spells t [] []"
| spells_Cons: "char2uni t s (int (length s)) = Inr (k, u) \<Longrightarrow> 0 < k \<Longrightarrow> spells t (drop k s) us \<Longrightarrow> spells t s (u # us)"

definition encodable :: "nls_table \<Rightarrow> int \<Rightarrow> 16 word \<Rightarrow> bool" where
  "encodable t maxcs u \<longleftrightarrow> u \<noteq> 0 \<and> (\<exists>bs. uni2char t u maxcs = Inr bs)"

definition encoding :: "nls_table \<Rightarrow> int \<Rightarrow> 16 word list \<Rightarrow> 8 word list" where
  "encoding t maxcs us = concat (map (\<lambda>u. case uni2char t u maxcs of Inl _ \<Rightarrow> [] | Inr bs \<Rightarrow> bs) us)"

lemma encoding_spells:
  assumes "nls_codec (uni2char t) (char2uni t)" and "\<forall>u \<in> set us. encodable t maxcs u"
  shows "spells t (encoding t maxcs us) us"
  using assms(2)
proof (induction us)
  case (Cons u us)
  then obtain bs where bs: "uni2char t u maxcs = Inr bs" by (auto simp: encodable_def)
  have "bs \<noteq> []" by (rule nls_codec.u2c_nonempty [OF assms(1) bs])
  then show ?case using Cons bs nls_codec.reads [OF assms(1) bs]
    by (auto simp: encoding_def intro!: spells_Cons [where k = "length bs"])
qed (simp add: encoding_def spells_Nil)

lemma swab16_0: "swab16 0 = 0"
  by (simp add: swab16_def)

lemma uni16_to_x8_encoding:
  assumes "nls_codec (uni2char t) (char2uni t)" and "\<forall>u \<in> set us. encodable t maxcs u"
  shows "uni16_to_x8 t maxcs (map swab16 us @ [x]) (length us) = Inr (encoding t maxcs us)"
  using assms(2)
proof (induction us)
  case (Cons u us)
  then obtain bs where bs: "uni2char t u maxcs = Inr bs" "u \<noteq> 0" by (auto simp: encodable_def)
  have "bs \<noteq> []" by (rule nls_codec.u2c_nonempty [OF assms(1) bs(1)])
  moreover have "swab16 u \<noteq> 0" using bs(2) swab16_swab16 [of u] swab16_0 by metis
  ultimately show ?case using Cons bs by (simp add: encoding_def)
qed (simp add: encoding_def)

lemma trim_dots_le: "trim_dots bs n \<le> n"
  by (induction n) auto

lemma trim_dots_strip: "n \<le> length bs \<Longrightarrow> take (trim_dots bs n) bs = strip_dots (take n bs)"
proof (induction n)
  case (Suc n)
  then have split: "take (Suc n) bs = take n bs @ [bs ! n]" by (simp add: take_Suc_conv_app_nth)
  show ?case
  proof (cases n)
    case (Suc k)
    then obtain b r where r: "take n bs = b # r" using \<open>Suc n \<le> length bs\<close> by (cases bs) auto
    then show ?thesis using Suc.IH Suc.prems split Suc by (auto simp: strip_dots_def)
  qed (use split in \<open>simp add: strip_dots_def\<close>)
qed (simp add: strip_dots_def)

lemma strip_version_take:
  assumes "length bs > 2"
  shows "bs ! (length bs - 2) = 0x3b \<and> bs ! (length bs - 1) = 0x31 \<longleftrightarrow> suffix [0x3b, 0x31] bs"
proof -
  obtain ys b where ys: "bs = ys @ [b]" using assms by (cases bs rule: rev_cases) auto
  moreover obtain xs a where "ys = xs @ [a]" using assms ys by (cases ys rule: rev_cases) auto
  ultimately have "bs = xs @ [a, b]" by simp
  then show ?thesis by (auto simp: nth_append suffix_def)
qed


lemma joliet_trimmed:
  assumes "length bs < 256"
  shows "let len = length bs mod 256;
      len = if len > 2 \<and> bs ! (len - 2) = 0x3b \<and> bs ! (len - 1) = 0x31 then len - 2 else len
    in take (trim_dots bs len) bs = strip_dots (strip_version bs)"
  using assms strip_version_take [of bs]
  by (auto simp: Let_def trim_dots_strip strip_version_def butlast_conv_take numeral_2_eq_2)

section \<open>Properties\<close>

text \<open>
  C35. Joliet names in a character set. A name all of whose characters the character set has, and
  whose encoding is shorter than 256 bytes, becomes that encoding, which the character set reads
  back as the name; the returned length covers it without the version number of one and without
  the dots at its end.
\<close>

theorem joliet_name:
  assumes "t \<in> set [default_table, ascii_table, iso8859_5_table, koi8_u_table, cp866_table, utf8_nls_table]"
    and "\<forall>u \<in> set us. encodable t maxcs u" and "length us = unat name_len div 2"
    and "length (encoding t maxcs us) < 256"
  shows "\<exists>n. get_joliet_filename False t maxcs page_size (map swab16 us @ [x]) name_len = Inr (encoding t maxcs us, n) \<and>
    take n (encoding t maxcs us) = strip_dots (strip_version (encoding t maxcs us)) \<and>
    spells t (encoding t maxcs us) us"
  using joliet_trimmed [OF assms(4)] encoding_spells [OF tables_are_codecs [OF assms(1)] assms(2)]
    uni16_to_x8_encoding [OF tables_are_codecs [OF assms(1)] assms(2), of x] assms(3)
  by (simp add: get_joliet_filename_def Let_def)

theorem joliet_name_witness:
  "\<exists>n. get_joliet_filename False koi8_u_table 6 4096 [0x1604, 0x2e00, 0x3b00, 0x3100, 0] 8 = Inr ([0xf6, 0x2e, 0x3b, 0x31], n) \<and>
    take n [0xf6, 0x2e, 0x3b, 0x31] = [0xf6 :: 8 word]"
proof -
  have enc: "uni2char koi8_u_table 0x416 6 = Inr [0xf6]" "uni2char koi8_u_table 0x2e 6 = Inr [0x2e]"
    "uni2char koi8_u_table 0x3b 6 = Inr [0x3b]" "uni2char koi8_u_table 0x31 6 = Inr [0x31]"
    by code_simp+
  have swab: "map swab16 [0x416, 0x2e, 0x3b, 0x31] = [0x1604, 0x2e00, 0x3b00, 0x3100]" by code_simp
  have e: "encoding koi8_u_table 6 [0x416, 0x2e, 0x3b, 0x31] = [0xf6, 0x2e, 0x3b, 0x31]"
    by (simp add: encoding_def enc)
  have "strip_dots (strip_version [0xf6, 0x2e, 0x3b, 0x31]) = [0xf6]"
    by (simp add: strip_version_def strip_dots_def suffix_def)
  then show ?thesis
    using joliet_name [of koi8_u_table "[0x416, 0x2e, 0x3b, 0x31]" 6 8 4096 0] unfolding e swab
    by (auto simp: encodable_def enc)
qed

text \<open>
  C36. Long Joliet names in UTF-8. The whole name is converted, but its length is kept in an
  \<open>unsigned char\<close>: of a name of 256 bytes or more, the function returns at most the length modulo
  256. A name of 86 characters of three bytes comes back with a length of at most two.
\<close>

theorem joliet_length_wraps:
  assumes "\<forall>u \<in> set us. codepoint u \<and> u \<noteq> 0" and "s = bytes (concat (map utf8_bytes us))"
    and "ws = map (\<lambda>c. put_utf16 c UTF16_BIG_ENDIAN) (concat (map utf16_units us))"
    and "length ws = unat name_len div 2" and "int (length s) \<le> page_size"
  shows "\<exists>n. get_joliet_filename True t maxcs page_size ws name_len = Inr (s, n) \<and> n \<le> length s mod 256"
  using utf16s_to_utf8s_ok [OF assms(1) refl] assms(2-) trim_dots_le
  by (auto simp: get_joliet_filename_def Let_def intro: order_trans [OF trim_dots_le])

theorem joliet_length_wraps_witness:
  "\<exists>n. get_joliet_filename True utf8_nls_table 6 4096 (replicate 86 0xac20) 172 =
      Inr (concat (replicate 86 [0xe2, 0x82, 0xac]), n) \<and> n \<le> 2"
proof -
  have m: "map f (concat (replicate k xs)) = concat (replicate k (map f xs))" for f :: "nat \<Rightarrow> 'c" and k xs
    by (induction k) auto
  have r: "concat (replicate k [y]) = replicate k y" for k and y :: "16 word" by (induction k) auto
  have l: "length (concat (replicate k [a, b, c])) = 3 * k" for k and a b c :: "8 word" by (induction k) auto
  show ?thesis
    using joliet_length_wraps [of "replicate 86 0x20ac" "concat (replicate 86 [0xe2, 0x82, 0xac])" "replicate 86 0xac20" 172 4096 utf8_nls_table 6]
    by (simp add: m r l codepoint_def utf8_bytes_def utf16_units_def put_utf16_def swab16_def)
qed

end
