(* ===== verification/Nls_Registry.thy ===== *)
theory Nls_Registry
  imports Nls_Charset
begin

text \<open>
  The list of registered character sets (\<open>fs/nls/nls_base.c\<close>): nodes at addresses, linked through
  their \<open>next\<close> pointers from the variable \<open>tables\<close>. The pointer to a pointer of the loops is a
  \<open>slot\<close>; a loop over a circular list has no result. \<open>nls_lock\<close> makes every operation atomic, so
  the operations are functions of the state. The counting of module users lies outside the tree;
  \<open>try_module_get\<close> is an argument.
\<close>

section \<open>Definitions\<close>

record nls_node = nls_table +
  nls_next :: "nat option"
  owner :: nat

record nls_state =
  tables :: "nat option"
  nodes :: "nat \<Rightarrow> nls_node option"

datatype slot = Tables | Next nat

definition read_slot :: "nls_state \<Rightarrow> slot \<Rightarrow> nls_err + nat option" where
  "read_slot st tmp =
     (case tmp of
        Tables \<Rightarrow> Inr (tables st)
      | Next p \<Rightarrow> (case nodes st p of None \<Rightarrow> Inl OutOfBounds | Some nd \<Rightarrow> Inr (nls_next nd)))"

definition write_slot :: "nls_state \<Rightarrow> slot \<Rightarrow> nat option \<Rightarrow> nls_state" where
  "write_slot st tmp v =
     (case tmp of
        Tables \<Rightarrow> st\<lparr>tables := v\<rparr>
      | Next p \<Rightarrow> st\<lparr>nodes := (nodes st)(p := map_option (\<lambda>nd. nd\<lparr>nls_next := v\<rparr>) (nodes st p))\<rparr>)"

text \<open>The loop of both operations: the slot that holds \<open>nls\<close>, or none at the end of the list.\<close>

partial_function (option) find_slot :: "nls_state \<Rightarrow> nat \<Rightarrow> slot \<Rightarrow> (nls_err + slot option) option" where
  "find_slot st nls tmp =
     (case read_slot st tmp of
        Inl e \<Rightarrow> Some (Inl e)
      | Inr None \<Rightarrow> Some (Inr None)
      | Inr (Some p) \<Rightarrow> if nls = p then Some (Inr (Some tmp)) else find_slot st nls (Next p))"

text \<open>An operation ends in a state and an error, or none for the return value 0.\<close>

definition register_nls :: "nls_state \<Rightarrow> nat \<Rightarrow> nat \<Rightarrow> (nls_state \<times> nls_err option) option" where
  "register_nls st nls own =
     (case nodes st nls of
        None \<Rightarrow> Some (st, Some OutOfBounds)
      | Some nd \<Rightarrow>
          if nls_next nd \<noteq> None then Some (st, Some EBUSY)
          else
            let st1 = st\<lparr>nodes := (nodes st)(nls \<mapsto> nd\<lparr>owner := own\<rparr>)\<rparr> in
            case find_slot st1 nls Tables of
              None \<Rightarrow> None
            | Some (Inl e) \<Rightarrow> Some (st1, Some e)
            | Some (Inr (Some _)) \<Rightarrow> Some (st1, Some EBUSY)
            | Some (Inr None) \<Rightarrow> Some ((write_slot st1 (Next nls) (tables st1))\<lparr>tables := Some nls\<rparr>, None))"

definition unregister_nls :: "nls_state \<Rightarrow> nat \<Rightarrow> (nls_state \<times> nls_err option) option" where
  "unregister_nls st nls =
     (case find_slot st nls Tables of
        None \<Rightarrow> None
      | Some (Inl e) \<Rightarrow> Some (st, Some e)
      | Some (Inr None) \<Rightarrow> Some (st, Some EINVAL)
      | Some (Inr (Some tmp)) \<Rightarrow>
          (case read_slot st (Next nls) of
             Inl e \<Rightarrow> Some (st, Some e)
           | Inr p \<Rightarrow> Some (write_slot st tmp p, None)))"

definition named :: "nls_node \<Rightarrow> string \<Rightarrow> bool" where
  "named nd name \<longleftrightarrow> charset nd = name \<or> alias_name nd = Some name"

partial_function (option) find_loop :: "nls_state \<Rightarrow> string \<Rightarrow> nat option \<Rightarrow> (nls_err + nat option) option" where
  "find_loop st name p =
     (case p of
        None \<Rightarrow> Some (Inr None)
      | Some nls \<Rightarrow>
          (case nodes st nls of
             None \<Rightarrow> Some (Inl OutOfBounds)
           | Some nd \<Rightarrow> if named nd name then Some (Inr (Some nls)) else find_loop st name (nls_next nd)))"

definition find_nls :: "(nat \<Rightarrow> bool) \<Rightarrow> nls_state \<Rightarrow> string \<Rightarrow> (nls_err + nat option) option" where
  "find_nls try_module_get st name =
     (case find_loop st name (tables st) of
        Some (Inr (Some nls)) \<Rightarrow>
          (case nodes st nls of
             None \<Rightarrow> Some (Inl OutOfBounds)
           | Some nd \<Rightarrow> Some (Inr (if \<not> try_module_get (owner nd) then None else Some nls)))
      | r \<Rightarrow> r)"

text \<open>
  \<open>try_then_request_module\<close> looks again after the module loader has run; what the loader does to
  the list is an argument. The name of the default character set is a configuration option.
\<close>

definition load_nls ::
  "(nat \<Rightarrow> bool) \<Rightarrow> (string \<Rightarrow> nls_state \<Rightarrow> nls_state) \<Rightarrow> nls_state \<Rightarrow> string \<Rightarrow> nls_state \<times> (nls_err + nat option) option" where
  "load_nls try_module_get request_module st name =
     (case find_nls try_module_get st name of
        Some (Inr None) \<Rightarrow>
          let st1 = request_module (''nls_'' @ name) st in (st1, find_nls try_module_get st1 name)
      | r \<Rightarrow> (st, r))"

definition load_nls_default ::
  "(nat \<Rightarrow> bool) \<Rightarrow> (string \<Rightarrow> nls_state \<Rightarrow> nls_state) \<Rightarrow> string \<Rightarrow> nat \<Rightarrow> nls_state \<Rightarrow> nls_state \<times> (nls_err + nat) option" where
  "load_nls_default try_module_get request_module config_default default_addr st =
     (case load_nls try_module_get request_module st config_default of
        (st1, r) \<Rightarrow> (st1, map_option (map_sum id (\<lambda>p. case p of Some nls \<Rightarrow> nls | None \<Rightarrow> default_addr)) r))"

section \<open>The list\<close>

fun nls_chain :: "(nat \<Rightarrow> nls_node option) \<Rightarrow> nat option \<Rightarrow> nat list \<Rightarrow> bool" where
  "nls_chain h p [] \<longleftrightarrow> p = None"
| "nls_chain h p (x # xs) \<longleftrightarrow> p = Some x \<and> (case h x of None \<Rightarrow> False | Some nd \<Rightarrow> nls_chain h (nls_next nd) xs)"

definition registered :: "nls_state \<Rightarrow> nat list \<Rightarrow> bool" where
  "registered st ps \<longleftrightarrow> nls_chain (nodes st) (tables st) ps \<and> distinct ps"

lemma nls_chain_cong: "(\<And>x. x \<in> set xs \<Longrightarrow> h' x = h x) \<Longrightarrow> nls_chain h' p xs = nls_chain h p xs"
  by (induction xs arbitrary: p) (auto split: option.splits)

lemma nls_chain_owner:
  "h x = Some nd \<Longrightarrow> nls_chain (h(x \<mapsto> nd\<lparr>owner := v\<rparr>)) p xs = nls_chain h p xs"
  by (induction xs arbitrary: p) (auto split: option.splits)

text \<open>The slot before the rest of a list.\<close>

definition slot_after :: "nat list \<Rightarrow> slot" where
  "slot_after xs = (if xs = [] then Tables else Next (last xs))"

lemma read_slot_after:
  "nls_chain (nodes st) (tables st) (xs @ ys) \<Longrightarrow> \<exists>p. read_slot st (slot_after xs) = Inr p \<and> nls_chain (nodes st) p ys"
proof -
  have "nls_chain h p (xs @ ys) \<Longrightarrow> xs \<noteq> [] \<Longrightarrow> \<exists>nd. h (last xs) = Some nd \<and> nls_chain h (nls_next nd) ys" for h p
    by (induction xs arbitrary: p) (auto split: option.splits if_splits)
  then show "nls_chain (nodes st) (tables st) (xs @ ys) \<Longrightarrow> ?thesis"
    by (cases "xs = []") (fastforce simp: slot_after_def read_slot_def)+
qed

lemma find_slot_from:
  "nls_chain (nodes st) (tables st) (xs @ ys) \<Longrightarrow>
    find_slot st nls (slot_after xs) =
      Some (Inr (if nls \<in> set ys then Some (slot_after (xs @ takeWhile (\<lambda>p. p \<noteq> nls) ys)) else None))"
proof (induction ys arbitrary: xs)
  case Nil
  then show ?case using read_slot_after [OF Nil] by (subst find_slot.simps) auto
next
  case (Cons y ys)
  then obtain p where p: "read_slot st (slot_after xs) = Inr p" "nls_chain (nodes st) p (y # ys)" using read_slot_after by blast
  have "slot_after (xs @ [y]) = Next y" by (simp add: slot_after_def)
  then show ?case using p Cons.IH [of "xs @ [y]"] Cons.prems by (subst find_slot.simps) auto
qed

lemma find_slot_registered:
  "registered st ps \<Longrightarrow>
    find_slot st nls Tables = Some (Inr (if nls \<in> set ps then Some (slot_after (takeWhile (\<lambda>p. p \<noteq> nls) ps)) else None))"
  using find_slot_from [of st "[]" ps nls] by (simp add: registered_def slot_after_def)

lemma register_new:
  assumes ps: "registered st ps" and nd: "nodes st nls = Some nd" "nls_next nd = None" and new: "nls \<notin> set ps"
  shows "\<exists>st'. register_nls st nls own = Some (st', None) \<and> registered st' (nls # ps)"
proof -
  let ?st1 = "st\<lparr>nodes := (nodes st)(nls \<mapsto> nd\<lparr>owner := own\<rparr>)\<rparr>"
  let ?st2 = "(write_slot ?st1 (Next nls) (tables ?st1))\<lparr>tables := Some nls\<rparr>"
  have "registered ?st1 ps" using ps nd by (simp add: registered_def nls_chain_owner)
  then have "register_nls st nls own = Some (?st2, None)"
    using find_slot_registered [of ?st1 ps nls] nd new by (simp add: register_nls_def)
  moreover have "nls_chain (nodes ?st2) (tables st) ps = nls_chain (nodes st) (tables st) ps"
    using new by (intro nls_chain_cong) (auto simp: write_slot_def)
  then have "registered ?st2 (nls # ps)" using ps new by (simp add: registered_def write_slot_def)
  ultimately show ?thesis by blast
qed

lemma register_busy:
  assumes ps: "registered st ps" and nd: "nodes st nls = Some nd" and old: "nls_next nd \<noteq> None \<or> nls \<in> set ps"
  shows "\<exists>st'. register_nls st nls own = Some (st', Some EBUSY) \<and> registered st' ps"
proof (cases "nls_next nd = None")
  case True
  let ?st1 = "st\<lparr>nodes := (nodes st)(nls \<mapsto> nd\<lparr>owner := own\<rparr>)\<rparr>"
  have "registered ?st1 ps" using ps nd by (simp add: registered_def nls_chain_owner)
  then show ?thesis using find_slot_registered [of ?st1 ps nls] nd old True by (simp add: register_nls_def)
qed (use ps nd in \<open>simp add: register_nls_def\<close>)

lemma nls_chain_remove:
  assumes "nls_chain h p (xs @ nls # ys)" and "distinct (xs @ nls # ys)" and "h nls = Some nd" and "xs \<noteq> []"
  shows "nls_chain (h(last xs := map_option (\<lambda>n. n\<lparr>nls_next := nls_next nd\<rparr>) (h (last xs)))) p (xs @ ys)"
  using assms
proof (induction xs arbitrary: p)
  case (Cons x xs)
  then obtain xn where x: "p = Some x" "h x = Some xn" "nls_chain h (nls_next xn) (xs @ nls # ys)"
    by (auto split: option.splits)
  show ?case
  proof (cases "xs = []")
    case True
    then have "nls_chain h (nls_next nd) ys" using x Cons.prems(3) by auto
    moreover have "x \<notin> set ys" using Cons.prems(2) by auto
    ultimately have "nls_chain (h(x \<mapsto> xn\<lparr>nls_next := nls_next nd\<rparr>)) (nls_next nd) ys"
      by (subst nls_chain_cong [of ys _ h]) auto
    then show ?thesis using True x by (simp add: fun_upd_def)
  next
    case False
    then have "x \<noteq> last xs" using Cons.prems(2) by auto
    then show ?thesis using Cons.IH [OF x(3)] Cons.prems False x by simp
  qed
qed simp

lemma unregister_old:
  assumes ps: "registered st ps" and mem: "nls \<in> set ps"
  shows "\<exists>st'. unregister_nls st nls = Some (st', None) \<and> registered st' (remove1 nls ps) \<and>
    (\<exists>nd nd'. nodes st nls = Some nd \<and> nodes st' nls = Some nd' \<and> nls_next nd' = nls_next nd)"
proof -
  obtain xs ys where split: "ps = xs @ nls # ys" and nx: "nls \<notin> set xs" using split_list_first [OF mem] by blast
  have xs: "takeWhile (\<lambda>p. p \<noteq> nls) ps = xs" 
    unfolding split using nx by (subst takeWhile_append2) auto
  have ch: "nls_chain (nodes st) (tables st) (xs @ nls # ys)" and d: "distinct (xs @ nls # ys)"
    using ps split by (auto simp: registered_def)
  from read_slot_after [OF ch] obtain nd where nd: "nodes st nls = Some nd" by (auto split: option.splits)
  have slot: "find_slot st nls Tables = Some (Inr (Some (slot_after xs)))"
    using find_slot_registered [OF ps, of nls] mem by (simp add: xs)
  let ?st = "write_slot st (slot_after xs) (nls_next nd)"
  have "unregister_nls st nls = Some (?st, None)" using slot nd by (simp add: unregister_nls_def read_slot_def)
  moreover have "nls_chain (nodes ?st) (tables ?st) (xs @ ys)"
  proof (cases "xs = []")
    case False
    then show ?thesis using nls_chain_remove [OF ch d nd False] by (simp add: slot_after_def write_slot_def)
  qed (use ch nd in \<open>simp add: slot_after_def write_slot_def\<close>)
  moreover have "remove1 nls ps = xs @ ys" using split nx by (simp add: remove1_append)
  moreover have "nls \<noteq> last xs" if "xs \<noteq> []" using nx that by auto
  then have "nodes ?st nls = Some nd" using nd by (auto simp: slot_after_def write_slot_def)
  ultimately show ?thesis using d nd by (auto simp: registered_def)
qed

lemma unregister_unknown: "registered st ps \<Longrightarrow> nls \<notin> set ps \<Longrightarrow> unregister_nls st nls = Some (st, Some EINVAL)"
  using find_slot_registered [of st ps nls] by (simp add: unregister_nls_def)

lemma find_loop_chain:
  "nls_chain (nodes st) p ps \<Longrightarrow> find_loop st name p = Some (Inr (List.find (\<lambda>x. named (the (nodes st x)) name) ps))"
  by (induction ps arbitrary: p) (subst find_loop.simps, force split: option.splits)+

section \<open>Reachable lists\<close>

text \<open>From the empty list, by any sequence of operations, successful or not, of any callers.\<close>

inductive nls_reachable :: "nls_state \<Rightarrow> bool" where
  boot: "tables st = None \<Longrightarrow> nls_reachable st"
| register: "nls_reachable st \<Longrightarrow> register_nls st nls own = Some (st', r) \<Longrightarrow> nls_reachable st'"
| unregister: "nls_reachable st \<Longrightarrow> unregister_nls st nls = Some (st', r) \<Longrightarrow> nls_reachable st'"

lemma register_registered:
  assumes "registered st ps" and "register_nls st nls own = Some (st', r)"
  shows "\<exists>ps'. registered st' ps'"
proof (cases "nodes st nls")
  case None
  then show ?thesis using assms by (auto simp: register_nls_def)
next
  case (Some nd)
  then show ?thesis using assms register_new [OF assms(1) Some, of own] register_busy [OF assms(1) Some, of own]
    by (cases "nls_next nd \<noteq> None \<or> nls \<in> set ps") auto
qed

lemma reachable_registered: "nls_reachable st \<Longrightarrow> \<exists>ps. registered st ps"
proof (induction rule: nls_reachable.induct)
  case (boot st)
  then show ?case by (intro exI [of _ "[]"]) (simp add: registered_def)
next
  case (register st nls own st' r)
  then show ?case using register_registered by blast
next
  case (unregister st nls st' r)
  then obtain ps where ps: "registered st ps" by blast
  then show ?case using unregister unregister_old [OF ps, of nls] unregister_unknown [OF ps, of nls]
    by (cases "nls \<in> set ps") auto
qed

section \<open>Properties\<close>

definition sample_node :: "string \<Rightarrow> nat option \<Rightarrow> nls_node" where
  "sample_node name nx = \<lparr>charset = name, alias_name = None, uni2char = (\<lambda>_ _. Inl EINVAL), char2uni = (\<lambda>_ _. Inl EINVAL),
     charset2lower = [], charset2upper = [], nls_next = nx, owner = 0\<rparr>"

text \<open>
  C34. The registry. Whatever was registered and unregistered before, the tables form a list without
  repetition and every operation ends. Registering puts a table that is not in the list and has no
  successor at its front and is refused as busy otherwise; unregistering takes a listed table out
  and is refused for any other; a lookup gives the first table with that name or alias, if its
  module can be used.
\<close>

theorem nls_registry:
  assumes "nls_reachable st"
  shows "\<exists>ps. registered st ps \<and>
    (\<forall>nls nd own. nodes st nls = Some nd \<longrightarrow>
      (\<exists>st'. if nls_next nd \<noteq> None \<or> nls \<in> set ps
        then register_nls st nls own = Some (st', Some EBUSY) \<and> registered st' ps
        else register_nls st nls own = Some (st', None) \<and> registered st' (nls # ps))) \<and>
    (\<forall>nls. \<exists>st'. if nls \<in> set ps
      then unregister_nls st nls = Some (st', None) \<and> registered st' (remove1 nls ps)
      else unregister_nls st nls = Some (st, Some EINVAL)) \<and>
    (\<forall>get name. find_nls get st name =
      Some (Inr (case List.find (\<lambda>x. named (the (nodes st x)) name) ps of
        None \<Rightarrow> None | Some x \<Rightarrow> if get (owner (the (nodes st x))) then Some x else None)))"
proof -
  obtain ps where ps: "registered st ps" using reachable_registered [OF assms] by blast
  have node: "\<exists>nd. nodes st x = Some nd" if "x \<in> set ps" for x
    using unregister_old [OF ps that] by blast
  have "find_nls get st name = Some (Inr (case List.find (\<lambda>x. named (the (nodes st x)) name) ps of
        None \<Rightarrow> None | Some x \<Rightarrow> if get (owner (the (nodes st x))) then Some x else None))" for get name
  proof (cases "List.find (\<lambda>x. named (the (nodes st x)) name) ps")
    case (Some x)
    then have "x \<in> set ps" by (auto simp: find_Some_iff)
    then show ?thesis using Some node [of x] ps find_loop_chain [of st "tables st" ps name]
      by (auto simp: find_nls_def registered_def)
  qed (use ps find_loop_chain [of st "tables st" ps name] in \<open>simp add: find_nls_def registered_def\<close>)
  moreover have "\<exists>st'. if nls_next nd \<noteq> None \<or> nls \<in> set ps
        then register_nls st nls own = Some (st', Some EBUSY) \<and> registered st' ps
        else register_nls st nls own = Some (st', None) \<and> registered st' (nls # ps)"
    if "nodes st nls = Some nd" for nls nd own
    using register_new [OF ps that, of own] register_busy [OF ps that, of own]
    by (cases "nls_next nd \<noteq> None \<or> nls \<in> set ps") auto
  moreover have "\<exists>st'. if nls \<in> set ps
      then unregister_nls st nls = Some (st', None) \<and> registered st' (remove1 nls ps)
      else unregister_nls st nls = Some (st, Some EINVAL)" for nls
    using unregister_old [OF ps, of nls] unregister_unknown [OF ps, of nls] by auto
  ultimately show ?thesis using ps by blast
qed

theorem nls_registry_witness:
  "\<exists>st'. register_nls \<lparr>tables = None, nodes = [1 \<mapsto> sample_node ''ascii'' None]\<rparr> 1 7 = Some (st', None) \<and> registered st' [1]"
proof -
  let ?st = "\<lparr>tables = None, nodes = [1 \<mapsto> sample_node ''ascii'' None]\<rparr>"
  obtain ps where ps: "registered ?st ps" and
    new: "\<forall>nls nd own. nodes ?st nls = Some nd \<longrightarrow>
      (\<exists>st'. if nls_next nd \<noteq> None \<or> nls \<in> set ps
        then register_nls ?st nls own = Some (st', Some EBUSY) \<and> registered st' ps
        else register_nls ?st nls own = Some (st', None) \<and> registered st' (nls # ps))"
    using nls_registry [OF nls_reachable.boot [of ?st]] by auto
  have "ps = []" using ps by (cases ps) (auto simp: registered_def)
  then show ?thesis using new [rule_format, of 1 "sample_node ''ascii'' None" 7] by (simp add: sample_node_def)
qed

text \<open>
  No second registration. Unregistering leaves the table's successor in place, so a table that
  was not the last of the list is refused as busy from then on, although it is not registered.
\<close>

theorem nls_registered_once:
  assumes "registered st ps" and "nls \<in> set ps" and "nls \<noteq> last ps"
  shows "\<exists>st'. unregister_nls st nls = Some (st', None) \<and> nls \<notin> set (remove1 nls ps) \<and> registered st' (remove1 nls ps) \<and>
    register_nls st' nls own = Some (st', Some EBUSY)"
proof -
  obtain st' nd nd' where st': "unregister_nls st nls = Some (st', None)" "registered st' (remove1 nls ps)"
    and nd: "nodes st nls = Some nd" "nodes st' nls = Some nd'" "nls_next nd' = nls_next nd"
    using unregister_old [OF assms(1,2)] by blast
  obtain xs ys where split: "ps = xs @ nls # ys" using split_list [OF assms(2)] by blast
  then have "ys \<noteq> []" using assms(3) by auto
  moreover have "nls_chain (nodes st) (tables st) (xs @ nls # ys)" using assms(1) split by (simp add: registered_def)
  from read_slot_after [OF this] have "nls_chain (nodes st) (nls_next nd) ys" using nd by auto
  ultimately have "nls_next nd' \<noteq> None" using nd by (cases ys) auto
  then have "register_nls st' nls own = Some (st', Some EBUSY)" using nd by (simp add: register_nls_def)
  moreover have "nls \<notin> set (remove1 nls ps)" using assms(1) by (simp add: registered_def)
  ultimately show ?thesis using st' by blast
qed

theorem nls_registered_once_witness:
  "\<exists>st'. unregister_nls \<lparr>tables = Some 1, nodes = [1 \<mapsto> sample_node ''koi8-u'' (Some 2), 2 \<mapsto> sample_node ''ascii'' None]\<rparr> 1 =
      Some (st', None) \<and> registered st' [2] \<and> register_nls st' 1 7 = Some (st', Some EBUSY)"
proof -
  let ?st = "\<lparr>tables = Some 1, nodes = [1 \<mapsto> sample_node ''koi8-u'' (Some 2), 2 \<mapsto> sample_node ''ascii'' None]\<rparr>"
  have "registered ?st [1, 2]" by (simp add: registered_def sample_node_def)
  from nls_registered_once [OF this, of 1 7] show ?thesis by auto
qed

end
