(* ===== verification/Ext2_Dir.thy ===== *)
theory Ext2_Dir
  imports Ext2_Layout
begin

unbundle bit_operations_syntax

text \<open>
  Directories of the ext2 file system (\<open>fs/ext2/dir.c\<close>). A directory is its inode with the pages
  of the page cache; entries are addressed by their offset in a page. What lies outside the file
  is in the environment: the sizes of a page and of a block, the super block, the clock, and the
  results of reading a page, of preparing a write (with the count of blocks after it) and of
  writing a page out. \<open>dir_pages\<close>, of a header of the kernel, is the number of pages that hold
  \<open>i_size\<close> bytes. Locks and reference
  counts have no effect on the result of a single operation and are left out, and so are the
  messages for the system log. \<open>BUG\<close> stands for a failed assertion of the kernel.
\<close>

section \<open>State\<close>

datatype ext2_err = EIO | EEXIST | ENOENT | ENOTEMPTY | ENOSPC | ENOMEM | EINVAL | ENAMETOOLONG | BUG

record ext2_env =
  page_size :: nat
  s_blocksize :: nat
  s_inodes_count :: nat
  has_filetype :: bool
  current_time :: nat
  read_mapping_page :: "nat \<Rightarrow> ext2_err option"
  write_begin :: "nat \<Rightarrow> nat \<Rightarrow> ext2_err option"
  blocks_after :: "nat \<Rightarrow> nat \<Rightarrow> nat \<Rightarrow> nat"
  write_sync :: "ext2_err option"
  grab_cache_page :: bool

record dpage =
  pdata :: string
  PageChecked :: bool
  PageError :: bool

record dinode =
  i_ino :: "32 word"
  i_mode :: "16 word"
  i_nlink :: "32 word"
  i_size :: nat
  i_blocks :: nat
  i_version :: nat
  i_mtime :: nat
  i_ctime :: nat
  i_btree :: bool
  i_dir_start_lookup :: nat
  pages :: "nat \<Rightarrow> dpage"

definition set_data :: "nat \<Rightarrow> string \<Rightarrow> dinode \<Rightarrow> dinode" where
  "set_data n p dir = dir\<lparr>pages := (pages dir)(n := (pages dir n)\<lparr>pdata := p\<rparr>)\<rparr>"

definition set_flags :: "nat \<Rightarrow> bool \<Rightarrow> dinode \<Rightarrow> dinode" where
  "set_flags n ok dir =
     dir\<lparr>pages := (pages dir)(n := if ok then (pages dir n)\<lparr>PageChecked := True\<rparr> else (pages dir n)\<lparr>PageError := True\<rparr>)\<rparr>"

section \<open>Entries\<close>

text \<open>Rounding up to a multiple of four.\<close>

definition EXT2_DIR_REC_LEN :: "nat \<Rightarrow> nat" where
  "EXT2_DIR_REC_LEN n = nat (int (n + 8 + 3) AND NOT 3)"

definition ext2_rec_len_from_disk :: "ext2_env \<Rightarrow> 16 word \<Rightarrow> nat" where
  "ext2_rec_len_from_disk env dlen =
     (let len = unat dlen in if page_size env \<ge> 65536 \<and> len = 65535 then 65536 else len)"

definition ext2_rec_len_to_disk :: "ext2_env \<Rightarrow> nat \<Rightarrow> ext2_err + 16 word" where
  "ext2_rec_len_to_disk env len =
     (if page_size env \<ge> 65536 \<and> len = 65536 then Inr 65535
      else if page_size env \<ge> 65536 \<and> len > 65536 then Inl BUG
      else Inr (of_nat len))"

definition ext2_chunk_size :: "ext2_env \<Rightarrow> nat" where
  "ext2_chunk_size env = s_blocksize env"

text \<open>The record length field of an entry, raw and in bytes.\<close>

abbreviation raw_rec :: "string \<Rightarrow> nat \<Rightarrow> 16 word" where
  "raw_rec p de \<equiv> le16_dec (take 2 (drop (de + 4) p))"

abbreviation rec_at :: "ext2_env \<Rightarrow> string \<Rightarrow> nat \<Rightarrow> nat" where
  "rec_at env p de \<equiv> ext2_rec_len_from_disk env (raw_rec p de)"

definition ext2_last_byte :: "ext2_env \<Rightarrow> dinode \<Rightarrow> nat \<Rightarrow> nat" where
  "ext2_last_byte env dir page_nr =
     (let last_byte = (of_nat (i_size dir) :: 32 word) - of_nat (page_nr * page_size env) in
      if unat last_byte > page_size env then page_size env else unat last_byte)"

definition dir_pages :: "ext2_env \<Rightarrow> dinode \<Rightarrow> nat" where
  "dir_pages env dir = (i_size dir + page_size env - 1) div page_size env"

text \<open>An address rounded down to the start of its chunk.\<close>

definition chunk_start :: "ext2_env \<Rightarrow> nat \<Rightarrow> nat" where
  "chunk_start env off = nat (int off AND NOT (int (ext2_chunk_size env) - 1))"

definition ext2_match :: "string \<Rightarrow> string \<Rightarrow> nat \<Rightarrow> bool" where
  "ext2_match name p de \<longleftrightarrow>
     (if length name \<noteq> de_nlen p de then False
      else if de_ino p de = 0 then False
      else take (length name) (drop (de + 8) p) = name)"

definition ext2_next_entry :: "ext2_env \<Rightarrow> string \<Rightarrow> nat \<Rightarrow> nat" where
  "ext2_next_entry env p de = de + rec_at env p de"

section \<open>Checking and reading pages\<close>

definition rec_fits :: "ext2_env \<Rightarrow> string \<Rightarrow> nat \<Rightarrow> bool" where
  "rec_fits env p offs =
     (let rec_len = rec_at env p offs in
      if rec_len < EXT2_DIR_REC_LEN 1 then False
      else if rec_len AND 3 \<noteq> 0 then False
      else if rec_len < EXT2_DIR_REC_LEN (de_nlen p offs) then False
      else if (int (offs + rec_len - 1) XOR int offs) AND NOT (int (ext2_chunk_size env) - 1) \<noteq> 0 then False
      else if unat (de_ino p offs) > s_inodes_count env then False
      else True)"

lemma round_down: "x AND NOT (2 ^ k - 1) = 2 ^ k * (x div 2 ^ k)" for x :: int
proof -
  have "x AND NOT (mask k) = push_bit k (drop_bit k x)" by (rule bit_eqI) (auto simp: bit_simps)
  then show ?thesis by (simp add: mask_eq_exp_minus_1 push_bit_eq_mult drop_bit_eq_div)
qed

lemma EXT2_DIR_REC_LEN_eq: "EXT2_DIR_REC_LEN n = 4 * ((n + 11) div 4)"
proof -
  have "int (n + 8 + 3) AND NOT 3 = 4 * (int (n + 11) div 4)"
    using round_down [of "int (n + 11)" 2] by (simp add: add.commute)
  also have "\<dots> = int (4 * ((n + 11) div 4))" by (simp add: zdiv_int)
  finally show ?thesis unfolding EXT2_DIR_REC_LEN_def by (simp only: nat_int)
qed

function ext2_check_loop :: "ext2_env \<Rightarrow> string \<Rightarrow> nat \<Rightarrow> nat \<Rightarrow> bool" where
  "ext2_check_loop env p limit offs =
     (if offs + EXT2_DIR_REC_LEN 1 \<le> limit then
        if rec_fits env p offs then ext2_check_loop env p limit (offs + rec_at env p offs) else False
      else offs = limit)"
  by pat_completeness auto

termination
  by (relation "measure (\<lambda>(env, p, limit, offs). limit - offs)")
    (auto simp: rec_fits_def EXT2_DIR_REC_LEN_eq Let_def split: if_splits)

declare ext2_check_loop.simps [simp del]

definition ext2_check_page :: "ext2_env \<Rightarrow> dinode \<Rightarrow> nat \<Rightarrow> dinode \<times> bool" where
  "ext2_check_page env dir n =
     (let in_last = i_size dir div page_size env = n;
          limit = if in_last then i_size dir mod page_size env else page_size env;
          ok = if in_last \<and> limit AND (ext2_chunk_size env - 1) \<noteq> 0 then False
               else if in_last \<and> limit = 0 then True
               else ext2_check_loop env (pdata (pages dir n)) limit 0
      in (set_flags n ok dir, ok))"

definition ext2_get_page :: "ext2_env \<Rightarrow> dinode \<Rightarrow> nat \<Rightarrow> dinode \<times> (ext2_err + string)" where
  "ext2_get_page env dir n =
     (case read_mapping_page env n of
        Some e \<Rightarrow> (dir, Inl e)
      | None \<Rightarrow>
          if \<not> PageChecked (pages dir n) then
            if PageError (pages dir n) then (dir, Inl EIO)
            else case ext2_check_page env dir n of
                (dir', ok) \<Rightarrow> if \<not> ok then (dir', Inl EIO) else (dir', Inr (pdata (pages dir' n)))
          else (dir, Inr (pdata (pages dir n))))"

section \<open>Looking up\<close>

lemma rec_at_pos: "raw_rec p de \<noteq> 0 \<Longrightarrow> 0 < rec_at env p de"
  by (auto simp: ext2_rec_len_from_disk_def Let_def unat_gt_0 split: if_splits)

lemma next_entry_less: "raw_rec p de \<noteq> 0 \<Longrightarrow> de < m \<Longrightarrow> m - ext2_next_entry env p de < m - de"
  using rec_at_pos [where p = p and de = de and env = env] by (simp add: ext2_next_entry_def)

lemma rec_len_min: "12 \<le> EXT2_DIR_REC_LEN (Suc n)" "8 \<le> EXT2_DIR_REC_LEN n"
  by (simp_all add: EXT2_DIR_REC_LEN_eq)

text \<open>The search in one page, up to \<open>last_byte\<close>: the entry, none, or an entry of length zero.\<close>

function find_in_page :: "ext2_env \<Rightarrow> string \<Rightarrow> string \<Rightarrow> nat \<Rightarrow> nat \<Rightarrow> ext2_err + nat option" where
  "find_in_page env name p last_byte de =
     (if de + EXT2_DIR_REC_LEN (length name) \<le> last_byte then
        if raw_rec p de = 0 then Inl EIO
        else if ext2_match name p de then Inr (Some de)
        else find_in_page env name p last_byte (ext2_next_entry env p de)
      else Inr None)"
  by pat_completeness auto

termination
proof (relation "measure (\<lambda>(env, name, p, last_byte, de). last_byte - de)", goal_cases)
  case (2 env name p last_byte de)
  then have "de < last_byte" using rec_len_min(2) [of "length name"] by simp
  then show ?case using next_entry_less [OF 2(2)] by simp
qed simp

declare find_in_page.simps [simp del]

text \<open>The loop over the pages, from \<open>start\<close> round to \<open>start\<close>. The result is the page and the offset.\<close>

partial_function (option) find_pages ::
  "ext2_env \<Rightarrow> string \<Rightarrow> nat \<Rightarrow> nat \<Rightarrow> nat \<Rightarrow> dinode \<Rightarrow> (dinode \<times> (nat \<times> nat) option) option" where
  "find_pages env name npages start n dir =
     (case ext2_get_page env dir n of
        (dir, page) \<Rightarrow>
          (case (case page of Inl _ \<Rightarrow> Inr None | Inr p \<Rightarrow> find_in_page env name p (ext2_last_byte env dir n) 0) of
             Inl _ \<Rightarrow> Some (dir, None)
           | Inr (Some de) \<Rightarrow> Some (dir\<lparr>i_dir_start_lookup := n\<rparr>, Some (n, de))
           | Inr None \<Rightarrow>
               let n' = if n + 1 \<ge> npages then 0 else n + 1 in
               if n' > i_blocks dir * 512 div page_size env then Some (dir, None)
               else if n' \<noteq> start then find_pages env name npages start n' dir
               else Some (dir, None)))"

definition ext2_find_entry :: "ext2_env \<Rightarrow> dinode \<Rightarrow> string \<Rightarrow> (dinode \<times> (nat \<times> nat) option) option" where
  "ext2_find_entry env dir name =
     (let npages = dir_pages env dir in
      if npages = 0 then Some (dir, None)
      else
        let start = if i_dir_start_lookup dir \<ge> npages then 0 else i_dir_start_lookup dir in
        find_pages env name npages start start dir)"

definition ext2_dotdot :: "ext2_env \<Rightarrow> dinode \<Rightarrow> dinode \<times> (nat \<times> nat) option" where
  "ext2_dotdot env dir =
     (case ext2_get_page env dir 0 of
        (dir, Inl _) \<Rightarrow> (dir, None)
      | (dir, Inr p) \<Rightarrow> (dir, Some (0, ext2_next_entry env p 0)))"

definition ext2_inode_by_name :: "ext2_env \<Rightarrow> dinode \<Rightarrow> string \<Rightarrow> (dinode \<times> 32 word) option" where
  "ext2_inode_by_name env dir child =
     (case ext2_find_entry env dir child of
        None \<Rightarrow> None
      | Some (dir, None) \<Rightarrow> Some (dir, 0)
      | Some (dir, Some (n, de)) \<Rightarrow> Some (dir, de_ino (pdata (pages dir n)) de))"

section \<open>Writing\<close>

text \<open>Preparing a write allocates its blocks.\<close>

definition ext2_prepare_chunk :: "ext2_env \<Rightarrow> dinode \<Rightarrow> nat \<Rightarrow> nat \<Rightarrow> ext2_err + dinode" where
  "ext2_prepare_chunk env dir pos len =
     (case write_begin env pos len of
        Some e \<Rightarrow> Inl e
      | None \<Rightarrow> Inr (dir\<lparr>i_blocks := blocks_after env (i_blocks dir) pos len\<rparr>))"

text \<open>The result of a write: an error of a synchronous directory, or none.\<close>

definition ext2_commit_chunk :: "ext2_env \<Rightarrow> dinode \<Rightarrow> nat \<Rightarrow> nat \<Rightarrow> dinode \<times> ext2_err option" where
  "ext2_commit_chunk env dir pos len =
     (let dir = dir\<lparr>i_version := i_version dir + 1\<rparr>;
          dir = if pos + len > i_size dir then dir\<lparr>i_size := pos + len\<rparr> else dir
      in (dir, write_sync env))"

text \<open>
  The file type of an entry from the mode of an inode. The array of the code has fifteen elements,
  of which seven are set; the index 15, which is behind its end, belongs to no type of file.
\<close>

definition ext2_type_by_mode :: "(nat \<times> 8 word) list" where
  "ext2_type_by_mode =
     [(8, EXT2_FT_REG_FILE), (4, EXT2_FT_DIR), (2, EXT2_FT_CHRDEV), (6, EXT2_FT_BLKDEV),
      (1, EXT2_FT_FIFO), (12, EXT2_FT_SOCK), (10, EXT2_FT_SYMLINK)]"

definition ext2_set_de_type :: "ext2_env \<Rightarrow> nat \<Rightarrow> 16 word \<Rightarrow> string \<Rightarrow> string" where
  "ext2_set_de_type env de mode p =
     put_at (de + 7)
       (u8_enc (if has_filetype env
                then case map_of ext2_type_by_mode (unat (drop_bit 12 (mode AND 0xf000))) of None \<Rightarrow> 0 | Some t \<Rightarrow> t
                else 0)) p"

definition touch :: "ext2_env \<Rightarrow> dinode \<Rightarrow> dinode" where
  "touch env dir = dir\<lparr>i_mtime := current_time env, i_ctime := current_time env\<rparr>"

definition ext2_set_link ::
  "ext2_env \<Rightarrow> dinode \<Rightarrow> nat \<times> nat \<Rightarrow> 32 word \<Rightarrow> 16 word \<Rightarrow> bool \<Rightarrow> dinode \<times> ext2_err option" where
  "ext2_set_link env dir at ino mode update_times =
     (case at of (n, de) \<Rightarrow>
        let p = pdata (pages dir n); pos = n * page_size env + de; len = rec_at env p de in
        case ext2_prepare_chunk env dir pos len of
          Inl _ \<Rightarrow> (dir, Some BUG)
        | Inr dir \<Rightarrow>
            let p = ext2_set_de_type env de mode (put_at de (le32_enc ino) p);
                dir = fst (ext2_commit_chunk env (set_data n p dir) pos len);
                dir = if update_times then touch env dir else dir
            in (dir\<lparr>i_btree := False\<rparr>, None))"

section \<open>Adding an entry\<close>

text \<open>
  The search for room in one page: an error, nothing, or the entry to use with \<open>name_len\<close>,
  \<open>rec_len\<close> and the page, in which a new chunk may have been started. Both lengths are
  \<open>unsigned short\<close>.
\<close>

partial_function (option) add_scan ::
  "ext2_env \<Rightarrow> string \<Rightarrow> string \<Rightarrow> nat \<Rightarrow> nat \<Rightarrow> (ext2_err + (nat \<times> nat \<times> nat \<times> string) option) option" where
  "add_scan env name p dir_end de =
     (let reclen = EXT2_DIR_REC_LEN (length name) in
      if de + reclen \<le> page_size env then
        if de = dir_end then
          (case ext2_rec_len_to_disk env (ext2_chunk_size env) of
             Inl e \<Rightarrow> Some (Inl e)
           | Inr w \<Rightarrow>
               Some (Inr (Some (de, 0, ext2_chunk_size env mod 65536, put_at de (le32_enc 0) (put_at (de + 4) (le16_enc w) p)))))
        else if raw_rec p de = 0 then Some (Inl EIO)
        else if ext2_match name p de then Some (Inl EEXIST)
        else
          let name_len = EXT2_DIR_REC_LEN (de_nlen p de) mod 65536; rec_len = rec_at env p de mod 65536 in
          if de_ino p de = 0 \<and> rec_len \<ge> reclen then Some (Inr (Some (de, name_len, rec_len, p)))
          else if rec_len \<ge> name_len + reclen then Some (Inr (Some (de, name_len, rec_len, p)))
          else add_scan env name p dir_end (de + rec_len)
      else Some (Inr None))"

text \<open>The label \<open>got_it\<close>: the entry is split if it is in use, and filled in.\<close>

definition split_entry :: "ext2_env \<Rightarrow> string \<Rightarrow> nat \<Rightarrow> nat \<Rightarrow> nat \<Rightarrow> ext2_err + string \<times> nat" where
  "split_entry env p de name_len rec_len =
     (if de_ino p de \<noteq> 0 then
        let de1 = de + name_len in
        (case ext2_rec_len_to_disk env (rec_len - name_len) of
           Inl e \<Rightarrow> Inl e
         | Inr w1 \<Rightarrow>
             (case ext2_rec_len_to_disk env name_len of
                Inl e \<Rightarrow> Inl e
              | Inr w \<Rightarrow> Inr (put_at (de + 4) (le16_enc w) (put_at (de1 + 4) (le16_enc w1) p), de1)))
      else Inr (p, de))"

definition fill_entry :: "ext2_env \<Rightarrow> string \<Rightarrow> 32 word \<Rightarrow> 16 word \<Rightarrow> nat \<Rightarrow> string \<Rightarrow> string" where
  "fill_entry env name ino mode de p =
     ext2_set_de_type env de mode
       (put_at de (le32_enc ino) (put_at (de + 8) name (put_at (de + 6) (u8_enc (of_nat (length name))) p)))"

definition got_it ::
  "ext2_env \<Rightarrow> dinode \<Rightarrow> nat \<Rightarrow> string \<Rightarrow> 32 word \<Rightarrow> 16 word \<Rightarrow> nat \<times> nat \<times> nat \<times> string \<Rightarrow> dinode \<times> ext2_err option" where
  "got_it env dir n name ino mode spot =
     (case spot of (de, name_len, rec_len, p) \<Rightarrow>
        let pos = n * page_size env + de in
        case ext2_prepare_chunk env dir pos rec_len of
          Inl e \<Rightarrow> (set_data n p dir, Some e)
        | Inr dir \<Rightarrow>
            (case split_entry env p de name_len rec_len of
               Inl e \<Rightarrow> (set_data n p dir, Some e)
             | Inr (p, de) \<Rightarrow>
                 (case ext2_commit_chunk env (set_data n (fill_entry env name ino mode de p) dir) pos rec_len of
                    (dir, err) \<Rightarrow> ((touch env dir)\<lparr>i_btree := False\<rparr>, err))))"

partial_function (option) add_pages ::
  "ext2_env \<Rightarrow> string \<Rightarrow> 32 word \<Rightarrow> 16 word \<Rightarrow> nat \<Rightarrow> nat \<Rightarrow> dinode \<Rightarrow> (dinode \<times> ext2_err option) option" where
  "add_pages env name ino mode npages n dir =
     (if n \<le> npages then
        case ext2_get_page env dir n of
          (dir, Inl e) \<Rightarrow> Some (dir, Some e)
        | (dir, Inr p) \<Rightarrow>
            Option.bind (add_scan env name p (ext2_last_byte env dir n) 0) (\<lambda>r.
              case r of
                Inl e \<Rightarrow> Some (dir, Some e)
              | Inr (Some spot) \<Rightarrow> Some (got_it env dir n name ino mode spot)
              | Inr None \<Rightarrow> add_pages env name ino mode npages (n + 1) dir)
      else Some (dir, Some BUG))"

definition ext2_add_link :: "ext2_env \<Rightarrow> dinode \<Rightarrow> string \<Rightarrow> 32 word \<Rightarrow> 16 word \<Rightarrow> (dinode \<times> ext2_err option) option" where
  "ext2_add_link env dir name ino mode = add_pages env name ino mode (dir_pages env dir) 0 dir"

section \<open>Deleting an entry\<close>

text \<open>The walk from the start of the chunk to the entry; the result is the entry before it.\<close>

function prev_entry :: "ext2_env \<Rightarrow> string \<Rightarrow> nat \<Rightarrow> nat option \<Rightarrow> nat \<Rightarrow> ext2_err + nat option" where
  "prev_entry env p dir pde de =
     (if de < dir then
        if raw_rec p de = 0 then Inl EIO
        else prev_entry env p dir (Some de) (ext2_next_entry env p de)
      else Inr pde)"
  by pat_completeness auto

termination
  by (relation "measure (\<lambda>(env, p, dir, pde, de). dir - de)") (simp_all add: next_entry_less)

declare prev_entry.simps [simp del]

definition ext2_delete_entry :: "ext2_env \<Rightarrow> dinode \<Rightarrow> nat \<times> nat \<Rightarrow> dinode \<times> ext2_err option" where
  "ext2_delete_entry env inode at =
     (case at of (n, dir) \<Rightarrow>
        let p = pdata (pages inode n); from = chunk_start env dir; to = dir + rec_at env p dir in
        case prev_entry env p dir None from of
          Inl e \<Rightarrow> (inode, Some e)
        | Inr pde \<Rightarrow>
            let from = (case pde of None \<Rightarrow> from | Some de \<Rightarrow> de); pos = n * page_size env + from in
            case ext2_prepare_chunk env inode pos (to - from) of
              Inl _ \<Rightarrow> (inode, Some BUG)
            | Inr inode \<Rightarrow>
                (case (case pde of
                         None \<Rightarrow> Inr p
                       | Some de \<Rightarrow>
                           (case ext2_rec_len_to_disk env (to - from) of
                              Inl e \<Rightarrow> Inl e
                            | Inr w \<Rightarrow> Inr (put_at (de + 4) (le16_enc w) p))) of
                   Inl e \<Rightarrow> (inode, Some e)
                 | Inr p \<Rightarrow>
                     (case ext2_commit_chunk env (set_data n (put_at dir (le32_enc 0) p) inode) pos (to - from) of
                        (inode, err) \<Rightarrow> ((touch env inode)\<lparr>i_btree := False\<rparr>, err))))"

section \<open>New and empty directories\<close>

definition ext2_make_empty :: "ext2_env \<Rightarrow> dinode \<Rightarrow> 32 word \<Rightarrow> dinode \<times> ext2_err option" where
  "ext2_make_empty env inode parent_ino =
     (if \<not> grab_cache_page env then (inode, Some ENOMEM)
      else
        let chunk_size = ext2_chunk_size env in
        case ext2_prepare_chunk env inode 0 chunk_size of
          Inl e \<Rightarrow> (inode, Some e)
        | Inr inode \<Rightarrow>
            (case (ext2_rec_len_to_disk env (EXT2_DIR_REC_LEN 1), ext2_rec_len_to_disk env (chunk_size - EXT2_DIR_REC_LEN 1)) of
               (Inr w1, Inr w2) \<Rightarrow>
                 let p = put_at 0 (replicate chunk_size CHR 0x00) (pdata (pages inode 0));
                     p = put_at 6 (u8_enc 1) p;
                     p = put_at 4 (le16_enc w1) p;
                     p = put_at 8 [CHR ''.'', CHR 0x00, CHR 0x00, CHR 0x00] p;
                     p = put_at 0 (le32_enc (i_ino inode)) p;
                     p = ext2_set_de_type env 0 (i_mode inode) p;
                     de = EXT2_DIR_REC_LEN 1;
                     p = put_at (de + 6) (u8_enc 2) p;
                     p = put_at (de + 4) (le16_enc w2) p;
                     p = put_at de (le32_enc parent_ino) p;
                     p = put_at (de + 8) [CHR ''.'', CHR ''.'', CHR 0x00, CHR 0x00] p;
                     p = ext2_set_de_type env de (i_mode inode) p
                 in ext2_commit_chunk env (set_data 0 p inode) 0 chunk_size
             | _ \<Rightarrow> (inode, Some BUG)))"

text \<open>One page of an empty directory; \<open>last_byte\<close> bytes of the page are in use.\<close>

function empty_page :: "ext2_env \<Rightarrow> 32 word \<Rightarrow> string \<Rightarrow> nat \<Rightarrow> nat \<Rightarrow> bool" where
  "empty_page env ino p last_byte de =
     (if de + EXT2_DIR_REC_LEN 1 \<le> last_byte then
        if raw_rec p de = 0 then False
        else if de_ino p de \<noteq> 0 \<and>
            (p ! (de + 8) \<noteq> CHR ''.'' \<or> de_nlen p de > 2 \<or>
             (if de_nlen p de < 2 then de_ino p de \<noteq> ino else p ! (de + 9) \<noteq> CHR ''.'')) then False
        else empty_page env ino p last_byte (ext2_next_entry env p de)
      else True)"
  by pat_completeness auto

termination
proof (relation "measure (\<lambda>(env, ino, p, last_byte, de). last_byte - de)", goal_cases)
  case (2 env ino p last_byte de)
  then have "de < last_byte" using rec_len_min(1) [of 0] by simp
  then show ?case using next_entry_less [OF 2(2)] by simp
qed simp

declare empty_page.simps [simp del]

text \<open>A page that cannot be read is skipped.\<close>

fun empty_pages :: "ext2_env \<Rightarrow> nat list \<Rightarrow> dinode \<Rightarrow> dinode \<times> bool" where
  "empty_pages env [] inode = (inode, True)"
| "empty_pages env (i # is) inode =
     (case ext2_get_page env inode i of
        (inode, Inl _) \<Rightarrow> empty_pages env is inode
      | (inode, Inr p) \<Rightarrow>
          if empty_page env (i_ino inode) p (ext2_last_byte env inode i) 0 then empty_pages env is inode
          else (inode, False))"

definition ext2_empty_dir :: "ext2_env \<Rightarrow> dinode \<Rightarrow> dinode \<times> bool" where
  "ext2_empty_dir env inode = empty_pages env [0..<dir_pages env inode] inode"

section \<open>Reading a directory\<close>

text \<open>The type that is reported, by the type of the entry.\<close>

definition ext2_filetype_table :: "nat list" where
  "ext2_filetype_table = [0, 8, 4, 2, 6, 1, 12, 10]"

text \<open>
  The context of a caller: the position, the entries it has taken, and how many more it takes
  before \<open>dir_emit\<close> refuses.
\<close>

record dir_context =
  cpos :: nat
  taken :: "(string \<times> 32 word \<times> nat) list"
  room :: nat

function validate_loop :: "ext2_env \<Rightarrow> string \<Rightarrow> nat \<Rightarrow> nat \<Rightarrow> nat" where
  "validate_loop env base de p =
     (if p < de then
        if raw_rec base p = 0 then p
        else validate_loop env base de (ext2_next_entry env base p)
      else p)"
  by pat_completeness auto

termination
  by (relation "measure (\<lambda>(env, base, de, p). de - p)") (simp_all add: next_entry_less)

declare validate_loop.simps [simp del]

definition ext2_validate_entry :: "ext2_env \<Rightarrow> string \<Rightarrow> nat \<Rightarrow> nat" where
  "ext2_validate_entry env base offset = validate_loop env base offset (chunk_start env offset)"

definition dir_type :: "ext2_env \<Rightarrow> string \<Rightarrow> nat \<Rightarrow> nat" where
  "dir_type env p de =
     (if has_filetype env \<and> unat (de_type p de) < 8 then ext2_filetype_table ! unat (de_type p de) else 0)"

text \<open>The entries of one page: an error, or whether the caller goes on.\<close>

function emit_page :: "ext2_env \<Rightarrow> string \<Rightarrow> nat \<Rightarrow> nat \<Rightarrow> dir_context \<Rightarrow> dir_context \<times> (ext2_err + bool)" where
  "emit_page env p last_byte de ctx =
     (if de + EXT2_DIR_REC_LEN 1 \<le> last_byte then
        if raw_rec p de = 0 then (ctx, Inl EIO)
        else if de_ino p de \<noteq> 0 \<and> room ctx = 0 then (ctx, Inr False)
        else
          let ctx = if de_ino p de \<noteq> 0
                    then ctx\<lparr>taken := taken ctx @ [(de_name p de, de_ino p de, dir_type env p de)], room := room ctx - 1\<rparr>
                    else ctx
          in emit_page env p last_byte (ext2_next_entry env p de) (ctx\<lparr>cpos := cpos ctx + rec_at env p de\<rparr>)
      else (ctx, Inr True))"
  by pat_completeness auto

termination
proof (relation "measure (\<lambda>(env, p, last_byte, de, ctx). last_byte - de)", goal_cases)
  case (2 env p last_byte de ctx)
  then have "de < last_byte" using rec_len_min(1) [of 0] by simp
  then show ?case using next_entry_less [OF 2(2)] by simp
qed simp

declare emit_page.simps [simp del]

text \<open>\<open>offset\<close> is zero from the second page on; the version of the file is checked on the first.\<close>

fun readdir_pages ::
  "ext2_env \<Rightarrow> nat list \<Rightarrow> nat \<Rightarrow> nat \<Rightarrow> dinode \<Rightarrow> dir_context \<Rightarrow> dinode \<times> nat \<times> dir_context \<times> ext2_err option" where
  "readdir_pages env [] offset f_version inode ctx = (inode, f_version, ctx, None)"
| "readdir_pages env (n # ns) offset f_version inode ctx =
     (case ext2_get_page env inode n of
        (inode, Inl e) \<Rightarrow> (inode, f_version, ctx\<lparr>cpos := cpos ctx + (page_size env - offset)\<rparr>, Some e)
      | (inode, Inr p) \<Rightarrow>
          let need_revalidate = f_version \<noteq> i_version inode;
              offset' = if need_revalidate \<and> offset \<noteq> 0 then ext2_validate_entry env p offset else offset;
              ctx = if need_revalidate \<and> offset \<noteq> 0 then ctx\<lparr>cpos := n * page_size env + offset'\<rparr> else ctx;
              f_version = if need_revalidate then i_version inode else f_version
          in case emit_page env p (ext2_last_byte env inode n) offset' ctx of
               (ctx, Inl e) \<Rightarrow> (inode, f_version, ctx, Some e)
             | (ctx, Inr False) \<Rightarrow> (inode, f_version, ctx, None)
             | (ctx, Inr True) \<Rightarrow> readdir_pages env ns 0 f_version inode ctx)"

definition ext2_readdir ::
  "ext2_env \<Rightarrow> nat \<Rightarrow> dinode \<Rightarrow> dir_context \<Rightarrow> dinode \<times> nat \<times> dir_context \<times> ext2_err option" where
  "ext2_readdir env f_version inode ctx =
     (let pos = cpos ctx; offset = pos mod page_size env; n = pos div page_size env in
      if int pos > int (i_size inode) - int (EXT2_DIR_REC_LEN 1) then (inode, f_version, ctx, None)
      else readdir_pages env [n..<dir_pages env inode] offset f_version inode ctx)"

end
