(* ===== verification/Ext2_Recs.thy ===== *)
theory Ext2_Recs
  imports Ext2_Dir
begin

unbundle bit_operations_syntax

text \<open>
  Pages as sequences of records. The bytes of a directory page are the concatenation of its
  records; the routines of \<open>Ext2_Dir\<close> on offsets become routines on this list. The check of a
  page accepts exactly the pages that have such a list.
\<close>

section \<open>Records\<close>

record drec =
  r_ino :: "32 word"
  r_nlen :: "8 word"
  r_type :: "8 word"
  r_body :: string

definition rlen :: "drec \<Rightarrow> nat" where
  "rlen r = 8 + length (r_body r)"

definition rec_bytes :: "drec \<Rightarrow> string" where
  "rec_bytes r = le32_enc (r_ino r) @ le16_enc (of_nat (rlen r)) @ u8_enc (r_nlen r) @ u8_enc (r_type r) @ r_body r"

definition r_name :: "drec \<Rightarrow> string" where
  "r_name r = take (unat (r_nlen r)) (r_body r)"

abbreviation recs_bytes :: "drec list \<Rightarrow> string" where
  "recs_bytes rs \<equiv> concat (map rec_bytes rs)"

abbreviation rsize :: "drec list \<Rightarrow> nat" where
  "rsize rs \<equiv> sum_list (map rlen rs)"

lemmas enc_lens [simp] = u8f.enc_len le16f.enc_len le32f.enc_len
lemmas dec_encs [simp] = u8f.dec_enc le16f.dec_enc le32f.dec_enc

lemma length_rec_bytes [simp]: "length (rec_bytes r) = rlen r"
  by (simp add: rec_bytes_def rlen_def)

lemma length_recs_bytes [simp]: "length (recs_bytes rs) = rsize rs"
  by (induction rs) simp_all

lemma rlen_ge [simp]: "8 \<le> rlen r" "0 < rlen r"
  by (simp_all add: rlen_def)

text \<open>The fields of the record at the end of a prefix.\<close>

lemma take_drop_mid: "length a = n \<Longrightarrow> length b = k \<Longrightarrow> take k (drop n (a @ b @ c)) = b"
  by simp

lemma fields_at:
  assumes "p = pre @ rec_bytes r @ post" and "off = length pre"
  shows "de_ino p off = r_ino r" "raw_rec p off = of_nat (rlen r)" "de_nlen p off = unat (r_nlen r)"
    "de_type p off = r_type r" "drop (off + 8) p = r_body r @ post" "drop (off + rlen r) p = post"
proof -
  let ?a = "le32_enc (r_ino r)" and ?b = "le16_enc (of_nat (rlen r))" and ?c = "u8_enc (r_nlen r)" and ?d = "u8_enc (r_type r)"
  have p: "p = pre @ ?a @ ?b @ ?c @ ?d @ r_body r @ post" using assms(1) by (simp add: rec_bytes_def)
  have 1: "take 4 (drop off p) = ?a" using take_drop_mid [of pre off ?a 4] assms(2) by (simp add: p)
  have 2: "take 2 (drop (off + 4) p) = ?b" using take_drop_mid [of "pre @ ?a" "off + 4" ?b 2] assms(2) by (simp add: p)
  have 3: "take 1 (drop (off + 6) p) = ?c" using take_drop_mid [of "pre @ ?a @ ?b" "off + 6" ?c 1] assms(2) by (simp add: p)
  have 4: "take 1 (drop (off + 7) p) = ?d" using take_drop_mid [of "pre @ ?a @ ?b @ ?c" "off + 7" ?d 1] assms(2) by (simp add: p)
  show "de_ino p off = r_ino r" "raw_rec p off = of_nat (rlen r)" "de_nlen p off = unat (r_nlen r)" "de_type p off = r_type r"
    unfolding 1 2 3 4 by simp_all
  show "drop (off + 8) p = r_body r @ post" "drop (off + rlen r) p = post" using assms(2) by (simp_all add: p rlen_def)
qed

text \<open>Every string of at least eight bytes is a record once its length is entered.\<close>

definition rec_of :: "string \<Rightarrow> drec" where
  "rec_of s = \<lparr>r_ino = de_ino s 0, r_nlen = u8_dec (take 1 (drop 6 s)), r_type = de_type s 0, r_body = drop 8 s\<rparr>"

lemma cut: "take n (drop k s) @ drop (k + n) s = drop k s"
  by (metis add.commute append_take_drop_id drop_drop)

lemma rec_of_bytes:
  assumes "8 \<le> length s"
  shows "rec_bytes (rec_of s) = put_at 4 (le16_enc (of_nat (length s))) s" "rlen (rec_of s) = length s"
proof -
  have tail: "take 1 (drop 6 s) @ take 1 (drop 7 s) @ drop 8 s = drop 6 s"
    using cut [of 1 7 s] cut [of 1 6 s] by simp
  show len: "rlen (rec_of s) = length s" using assms by (simp add: rlen_def rec_of_def)
  have "rec_bytes (rec_of s) = take 4 s @ le16_enc (of_nat (length s)) @ take 1 (drop 6 s) @ take 1 (drop 7 s) @ drop 8 s"
    using assms unfolding rec_bytes_def len by (simp add: rec_of_def u8f.enc_dec le32f.enc_dec)
  then show "rec_bytes (rec_of s) = put_at 4 (le16_enc (of_nat (length s))) s"
    unfolding tail by (simp add: put_at_def)
qed

text \<open>Writing into a record.\<close>

lemma put_at_mid:
  "i + length v \<le> length mid \<Longrightarrow> put_at (length pre + i) v (pre @ mid @ post) = pre @ put_at i v mid @ post"
  by (simp add: put_at_def)

lemma put_rec:
  "put_at 0 (le32_enc x) (rec_bytes r) = rec_bytes (r\<lparr>r_ino := x\<rparr>)"
  "put_at 6 (u8_enc y) (rec_bytes r) = rec_bytes (r\<lparr>r_nlen := y\<rparr>)"
  "put_at 7 (u8_enc y) (rec_bytes r) = rec_bytes (r\<lparr>r_type := y\<rparr>)"
  "length v \<le> length (r_body r) \<Longrightarrow> put_at 8 v (rec_bytes r) = rec_bytes (r\<lparr>r_body := put_at 0 v (r_body r)\<rparr>)"
  by (simp_all add: rec_bytes_def put_at_def rlen_def)

section \<open>Well-formed pages\<close>

text \<open>Blocks are powers of two of at least 512 bytes and divide a page, which is below 64 KiB.\<close>

definition env_ok :: "ext2_env \<Rightarrow> bool" where
  "env_ok env \<longleftrightarrow> (\<exists>k. s_blocksize env = 2 ^ k) \<and> s_blocksize env dvd page_size env \<and> 512 \<le> s_blocksize env \<and>
     0 < page_size env \<and> page_size env < 65536"

definition rec_ok :: "ext2_env \<Rightarrow> drec \<Rightarrow> bool" where
  "rec_ok env r \<longleftrightarrow>
     12 \<le> rlen r \<and> 4 dvd rlen r \<and> EXT2_DIR_REC_LEN (unat (r_nlen r)) \<le> rlen r \<and> unat (r_ino r) \<le> s_inodes_count env"

text \<open>A record does not reach from one chunk into the next.\<close>

definition in_chunk :: "ext2_env \<Rightarrow> nat \<Rightarrow> nat \<Rightarrow> bool" where
  "in_chunk env off n \<longleftrightarrow> (off + n - 1) div s_blocksize env = off div s_blocksize env"

fun recs_ok :: "ext2_env \<Rightarrow> nat \<Rightarrow> drec list \<Rightarrow> bool" where
  "recs_ok env off [] \<longleftrightarrow> True"
| "recs_ok env off (r # rs) \<longleftrightarrow> rec_ok env r \<and> in_chunk env off (rlen r) \<and> recs_ok env (off + rlen r) rs"

definition page_recs :: "ext2_env \<Rightarrow> string \<Rightarrow> nat \<Rightarrow> drec list \<Rightarrow> bool" where
  "page_recs env p limit rs \<longleftrightarrow>
     length p = page_size env \<and> limit \<le> page_size env \<and> take limit p = recs_bytes rs \<and> recs_ok env 0 rs"

lemma recs_ok_append: "recs_ok env off (as @ bs) \<longleftrightarrow> recs_ok env off as \<and> recs_ok env (off + rsize as) bs"
  by (induction as arbitrary: off) (simp_all add: add.assoc)

lemma REC_LEN_1 [simp]: "EXT2_DIR_REC_LEN 1 = 12" "EXT2_DIR_REC_LEN (Suc 0) = 12"
  by (simp_all add: EXT2_DIR_REC_LEN_eq)

lemma REC_LEN_bounds: "n + 8 \<le> EXT2_DIR_REC_LEN n" "EXT2_DIR_REC_LEN n \<le> n + 11" "4 dvd EXT2_DIR_REC_LEN n"
  by (auto simp: EXT2_DIR_REC_LEN_eq)

lemma REC_LEN_byte: "EXT2_DIR_REC_LEN (unat (b :: 8 word)) \<le> 264"
  using unat_bound [of b] by (simp add: EXT2_DIR_REC_LEN_eq)

lemma env_okD:
  assumes "env_ok env"
  shows "0 < s_blocksize env" "512 \<le> s_blocksize env" "s_blocksize env \<le> page_size env" "page_size env < 65536"
    "4 dvd s_blocksize env"
proof -
  obtain k where k: "s_blocksize env = 2 ^ k" using assms by (auto simp: env_ok_def)
  show "0 < s_blocksize env" "512 \<le> s_blocksize env" "page_size env < 65536" using assms by (simp_all add: env_ok_def)
  show "s_blocksize env \<le> page_size env" using assms by (auto simp: env_ok_def intro: dvd_imp_le)
  have "\<not> k < 2"
  proof
    assume "k < 2"
    then have "k = 0 \<or> k = 1" by auto
    then show False using k assms by (auto simp: env_ok_def)
  qed
  then have "(2 :: nat) ^ 2 dvd 2 ^ k" by (intro le_imp_power_dvd) simp
  then show "4 dvd s_blocksize env" by (simp add: k)
qed

lemma chunk_bits:
  assumes "env_ok env"
  shows "(int x XOR int y) AND NOT (int (s_blocksize env) - 1) = 0 \<longleftrightarrow> x div s_blocksize env = y div s_blocksize env"
    "chunk_start env x = s_blocksize env * (x div s_blocksize env)"
proof -
  obtain k where k: "s_blocksize env = 2 ^ k" using assms by (auto simp: env_ok_def)
  have "(int x XOR int y) AND NOT (2 ^ k - 1) = 2 ^ k * (drop_bit k (int x) XOR drop_bit k (int y))"
    unfolding round_down by (simp flip: drop_bit_eq_div drop_bit_xor)
  moreover have "a XOR b = 0 \<longleftrightarrow> a = b" for a b :: int by (metis xor.assoc xor.left_neutral xor_self_eq)
  ultimately have "(int x XOR int y) AND NOT (2 ^ k - 1) = 0 \<longleftrightarrow> int x div 2 ^ k = int y div 2 ^ k"
    by (simp add: drop_bit_eq_div)
  also have "\<dots> \<longleftrightarrow> x div 2 ^ k = y div 2 ^ k"
  proof -
    have "int z div 2 ^ k = int (z div 2 ^ k)" for z by (simp add: zdiv_int)
    then show ?thesis by (simp only: of_nat_eq_iff)
  qed
  finally show "(int x XOR int y) AND NOT (int (s_blocksize env) - 1) = 0 \<longleftrightarrow> x div s_blocksize env = y div s_blocksize env"
    by (simp add: k)
  have "int x AND NOT (int (2 ^ k) - 1) = int (2 ^ k * (x div 2 ^ k))"
    using round_down [of "int x" k] by (simp add: zdiv_int)
  then show "chunk_start env x = s_blocksize env * (x div s_blocksize env)"
    unfolding chunk_start_def ext2_chunk_size_def k by (simp only: nat_int)
qed

lemma rec_len_unat: "env_ok env \<Longrightarrow> ext2_rec_len_from_disk env w = unat w"
  by (simp add: ext2_rec_len_from_disk_def env_ok_def)

lemma unat_u16: "n < 65536 \<Longrightarrow> unat (of_nat n :: 16 word) = n"
  by (simp add: unat_of_nat)

lemma rec_at_rlen:
  assumes "env_ok env" and "p = pre @ rec_bytes r @ post" and "off = length pre" and "rlen r < 65536"
  shows "rec_at env p off = rlen r" "ext2_next_entry env p off = off + rlen r" "raw_rec p off \<noteq> 0"
proof -
  have raw: "raw_rec p off = of_nat (rlen r)" "unat (raw_rec p off) = rlen r"
    using fields_at(2) [OF assms(2,3)] unat_u16 [OF assms(4)] by simp_all
  then show "rec_at env p off = rlen r" "ext2_next_entry env p off = off + rlen r"
    by (simp_all add: ext2_next_entry_def rec_len_unat [OF assms(1)])
  show "raw_rec p off \<noteq> 0" using raw(2) rlen_ge(2) [of r] by (metis less_irrefl unat_0)
qed

lemma and_3: "n AND 3 = n mod (4 :: nat)"
  using take_bit_eq_mask [of 2 n] by (simp add: take_bit_eq_mod mask_eq_exp_minus_1)

lemma rec_fits_iff:
  assumes "env_ok env" and "p = pre @ rec_bytes r @ post" and "off = length pre" and "rlen r < 65536"
  shows "rec_fits env p off \<longleftrightarrow> rec_ok env r \<and> in_chunk env off (rlen r)"
  unfolding rec_fits_def Let_def ext2_chunk_size_def chunk_bits(1) [OF assms(1)] rec_at_rlen(1) [OF assms] fields_at(1,3) [OF assms(2,3)]
  by (auto simp: rec_ok_def in_chunk_def and_3 mod_eq_0_iff_dvd)

text \<open>The check accepts the rest of a page exactly when it is a list of well-formed records.\<close>

lemma rec_of_at:
  assumes "env_ok env" and "8 \<le> rec_at env p off" and "off + rec_at env p off \<le> length p"
  shows "rec_bytes (rec_of (take (rec_at env p off) (drop off p))) = take (rec_at env p off) (drop off p)"
    "rlen (rec_of (take (rec_at env p off) (drop off p))) = rec_at env p off"
proof -
  let ?n = "rec_at env p off" and ?s = "take (rec_at env p off) (drop off p)"
  have len: "length ?s = ?n" using assms(3) by simp
  have raw: "take 2 (drop 4 ?s) = take 2 (drop (off + 4) p)" using assms(2) by (simp add: drop_take add.commute)
  have "length (take 2 (drop 4 ?s)) = 2" using assms(2) len by simp
  then have "le16_enc (raw_rec p off) = take 2 (drop 4 ?s)" unfolding raw by (rule le16f.enc_dec)
  moreover have "of_nat ?n = raw_rec p off" by (simp add: rec_len_unat [OF assms(1)])
  ultimately have enc: "le16_enc (of_nat ?n) = take 2 (drop 4 ?s)" by (simp only:)
  have "put_at 4 (take 2 (drop 4 t)) t = t" if "8 \<le> length t" for t :: string
    using cut [of 2 4 t] that by (simp add: put_at_def)
  then have "put_at 4 (le16_enc (of_nat (length ?s))) ?s = ?s" unfolding len enc using len assms(2) by simp
  then show "rec_bytes (rec_of ?s) = ?s" "rlen (rec_of ?s) = ?n"
    using rec_of_bytes [of ?s] assms(2) len by simp_all
qed

lemma check_loop_recs:
  assumes "env_ok env" and "length p = page_size env" and "limit \<le> page_size env"
  shows "ext2_check_loop env p limit off \<Longrightarrow> \<exists>rs. off \<le> limit \<and> take (limit - off) (drop off p) = recs_bytes rs \<and> recs_ok env off rs"
  using assms
proof (induction env p limit off rule: ext2_check_loop.induct)
  case (1 env p limit off)
  show ?case
  proof (cases "off + EXT2_DIR_REC_LEN 1 \<le> limit")
    case False
    then show ?thesis using 1(2) by (subst (asm) ext2_check_loop.simps) (auto intro: exI [of _ "[]"])
  next
    case True
    then have fits: "rec_fits env p off" and rest: "ext2_check_loop env p limit (off + rec_at env p off)"
      using 1(2) by (subst (asm) ext2_check_loop.simps, simp split: if_splits)+
    from 1(1) [OF True fits rest 1(3,4,5)] obtain rs where
      rs: "off + rec_at env p off \<le> limit" "take (limit - (off + rec_at env p off)) (drop (off + rec_at env p off) p) = recs_bytes rs"
        "recs_ok env (off + rec_at env p off) rs" by blast
    let ?n = "rec_at env p off"
    let ?r = "rec_of (take ?n (drop off p))"
    have n: "8 \<le> ?n" "off + ?n \<le> length p" using fits rs(1) 1(4,5) by (auto simp: rec_fits_def Let_def split: if_splits)
    have r: "rec_bytes ?r = take ?n (drop off p)" "rlen ?r = ?n" using rec_of_at [OF 1(3) n] by simp_all
    have p: "p = take off p @ rec_bytes ?r @ drop (off + ?n) p" unfolding r(1) using cut [of ?n off p] by simp
    have "off = length (take off p)" "rlen ?r < 65536" using n r 1(4) env_okD(4) [OF 1(3)] by auto
    from rec_fits_iff [OF 1(3) p this] fits have ok: "rec_ok env ?r" "in_chunk env off (rlen ?r)" by auto
    have "take (limit - off) (drop off p) = take ?n (drop off p) @ take (limit - off - ?n) (drop ?n (drop off p))"
      using rs(1) by (metis le_add_diff_inverse le_diff_conv2 add_leD1 add.commute take_add)
    then have "take (limit - off) (drop off p) = recs_bytes (?r # rs)" using rs(2) r(1) by (simp add: add.commute)
    then show ?thesis using ok rs r(2) True by (intro exI [of _ "?r # rs"]) auto
  qed
qed

lemma recs_check_loop:
  assumes "env_ok env" and "length p = page_size env" and "limit \<le> page_size env"
    and "take limit p = recs_bytes (as @ bs)" and "recs_ok env (rsize as) bs"
  shows "ext2_check_loop env p limit (rsize as)"
  using assms(4,5)
proof (induction bs arbitrary: as)
  case Nil
  then have "rsize as = limit" using assms(2,3) by (metis append_Nil2 length_recs_bytes length_take min.absorb2)
  then show ?case by (subst ext2_check_loop.simps) simp
next
  case (Cons r bs)
  have lim: "limit = rsize as + rlen r + rsize bs"
    using arg_cong [OF Cons.prems(1), of length] assms(2,3) by simp
  have p: "p = recs_bytes as @ rec_bytes r @ (recs_bytes bs @ drop limit p)"
    using Cons.prems(1) by (metis append.assoc append_take_drop_id concat.simps(2) concat_append list.simps(9) map_append)
  have small: "rlen r < 65536" using lim assms(3) env_okD(4) [OF assms(1)] by simp
  note at = rec_at_rlen [OF assms(1) p length_recs_bytes [symmetric] small] rec_fits_iff [OF assms(1) p length_recs_bytes [symmetric] small]
  have "12 \<le> rlen r" using Cons.prems(2) by (simp add: rec_ok_def)
  moreover have "ext2_check_loop env p limit (rsize (as @ [r]))" using Cons.IH [of "as @ [r]"] Cons.prems by simp
  ultimately show ?case using Cons.prems(2) lim by (subst ext2_check_loop.simps) (simp add: at)
qed

lemma check_loop_iff:
  assumes "env_ok env" and "length p = page_size env" and "limit \<le> page_size env"
  shows "ext2_check_loop env p limit 0 \<longleftrightarrow> (\<exists>rs. page_recs env p limit rs)"
  using check_loop_recs [OF assms, of 0] recs_check_loop [OF assms, of "[]"] assms
  by (auto simp: page_recs_def)

section \<open>Walking over a page\<close>

lemma page_limit: "page_recs env p limit rs \<Longrightarrow> limit = rsize rs"
  unfolding page_recs_def by (metis length_recs_bytes length_take min.absorb2)

lemma page_split:
  assumes "page_recs env p limit (as @ r # bs)"
  shows "p = recs_bytes as @ rec_bytes r @ (recs_bytes bs @ drop limit p)"
  using assms append_take_drop_id [of limit p] by (simp add: page_recs_def)

lemma page_rec:
  assumes "env_ok env" and "page_recs env p limit (as @ r # bs)"
  shows "rec_ok env r" "in_chunk env (rsize as) (rlen r)" "rlen r < 65536" "rsize as + rlen r + rsize bs = limit"
    "rsize as + rlen r + rsize bs \<le> page_size env"
proof -
  show lim: "rsize as + rlen r + rsize bs = limit" using page_limit [OF assms(2)] by simp
  then show "rsize as + rlen r + rsize bs \<le> page_size env" using assms(2) by (simp add: page_recs_def)
  then show "rlen r < 65536" using env_okD(4) [OF assms(1)] by simp
  show "rec_ok env r" "in_chunk env (rsize as) (rlen r)" using assms(2) by (simp_all add: page_recs_def recs_ok_append)
qed

lemma page_at:
  assumes "env_ok env" and "page_recs env p limit (as @ r # bs)"
  shows "rec_at env p (rsize as) = rlen r" "ext2_next_entry env p (rsize as) = rsize (as @ [r])" "raw_rec p (rsize as) \<noteq> 0"
    "de_ino p (rsize as) = r_ino r" "de_nlen p (rsize as) = unat (r_nlen r)" "de_type p (rsize as) = r_type r"
    "drop (rsize as + 8) p = r_body r @ recs_bytes bs @ drop limit p"
  using rec_at_rlen [OF assms(1) page_split [OF assms(2)] length_recs_bytes [symmetric] page_rec(3) [OF assms]]
    fields_at [OF page_split [OF assms(2)] length_recs_bytes [symmetric]]
  by simp_all

lemma name_fits: "rec_ok env r \<Longrightarrow> unat (r_nlen r) \<le> length (r_body r)"
  using REC_LEN_bounds(1) [of "unat (r_nlen r)"] by (simp add: rec_ok_def rlen_def)

lemma length_r_name: "rec_ok env r \<Longrightarrow> length (r_name r) = unat (r_nlen r)"
  by (simp add: r_name_def name_fits)

definition r_match :: "string \<Rightarrow> drec \<Rightarrow> bool" where
  "r_match name r \<longleftrightarrow> r_ino r \<noteq> 0 \<and> r_name r = name"

lemma match_iff:
  assumes "env_ok env" and "page_recs env p limit (as @ r # bs)"
  shows "ext2_match name p (rsize as) \<longleftrightarrow> r_match name r"
  unfolding ext2_match_def page_at [OF assms]
  using length_r_name [OF page_rec(1) [OF assms]] name_fits [OF page_rec(1) [OF assms]]
  by (auto simp: r_match_def r_name_def)

lemma match_len: "rec_ok env r \<Longrightarrow> r_match name r \<Longrightarrow> EXT2_DIR_REC_LEN (length name) \<le> rlen r"
  using length_r_name [of env r] by (auto simp: r_match_def rec_ok_def)

lemma rec_later:
  assumes "env_ok env" and "page_recs env p limit (as @ bs)" and "r \<in> set bs"
  shows "rec_ok env r" "rsize as + rlen r \<le> limit"
proof -
  obtain cs ds where bs: "bs = cs @ r # ds" using split_list [OF assms(3)] by blast
  then have "page_recs env p limit ((as @ cs) @ r # ds)" using assms(2) by simp
  from page_rec [OF assms(1) this] show "rec_ok env r" "rsize as + rlen r \<le> limit" by simp_all
qed

text \<open>The search in a page finds the first record with the name.\<close>

lemma find_in_page_rest:
  assumes "env_ok env"
  shows "page_recs env p limit (as @ bs) \<Longrightarrow>
    find_in_page env name p limit (rsize as) =
      Inr (if \<exists>r \<in> set bs. r_match name r then Some (rsize (as @ takeWhile (\<lambda>r. \<not> r_match name r) bs)) else None)"
proof (induction bs arbitrary: as)
  case Nil
  then show ?case using page_limit [OF Nil] rec_len_min(2) [of "length name"] by (subst find_in_page.simps) simp
next
  case (Cons r bs)
  note at = page_at [OF assms Cons.prems] match_iff [OF assms Cons.prems]
  show ?case
  proof (cases "rsize as + EXT2_DIR_REC_LEN (length name) \<le> limit")
    case True
    have "page_recs env p limit ((as @ [r]) @ bs)" using Cons.prems by simp
    from Cons.IH [OF this] show ?thesis using True by (subst find_in_page.simps) (simp add: at)
  next
    case False
    then have "\<not> r_match name x" if "x \<in> set (r # bs)" for x
      using rec_later [OF assms Cons.prems that] match_len [of env x name] by auto
    then show ?thesis using False by (subst find_in_page.simps) auto
  qed
qed

lemma find_in_page_recs:
  assumes "env_ok env" and "page_recs env p limit rs"
  shows "find_in_page env name p limit 0 =
    Inr (if \<exists>r \<in> set rs. r_match name r then Some (rsize (takeWhile (\<lambda>r. \<not> r_match name r) rs)) else None)"
  using find_in_page_rest [OF assms(1), of p limit "[]" rs name] assms(2) by simp

text \<open>The start of every chunk is the start of a record.\<close>

lemma chunk_boundary:
  assumes "env_ok env"
  shows "recs_ok env off rs \<Longrightarrow> off \<le> m \<Longrightarrow> m \<le> off + rsize rs \<Longrightarrow> s_blocksize env dvd m \<Longrightarrow>
    \<exists>as bs. rs = as @ bs \<and> off + rsize as = m"
proof (induction rs arbitrary: off)
  case (Cons r rs)
  show ?case
  proof (cases "m = off")
    case True
    then show ?thesis by (intro exI [of _ "[]"] exI [of _ "r # rs"] conjI) simp_all
  next
    case False
    let ?b = "s_blocksize env"
    have "off + rlen r \<le> m"
    proof (rule ccontr)
      assume "\<not> off + rlen r \<le> m"
      then have "m div ?b \<le> (off + rlen r - 1) div ?b" by (intro div_le_mono) simp
      moreover have "(off + rlen r - 1) div ?b = off div ?b" using Cons.prems(1) by (simp add: in_chunk_def)
      moreover have "off < ?b * (m div ?b)" using Cons.prems(2,4) False by (simp add: dvd_mult_div_cancel)
      then have "off div ?b < m div ?b" by (simp add: less_mult_imp_div_less mult.commute)
      ultimately show False by simp
    qed
    then obtain as bs where "rs = as @ bs" "off + rlen r + rsize as = m"
      using Cons.IH [of "off + rlen r"] Cons.prems by (auto simp: add.assoc)
    then show ?thesis by (intro exI [of _ "r # as"] exI [of _ bs]) simp
  qed
qed auto

end
