(* ===== verification/Ext2_Update.thy ===== *)
theory Ext2_Update
  imports Ext2_Recs
begin

unbundle bit_operations_syntax

text \<open>
  Writing to pages: what the operations of \<open>Ext2_Dir\<close> that change a page do to its list of
  records. A record is overwritten, split in two or merged with its predecessor; a new chunk is
  one free record.
\<close>

section \<open>Replacing a record\<close>

lemma page_replace:
  assumes "page_recs env p limit (as @ rs @ bs)" and "rsize ns = rsize rs" and "recs_ok env (rsize as) ns"
    and "p' = recs_bytes as @ recs_bytes ns @ recs_bytes bs @ drop limit p"
  shows "page_recs env p' limit (as @ ns @ bs)"
proof -
  have lim: "limit = rsize as + rsize rs + rsize bs" using page_limit [OF assms(1)] by simp
  have "take limit p' = recs_bytes (as @ ns @ bs)" "length p' = limit + length (drop limit p)"
    using assms(2) lim by (simp_all add: assms(4))
  moreover have "recs_ok env (rsize as + rsize ns) bs" "recs_ok env 0 as" "limit \<le> length p"
    using assms(1,2) by (simp_all add: page_recs_def recs_ok_append)
  ultimately show ?thesis using assms(1,3) by (simp add: page_recs_def recs_ok_append)
qed

lemma put_page:
  assumes "p = recs_bytes as @ mid @ post" and "i + length v \<le> length mid" and "off = rsize as + i"
  shows "put_at off v p = recs_bytes as @ put_at i v mid @ post"
  using put_at_mid [OF assms(2), of "recs_bytes as" post] assms by simp

lemma in_chunk_sub:
  assumes "in_chunk env off n" and "off \<le> a" and "0 < m" and "a + m \<le> off + n"
  shows "in_chunk env a m"
proof -
  let ?b = "s_blocksize env"
  have "off div ?b \<le> a div ?b" "a div ?b \<le> (a + m - 1) div ?b" "(a + m - 1) div ?b \<le> (off + n - 1) div ?b"
    using assms by (auto intro!: div_le_mono)
  then show ?thesis using assms(1) by (simp add: in_chunk_def)
qed

lemma in_chunk_start:
  assumes "s_blocksize env dvd off" and "0 < n" and "n \<le> s_blocksize env"
  shows "in_chunk env off n"
proof -
  have "(off + (n - 1)) div s_blocksize env = off div s_blocksize env + (n - 1) div s_blocksize env"
    using assms(1) by (auto simp: div_plus_div_distrib_dvd_left)
  then show ?thesis using assms by (simp add: in_chunk_def)
qed

section \<open>Filling in an entry\<close>

definition entry_type :: "ext2_env \<Rightarrow> 16 word \<Rightarrow> 8 word" where
  "entry_type env mode =
     (if has_filetype env
      then case map_of ext2_type_by_mode (unat (drop_bit 12 (mode AND 0xf000))) of None \<Rightarrow> 0 | Some t \<Rightarrow> t
      else 0)"

lemma set_de_type_eq: "ext2_set_de_type env de mode p = put_at (de + 7) (u8_enc (entry_type env mode)) p"
  by (simp add: ext2_set_de_type_def entry_type_def)

definition filled :: "ext2_env \<Rightarrow> string \<Rightarrow> 32 word \<Rightarrow> 16 word \<Rightarrow> drec \<Rightarrow> drec" where
  "filled env name ino mode r =
     r\<lparr>r_nlen := of_nat (length name), r_body := put_at 0 name (r_body r), r_ino := ino, r_type := entry_type env mode\<rparr>"

lemma put_at_0: "length v \<le> length s \<Longrightarrow> length (put_at 0 v s) = length s" "take (length v) (put_at 0 v s) = v"
  by (simp_all add: put_at_def)

lemma rlen_upd [simp]:
  "rlen (r\<lparr>r_ino := x\<rparr>) = rlen r" "rlen (r\<lparr>r_nlen := y\<rparr>) = rlen r" "rlen (r\<lparr>r_type := z\<rparr>) = rlen r"
  by (simp_all add: rlen_def)

lemma unat_u8: "n < 256 \<Longrightarrow> unat (of_nat n :: 8 word) = n"
  by (simp add: unat_of_nat)

text \<open>A name that can be entered.\<close>

definition name_ok :: "string \<Rightarrow> bool" where
  "name_ok name \<longleftrightarrow> name \<noteq> [] \<and> length name < 256"

lemma name_room: "name_ok name \<Longrightarrow> 12 \<le> EXT2_DIR_REC_LEN (length name)" "name_ok name \<Longrightarrow> EXT2_DIR_REC_LEN (length name) \<le> 264"
  by (cases name; simp add: name_ok_def EXT2_DIR_REC_LEN_eq)+

lemma filled_ok:
  assumes "4 dvd rlen r" and "EXT2_DIR_REC_LEN (length name) \<le> rlen r" and "name_ok name" and "unat ino \<le> s_inodes_count env"
  shows "rec_ok env (filled env name ino mode r)" "rlen (filled env name ino mode r) = rlen r"
    "r_name (filled env name ino mode r) = name"
proof -
  have name: "length name < 256" "12 \<le> rlen r" using assms(2,3) name_room(1) [OF assms(3)] by (simp_all add: name_ok_def)
  have "length name \<le> length (r_body r)" using assms(2) REC_LEN_bounds(1) [of "length name"] by (simp add: rlen_def)
  then show len: "rlen (filled env name ino mode r) = rlen r" by (simp add: filled_def rlen_def put_at_0)
  show "rec_ok env (filled env name ino mode r)"
    using assms name unfolding rec_ok_def len by (simp add: filled_def unat_u8)
  show "r_name (filled env name ino mode r) = name"
    using name by (simp add: filled_def r_name_def unat_u8 put_at_0)
qed

text \<open>The fields of one record of a page.\<close>

lemma put_fields:
  assumes "p = recs_bytes as @ rec_bytes r @ post"
  shows "put_at (rsize as) (le32_enc x) p = recs_bytes as @ rec_bytes (r\<lparr>r_ino := x\<rparr>) @ post"
    "put_at (rsize as + 6) (u8_enc y) p = recs_bytes as @ rec_bytes (r\<lparr>r_nlen := y\<rparr>) @ post"
    "put_at (rsize as + 7) (u8_enc y) p = recs_bytes as @ rec_bytes (r\<lparr>r_type := y\<rparr>) @ post"
    "length v \<le> length (r_body r) \<Longrightarrow>
      put_at (rsize as + 8) v p = recs_bytes as @ rec_bytes (r\<lparr>r_body := put_at 0 v (r_body r)\<rparr>) @ post"
proof -
  have len: "0 + 4 \<le> rlen r" "6 + 1 \<le> rlen r" "7 + 1 \<le> rlen r" by (simp_all add: rlen_def)
  show "put_at (rsize as) (le32_enc x) p = recs_bytes as @ rec_bytes (r\<lparr>r_ino := x\<rparr>) @ post"
    using put_page [OF assms, of 0 "le32_enc x" "rsize as"] len by (simp add: put_rec)
  show "put_at (rsize as + 6) (u8_enc y) p = recs_bytes as @ rec_bytes (r\<lparr>r_nlen := y\<rparr>) @ post"
    using put_page [OF assms, of 6 "u8_enc y"] len by (simp add: put_rec)
  show "put_at (rsize as + 7) (u8_enc y) p = recs_bytes as @ rec_bytes (r\<lparr>r_type := y\<rparr>) @ post"
    using put_page [OF assms, of 7 "u8_enc y"] len by (simp add: put_rec)
  show "put_at (rsize as + 8) v p = recs_bytes as @ rec_bytes (r\<lparr>r_body := put_at 0 v (r_body r)\<rparr>) @ post"
    if "length v \<le> length (r_body r)"
  proof -
    have "8 + length v \<le> rlen r" using that by (simp add: rlen_def)
    then show ?thesis using put_page [OF assms, of 8 v] that by (simp add: put_rec)
  qed
qed

lemma fill_entry_bytes:
  assumes "p = recs_bytes as @ rec_bytes r @ post" and "length name \<le> length (r_body r)"
  shows "fill_entry env name ino mode (rsize as) p = recs_bytes as @ rec_bytes (filled env name ino mode r) @ post"
  using assms(2) unfolding fill_entry_def set_de_type_eq put_fields(2) [OF assms(1)]
  by (simp add: put_fields [OF refl] filled_def)

text \<open>A free record that is large enough takes the entry as it is.\<close>

lemma fill_free:
  assumes "env_ok env" and "page_recs env p limit (as @ r # bs)"
    and "EXT2_DIR_REC_LEN (length name) \<le> rlen r" and "name_ok name" and "unat ino \<le> s_inodes_count env"
  shows "page_recs env (fill_entry env name ino mode (rsize as) p) limit (as @ filled env name ino mode r # bs)"
proof -
  note ok = page_rec [OF assms(1,2)]
  have "4 dvd rlen r" using ok(1) by (simp add: rec_ok_def)
  note fok = filled_ok [OF this assms(3-5), of mode]
  have "length name \<le> length (r_body r)" using assms(3) REC_LEN_bounds(1) [of "length name"] by (simp add: rlen_def)
  from fill_entry_bytes [OF page_split [OF assms(2)] this, of env ino mode] show ?thesis
    using page_replace [of env p limit as "[r]" bs "[filled env name ino mode r]"] assms(2) ok(2) fok by simp
qed

section \<open>Splitting and merging\<close>

lemma put_at_right: "length a = n \<Longrightarrow> i + length v \<le> length b \<Longrightarrow> put_at (n + i) v (a @ b) = a @ put_at i v b"
  by (auto simp: put_at_def)

lemma split_bytes:
  assumes "8 \<le> n" and "n + 8 \<le> rlen r"
  shows "put_at 4 (le16_enc (of_nat n)) (put_at (n + 4) (le16_enc (of_nat (rlen r - n))) (rec_bytes r)) =
    rec_bytes (r\<lparr>r_body := take (n - 8) (r_body r)\<rparr>) @ rec_bytes (rec_of (drop (n - 8) (r_body r)))"
proof -
  let ?hd = "\<lambda>k. le32_enc (r_ino r) @ le16_enc (of_nat k) @ u8_enc (r_nlen r) @ u8_enc (r_type r) @ take (n - 8) (r_body r)"
  let ?tl = "drop (n - 8) (r_body r)"
  have len: "length (?hd (rlen r)) = n" "length ?tl = rlen r - n" using assms by (simp_all add: rlen_def)
  have r: "rec_bytes r = ?hd (rlen r) @ ?tl" by (simp add: rec_bytes_def)
  have 1: "put_at (n + 4) (le16_enc (of_nat (rlen r - n))) (rec_bytes r) = ?hd (rlen r) @ put_at 4 (le16_enc (of_nat (rlen r - n))) ?tl"
    unfolding r using assms by (intro put_at_right len(1)) (simp only: len enc_lens)
  have 2: "put_at 4 (le16_enc (of_nat (rlen r - n))) ?tl = rec_bytes (rec_of ?tl)"
    by (rule rec_of_bytes(1) [of ?tl, unfolded len(2), symmetric]) (use assms in simp)
  have 3: "put_at 4 (le16_enc (of_nat n)) (?hd (rlen r) @ s) = ?hd n @ s" for s by (simp add: put_at_def)
  have "rlen (r\<lparr>r_body := take (n - 8) (r_body r)\<rparr>) = n" using assms by (simp add: rlen_def)
  then have "rec_bytes (r\<lparr>r_body := take (n - 8) (r_body r)\<rparr>) = ?hd n" by (simp add: rec_bytes_def)
  then show ?thesis unfolding 1 2 3 by (simp only:)
qed

lemma merge_bytes:
  "put_at 4 (le16_enc (of_nat (rlen a + rlen b))) (rec_bytes a @ rec_bytes b) = rec_bytes (a\<lparr>r_body := r_body a @ rec_bytes b\<rparr>)"
  by (simp add: rec_bytes_def put_at_def rlen_def add.assoc)

text \<open>An entry in use gives the room behind its name to a new record.\<close>

abbreviation shrunk :: "drec \<Rightarrow> drec" where
  "shrunk r \<equiv> r\<lparr>r_body := take (EXT2_DIR_REC_LEN (unat (r_nlen r)) - 8) (r_body r)\<rparr>"

abbreviation remainder :: "drec \<Rightarrow> drec" where
  "remainder r \<equiv> rec_of (drop (EXT2_DIR_REC_LEN (unat (r_nlen r)) - 8) (r_body r))"

lemma shrunk_facts:
  assumes "EXT2_DIR_REC_LEN (unat (r_nlen r)) + 8 \<le> rlen r"
  shows "rlen (shrunk r) = EXT2_DIR_REC_LEN (unat (r_nlen r))" "rlen (remainder r) = rlen r - EXT2_DIR_REC_LEN (unat (r_nlen r))"
    "r_name (shrunk r) = r_name r"
  using assms REC_LEN_bounds(1) [of "unat (r_nlen r)"] rec_of_bytes(2) [of "drop (EXT2_DIR_REC_LEN (unat (r_nlen r)) - 8) (r_body r)"]
  by (simp_all add: rlen_def r_name_def)

lemma to_disk: "env_ok env \<Longrightarrow> ext2_rec_len_to_disk env n = Inr (of_nat n)"
  by (simp add: ext2_rec_len_to_disk_def env_ok_def)

lemma split_entry_bytes:
  assumes "env_ok env" and "p = recs_bytes as @ rec_bytes r @ post" and "r_ino r \<noteq> 0"
    and "EXT2_DIR_REC_LEN (unat (r_nlen r)) + 8 \<le> rlen r"
  shows "split_entry env p (rsize as) (EXT2_DIR_REC_LEN (unat (r_nlen r))) (rlen r) =
    Inr (recs_bytes (as @ [shrunk r]) @ rec_bytes (remainder r) @ post, rsize (as @ [shrunk r]))"
proof -
  let ?n = "EXT2_DIR_REC_LEN (unat (r_nlen r))"
  have n: "8 \<le> ?n" using REC_LEN_bounds(1) [of "unat (r_nlen r)"] by simp
  have "put_at (rsize as + ?n + 4) (le16_enc (of_nat (rlen r - ?n))) p =
      recs_bytes as @ put_at (?n + 4) (le16_enc (of_nat (rlen r - ?n))) (rec_bytes r) @ post"
    by (rule put_page [OF assms(2)]) (use assms(4) in simp_all)
  note 1 = this
  have "put_at (rsize as + 4) (le16_enc (of_nat ?n)) (recs_bytes as @ put_at (?n + 4) (le16_enc (of_nat (rlen r - ?n))) (rec_bytes r) @ post) =
      recs_bytes as @ put_at 4 (le16_enc (of_nat ?n)) (put_at (?n + 4) (le16_enc (of_nat (rlen r - ?n))) (rec_bytes r)) @ post"
    by (rule put_page [OF refl]) (use assms(4) n in simp_all)
  note 2 = this
  have "split_entry env p (rsize as) ?n (rlen r) =
      Inr (put_at (rsize as + 4) (le16_enc (of_nat ?n)) (put_at (rsize as + ?n + 4) (le16_enc (of_nat (rlen r - ?n))) p), rsize as + ?n)"
    unfolding split_entry_def Let_def to_disk [OF assms(1)] fields_at(1) [OF assms(2) length_recs_bytes [symmetric]]
    using assms(3) by simp
  then show ?thesis unfolding 1 2 split_bytes [OF n assms(4)] using shrunk_facts(1) [OF assms(4)] by simp
qed

lemma split_fill:
  assumes "env_ok env" and "page_recs env p limit (as @ r # bs)" and "r_ino r \<noteq> 0" and "r_nlen r \<noteq> 0"
    and room: "EXT2_DIR_REC_LEN (unat (r_nlen r)) + EXT2_DIR_REC_LEN (length name) \<le> rlen r"
    and "name_ok name" and "unat ino \<le> s_inodes_count env"
  shows "\<exists>p1 de1. split_entry env p (rsize as) (EXT2_DIR_REC_LEN (unat (r_nlen r))) (rlen r) = Inr (p1, de1) \<and>
    page_recs env (fill_entry env name ino mode de1 p1) limit (as @ [shrunk r, filled env name ino mode (remainder r)] @ bs)"
proof -
  let ?n = "EXT2_DIR_REC_LEN (unat (r_nlen r))" and ?f = "filled env name ino mode (remainder r)"
  let ?post = "recs_bytes bs @ drop limit p"
  have len: "?n + 8 \<le> rlen r" using room name_room(1) [OF assms(6)] by simp
  note ok = page_rec [OF assms(1,2)] and sh = shrunk_facts [OF len]
  have big: "EXT2_DIR_REC_LEN (length name) \<le> rlen (remainder r)" using room sh(2) by simp
  have "4 dvd rlen (remainder r)" using ok(1) REC_LEN_bounds(3) sh(2) by (simp add: rec_ok_def)
  note f = filled_ok [OF this big assms(6,7), of mode]
  have "0 < unat (r_nlen r)" using assms(4) by (simp add: unat_gt_0)
  then have "12 \<le> ?n" by (cases "unat (r_nlen r)") (auto intro: rec_len_min(1))
  then have oks: "rec_ok env (shrunk r)" using ok(1) REC_LEN_bounds(3) unfolding rec_ok_def sh by simp
  have "length name \<le> length (r_body (remainder r))" using big REC_LEN_bounds(1) [of "length name"] by (simp add: rlen_def)
  from fill_entry_bytes [OF refl this, of env ino mode "as @ [shrunk r]" ?post]
  have fill: "fill_entry env name ino mode (rsize (as @ [shrunk r])) (recs_bytes (as @ [shrunk r]) @ rec_bytes (remainder r) @ ?post) =
      recs_bytes (as @ [shrunk r]) @ rec_bytes ?f @ ?post" .
  have sub: "in_chunk env (rsize as) (rlen (shrunk r))" "in_chunk env (rsize as + rlen (shrunk r)) (rlen ?f)"
    using in_chunk_sub [OF ok(2) _ rlen_ge(2), of "rsize as" "shrunk r"] in_chunk_sub [OF ok(2) _ rlen_ge(2), of "rsize as + rlen (shrunk r)" ?f]
      len sh f(2) by auto
  have "page_recs env (recs_bytes as @ recs_bytes [shrunk r, ?f] @ recs_bytes bs @ drop limit p) limit (as @ [shrunk r, ?f] @ bs)"
    by (rule page_replace [where rs = "[r]", OF _ _ _ refl]) (use assms(2) sub oks f sh len in simp_all)
  then show ?thesis
    using split_entry_bytes [OF assms(1) page_split [OF assms(2)] assms(3) len] fill by simp
qed

text \<open>A new chunk is one free record.\<close>

abbreviation fresh_chunk :: "ext2_env \<Rightarrow> string \<Rightarrow> nat \<Rightarrow> drec" where
  "fresh_chunk env p limit \<equiv> (rec_of (take (s_blocksize env) (drop limit p)))\<lparr>r_ino := 0\<rparr>"

lemma new_chunk:
  assumes "env_ok env" and "page_recs env p limit rs" and "limit + s_blocksize env \<le> page_size env" and "s_blocksize env dvd limit"
    and "p' = put_at limit (le32_enc 0) (put_at (limit + 4) (le16_enc (of_nat (s_blocksize env))) p)"
  shows "page_recs env p' (limit + s_blocksize env) (rs @ [fresh_chunk env p limit])" "take limit p' = take limit p" "length p' = length p"
    "rlen (fresh_chunk env p limit) = s_blocksize env"
proof -
  let ?b = "s_blocksize env" and ?s = "take (s_blocksize env) (drop limit p)" and ?post = "drop (limit + s_blocksize env) p"
  note b = env_okD [OF assms(1)]
  have lp: "length p = page_size env" "limit = rsize rs" using assms(2) page_limit [OF assms(2)] by (simp_all add: page_recs_def)
  have ls: "length ?s = ?b" "8 \<le> length ?s" using assms(3) lp b(2) by simp_all
  have p: "p = recs_bytes rs @ ?s @ ?post" using assms(2) cut [of ?b limit p] append_take_drop_id [of limit p] by (simp add: page_recs_def)
  have "put_at (limit + 4) (le16_enc (of_nat ?b)) p = recs_bytes rs @ put_at 4 (le16_enc (of_nat ?b)) ?s @ ?post"
    by (rule put_page [OF p]) (use ls lp b(2) in simp_all)
  then have "p' = put_at limit (le32_enc 0) (recs_bytes rs @ rec_bytes (rec_of ?s) @ ?post)"
    unfolding assms(5) rec_of_bytes(1) [OF ls(2)] ls(1) by simp
  then have p': "p' = recs_bytes rs @ rec_bytes (fresh_chunk env p limit) @ ?post"
    using put_fields(1) [OF refl, of rs 0 "rec_of ?s" ?post] lp(2) by simp
  show len: "rlen (fresh_chunk env p limit) = ?b" using rec_of_bytes(2) [OF ls(2)] ls(1) by simp
  show "take limit p' = take limit p" using p' assms(2) lp(2) by (simp add: page_recs_def)
  show lp': "length p' = length p" using p' len lp assms(3) by simp
  have "EXT2_DIR_REC_LEN (unat (r_nlen (fresh_chunk env p limit))) \<le> ?b" by (rule order_trans [OF REC_LEN_byte]) (use b(2) in simp)
  then have "rec_ok env (fresh_chunk env p limit)" using b(2,5) unfolding rec_ok_def len by simp
  moreover have "in_chunk env limit ?b" using in_chunk_start [OF assms(4) b(1)] by simp
  moreover have "take (limit + ?b) p' = recs_bytes (rs @ [fresh_chunk env p limit])" using p' len lp(2) by simp
  ultimately show "page_recs env p' (limit + ?b) (rs @ [fresh_chunk env p limit])"
    using assms(2,3) lp lp' len by (simp add: page_recs_def recs_ok_append)
qed

text \<open>An entry that is deleted joins the record before it in its chunk.\<close>

abbreviation joined :: "drec \<Rightarrow> drec \<Rightarrow> drec" where
  "joined q r \<equiv> q\<lparr>r_body := r_body q @ rec_bytes r\<rparr>"

lemma joined_facts:
  assumes "rec_ok env q" and "rec_ok env r"
  shows "rec_ok env (joined q r)" "rlen (joined q r) = rlen q + rlen r" "r_name (joined q r) = r_name q"
proof -
  show len: "rlen (joined q r) = rlen q + rlen r" by (simp add: rlen_def)
  show "rec_ok env (joined q r)" using assms unfolding rec_ok_def len by simp
  show "r_name (joined q r) = r_name q" using name_fits [OF assms(1)] by (simp add: r_name_def)
qed

lemma join_bytes:
  assumes "p = recs_bytes as @ (rec_bytes q @ rec_bytes r) @ post"
  shows "put_at (rsize (as @ [q])) (le32_enc 0) (put_at (rsize as + 4) (le16_enc (of_nat (rlen q + rlen r))) p) =
    recs_bytes as @ rec_bytes (joined q (r\<lparr>r_ino := 0\<rparr>)) @ post"
proof -
  let ?h = "\<lambda>x. rec_bytes (joined q x)"
  have 1: "put_at (rsize as + 4) (le16_enc (of_nat (rlen q + rlen r))) p = recs_bytes as @ ?h r @ post"
    unfolding merge_bytes [symmetric] by (rule put_page [OF assms]) (simp_all add: rlen_def)
  have h: "?h x = take (rlen q) (?h r) @ rec_bytes x" if "rlen x = rlen r" for x
    using that by (simp add: rec_bytes_def rlen_def)
  have "put_at (rlen q + 0) (le32_enc 0) (take (rlen q) (?h r) @ rec_bytes r) = take (rlen q) (?h r) @ put_at 0 (le32_enc 0) (rec_bytes r)"
    by (rule put_at_right) (simp_all add: rlen_def)
  then have 2: "put_at (rlen q) (le32_enc 0) (?h r) = ?h (r\<lparr>r_ino := 0\<rparr>)"
    using h [of r] h [of "r\<lparr>r_ino := 0\<rparr>"] by (simp add: put_rec)
  have "rlen q + 4 \<le> length (?h r)" by (simp add: rlen_def)
  then show ?thesis unfolding 1 using put_page [OF refl, of "rlen q" "le32_enc 0" "?h r" "rsize as + rlen q" as post] 2 by simp
qed

lemma prev_entry_walk:
  assumes "env_ok env"
  shows "page_recs env p limit (cs @ ds @ r # bs) \<Longrightarrow>
    prev_entry env p (rsize (cs @ ds)) pde (rsize cs) = Inr (if ds = [] then pde else Some (rsize (cs @ butlast ds)))"
proof (induction ds arbitrary: cs pde)
  case Nil
  then show ?case by (subst prev_entry.simps) simp
next
  case (Cons d ds)
  have pr: "page_recs env p limit (cs @ d # ds @ r # bs)" using Cons.prems by simp
  have "prev_entry env p (rsize ((cs @ [d]) @ ds)) (Some (rsize cs)) (rsize (cs @ [d])) =
      Inr (if ds = [] then Some (rsize cs) else Some (rsize ((cs @ [d]) @ butlast ds)))"
    using Cons.IH [of "cs @ [d]" "Some (rsize cs)"] pr by simp
  then show ?case using page_at [OF assms pr] by (subst prev_entry.simps) (simp add: add.assoc)
qed

text \<open>The records after a deletion; the start of the chunk is at \<open>rsize cs\<close>.\<close>

definition without :: "drec list \<Rightarrow> drec \<Rightarrow> drec list" where
  "without ds r = (if ds = [] then [r\<lparr>r_ino := 0\<rparr>] else butlast ds @ [joined (last ds) (r\<lparr>r_ino := 0\<rparr>)])"

lemma chunk_of:
  assumes "env_ok env" and "page_recs env p limit (as @ r # bs)"
  obtains cs ds where "as = cs @ ds" "chunk_start env (rsize as) = rsize cs" "rsize cs div s_blocksize env = rsize as div s_blocksize env"
proof -
  let ?b = "s_blocksize env"
  have "recs_ok env 0 as" using assms(2) by (simp add: page_recs_def recs_ok_append)
  moreover have "?b * (rsize as div ?b) \<le> rsize as" by (simp add: mult.commute)
  ultimately obtain cs ds where cs: "as = cs @ ds" "rsize cs = ?b * (rsize as div ?b)"
    using chunk_boundary [OF assms(1), of 0 as "?b * (rsize as div ?b)"] by auto
  have "rsize cs div ?b = rsize as div ?b" unfolding cs(2) using env_okD(1) [OF assms(1)] by simp
  moreover have "chunk_start env (rsize as) = rsize cs" by (simp only: chunk_bits(2) [OF assms(1)] cs(2))
  ultimately show ?thesis using that cs(1) by blast
qed

lemma delete_page:
  assumes "env_ok env" and "page_recs env p limit (cs @ ds @ r # bs)" and "rsize cs div s_blocksize env = rsize (cs @ ds) div s_blocksize env"
    and "p' = (if ds = [] then p else put_at (rsize (cs @ butlast ds) + 4) (le16_enc (of_nat (rlen (last ds) + rlen r))) p)"
  shows "page_recs env (put_at (rsize (cs @ ds)) (le32_enc 0) p') limit (cs @ without ds r @ bs)"
proof (cases "ds = []")
  case True
  have pr: "page_recs env p limit (cs @ r # bs)" using assms(2) True by simp
  note ok = page_rec [OF assms(1) pr]
  have "rec_ok env (r\<lparr>r_ino := 0\<rparr>)" using ok(1) by (simp add: rec_ok_def)
  then show ?thesis
    using page_replace [of env p limit cs "[r]" bs "[r\<lparr>r_ino := 0\<rparr>]"] pr ok(2) put_fields(1) [OF page_split [OF pr], of 0] assms(4) True
    by (simp add: without_def)
next
  case False
  then obtain es q where ds: "ds = es @ [q]" by (meson rev_exhaust)
  let ?j = "joined q (r\<lparr>r_ino := 0\<rparr>)" and ?b = "s_blocksize env"
  have pr: "page_recs env p limit ((cs @ es) @ q # r # bs)" "page_recs env p limit ((cs @ es @ [q]) @ r # bs)"
    using assms(2) ds by simp_all
  have p: "p = recs_bytes (cs @ es) @ (rec_bytes q @ rec_bytes r) @ (recs_bytes bs @ drop limit p)" using page_split [OF pr(1)] by simp
  have "rec_ok env (r\<lparr>r_ino := 0\<rparr>)" using page_rec(1) [OF assms(1) pr(2)] by (simp add: rec_ok_def)
  note j = joined_facts [OF page_rec(1) [OF assms(1) pr(1)] this]
  have "rsize cs div ?b \<le> rsize (cs @ es) div ?b" "rsize (cs @ es) div ?b \<le> rsize (cs @ ds) div ?b"
    by (intro div_le_mono; simp add: ds)+
  then have "rsize (cs @ es) div ?b = (rsize (cs @ ds) + rlen r - 1) div ?b"
    using assms(3) page_rec(2) [OF assms(1) pr(2)] by (simp add: in_chunk_def ds)
  then have "in_chunk env (rsize (cs @ es)) (rlen ?j)" unfolding in_chunk_def j(2) by (simp add: ds add.assoc)
  then have "page_recs env (recs_bytes (cs @ es) @ recs_bytes [?j] @ recs_bytes bs @ drop limit p) limit ((cs @ es) @ [?j] @ bs)"
    by (intro page_replace [where rs = "[q, r]", OF _ _ _ refl]) (use pr(1) j in simp_all)
  then show ?thesis using join_bytes [OF p] assms(4) ds by (simp add: without_def)
qed

section \<open>Searching for room\<close>

definition has_room :: "string \<Rightarrow> drec \<Rightarrow> bool" where
  "has_room name r \<longleftrightarrow>
     r_ino r = 0 \<and> EXT2_DIR_REC_LEN (length name) \<le> rlen r \<or>
     EXT2_DIR_REC_LEN (unat (r_nlen r)) + EXT2_DIR_REC_LEN (length name) \<le> rlen r"

lemma add_scan_step:
  assumes "env_ok env" and pr: "page_recs env p limit (as @ r # bs)"
    and fits: "rsize as + EXT2_DIR_REC_LEN (length name) \<le> page_size env" and "\<not> r_match name r"
  shows "add_scan env name p limit (rsize as) =
    (if has_room name r then Some (Inr (Some (rsize as, EXT2_DIR_REC_LEN (unat (r_nlen r)), rlen r, p)))
     else add_scan env name p limit (rsize (as @ [r])))"
proof -
  note at = page_at [OF assms(1) pr] and ok = page_rec [OF assms(1) pr]
  have small: "EXT2_DIR_REC_LEN (unat (r_nlen r)) mod 65536 = EXT2_DIR_REC_LEN (unat (r_nlen r))" "rlen r mod 65536 = rlen r"
    using REC_LEN_byte [of "r_nlen r"] ok(3) by simp_all
  have "rsize as \<noteq> limit" using ok(4) rlen_ge(2) [of r] by linarith
  then show ?thesis using fits assms(4)
    by (subst add_scan.simps) (simp only: Let_def at(1,3,4,5) match_iff [OF assms(1) pr] small has_room_def, simp)
qed

lemma add_scan_rest:
  assumes "env_ok env" and "name_ok name" and lim: "limit = page_size env \<or> limit + s_blocksize env \<le> page_size env"
  shows "page_recs env p limit (as @ bs) \<Longrightarrow> \<forall>r \<in> set bs. \<not> r_match name r \<Longrightarrow>
    add_scan env name p limit (rsize as) = Some (Inr (
      case dropWhile (\<lambda>r. \<not> has_room name r) bs of
        r # _ \<Rightarrow> Some (rsize (as @ takeWhile (\<lambda>r. \<not> has_room name r) bs), EXT2_DIR_REC_LEN (unat (r_nlen r)), rlen r, p)
      | [] \<Rightarrow> if limit = page_size env then None
              else Some (limit, 0, s_blocksize env,
                put_at limit (le32_enc 0) (put_at (limit + 4) (le16_enc (of_nat (s_blocksize env))) p))))"
proof (induction bs arbitrary: as)
  case Nil
  have "s_blocksize env < 65536" using env_okD(3,4) [OF assms(1)] by simp
  moreover have "EXT2_DIR_REC_LEN (length name) \<le> s_blocksize env" "0 < EXT2_DIR_REC_LEN (length name)"
    using name_room [OF assms(2)] env_okD(2) [OF assms(1)] by simp_all
  ultimately show ?case using page_limit [OF Nil(1)] lim
    by (subst add_scan.simps) (auto simp: to_disk [OF assms(1)] ext2_chunk_size_def Let_def)
next
  case (Cons r bs)
  have next_rec: "page_recs env p limit ((as @ [r]) @ bs)" "\<forall>r \<in> set bs. \<not> r_match name r" "\<not> r_match name r" using Cons.prems by simp_all
  note IH = Cons.IH [OF next_rec(1,2)] and ok = page_rec [OF assms(1) Cons.prems(1)]
  show ?case
  proof (cases "rsize as + EXT2_DIR_REC_LEN (length name) \<le> page_size env")
    case True
    then show ?thesis using add_scan_step [OF assms(1) Cons.prems(1) True next_rec(3)] IH
      by (cases "has_room name r"; cases "dropWhile (\<lambda>r. \<not> has_room name r) bs") (simp_all add: add.assoc del: dropWhile_eq_Nil_conv)
  next
    case False
    have "\<not> has_room name x" if "x \<in> set (r # bs)" for x
      using rec_later [OF assms(1) Cons.prems(1) that] False Cons.prems(1) by (auto simp: has_room_def page_recs_def)
    then have none: "dropWhile (\<lambda>r. \<not> has_room name r) (r # bs) = []" by (meson dropWhile_eq_Nil_conv)
    have "EXT2_DIR_REC_LEN (length name) \<le> s_blocksize env" using name_room(2) [OF assms(2)] env_okD(2) [OF assms(1)] by simp
    then have "limit = page_size env" using lim False ok(4) by linarith
    then show ?thesis using False none by (subst add_scan.simps) (simp add: Let_def)
  qed
qed

end
