(* ===== verification/Ext2_Lookup.thy ===== *)
theory Ext2_Lookup
  imports Ext2_Update
begin

unbundle bit_operations_syntax

text \<open>
  Directories as lists of pages of records, and the search in them. The invariant of a directory
  says that every page holds well-formed records up to the size of the directory, that names in use
  are not empty and that no name occurs twice; the search then is the lookup in the list of the
  entries in use.
\<close>

section \<open>The representation of a directory\<close>

text \<open>
  The device: pages can be read, and preparing a write allocates the blocks it needs, which
  the inode counts.
\<close>

definition io_ok :: "ext2_env \<Rightarrow> bool" where
  "io_ok env \<longleftrightarrow> (\<forall>n. read_mapping_page env n = None) \<and>
     (\<forall>k pos len. k \<le> blocks_after env k pos len \<and> (pos \<le> 512 * k \<longrightarrow> pos + len \<le> 512 * blocks_after env k pos len))"

definition plimit :: "ext2_env \<Rightarrow> dinode \<Rightarrow> nat \<Rightarrow> nat" where
  "plimit env dir n = min (page_size env) (i_size dir - n * page_size env)"

definition dir_rep :: "ext2_env \<Rightarrow> dinode \<Rightarrow> drec list list \<Rightarrow> bool" where
  "dir_rep env dir rss \<longleftrightarrow>
     length rss = dir_pages env dir \<and> s_blocksize env dvd i_size dir \<and> i_size dir + page_size env < 2 ^ 32 \<and>
     i_size dir \<le> 512 * i_blocks dir \<and>
     (\<forall>n. length (pdata (pages dir n)) = page_size env \<and> \<not> PageError (pages dir n)) \<and>
     (\<forall>n < length rss. page_recs env (pdata (pages dir n)) (plimit env dir n) (rss ! n))"

text \<open>Directories that differ in what the page cache knows only.\<close>

definition sim :: "dinode \<Rightarrow> dinode \<Rightarrow> bool" where
  "sim dir dir' \<longleftrightarrow>
     i_ino dir' = i_ino dir \<and> i_mode dir' = i_mode dir \<and> i_nlink dir' = i_nlink dir \<and> i_size dir' = i_size dir \<and> i_blocks dir' = i_blocks dir \<and>
     i_version dir' = i_version dir \<and> i_mtime dir' = i_mtime dir \<and> i_ctime dir' = i_ctime dir \<and> i_btree dir' = i_btree dir \<and>
     (\<forall>n. pdata (pages dir' n) = pdata (pages dir n) \<and> \<not> PageError (pages dir' n))"

lemma sim_trans: "sim a b \<Longrightarrow> sim b c \<Longrightarrow> sim a c"
  by (simp add: sim_def)

lemma sim_fields:
  assumes "sim d d'"
  shows "i_ino d' = i_ino d" "i_mode d' = i_mode d" "i_size d' = i_size d" "i_blocks d' = i_blocks d" "i_version d' = i_version d"
    "pdata (pages d' n) = pdata (pages d n)" "\<not> PageError (pages d' n)"
  using assms by (simp_all add: sim_def)

lemma sim_rep: "sim d d' \<Longrightarrow> dir_rep env d rss \<Longrightarrow> dir_rep env d' rss"
  by (auto simp: sim_def dir_rep_def plimit_def dir_pages_def)

lemma sim_lookup: "sim d d' \<Longrightarrow> sim d (d'\<lparr>i_dir_start_lookup := x\<rparr>)"
  by (auto simp: sim_def)

lemma sim_sizes:
  "sim d d' \<Longrightarrow> dir_pages env d' = dir_pages env d" "sim d d' \<Longrightarrow> ext2_last_byte env d' n = ext2_last_byte env d n"
  "sim d d' \<Longrightarrow> plimit env d' n = plimit env d n"
  by (auto simp: sim_def dir_pages_def ext2_last_byte_def plimit_def)

section \<open>Reading pages\<close>

lemma dir_pages_less:
  assumes "0 < page_size env"
  shows "n < dir_pages env dir \<longleftrightarrow> n * page_size env < i_size dir"
proof -
  have "n < dir_pages env dir \<longleftrightarrow> (n + 1) * page_size env \<le> i_size dir + page_size env - 1"
    unfolding dir_pages_def using assms by (simp add: less_eq_div_iff_mult_less_eq Suc_le_eq [symmetric])
  then show ?thesis using assms by auto
qed

lemma last_byte_eq:
  assumes "i_size dir < 2 ^ 32" and "n * page_size env \<le> i_size dir"
  shows "ext2_last_byte env dir n = plimit env dir n"
proof -
  have "unat ((of_nat (i_size dir) :: 32 word) - of_nat (n * page_size env)) = i_size dir - n * page_size env"
  proof -
    have "(of_nat (i_size dir) :: 32 word) - of_nat (n * page_size env) = of_nat (i_size dir - n * page_size env)"
      using assms(2) by (simp add: of_nat_diff)
    moreover have "i_size dir - n * page_size env < 2 ^ LENGTH(32)" using assms(1) by simp
    ultimately show ?thesis by (simp only: unat_of_nat mod_less)
  qed
  then show ?thesis by (simp add: ext2_last_byte_def plimit_def Let_def)
qed

lemma and_chunk: "env_ok env \<Longrightarrow> m AND (ext2_chunk_size env - 1) = m mod s_blocksize env"
proof -
  assume "env_ok env"
  then obtain k where "s_blocksize env = 2 ^ k" by (auto simp: env_ok_def)
  then show ?thesis using take_bit_eq_mask [of k m] by (simp add: ext2_chunk_size_def take_bit_eq_mod mask_eq_exp_minus_1)
qed

lemma check_page_ok:
  assumes "env_ok env" and "dir_rep env dir rss" and "n < dir_pages env dir \<or> n * page_size env = i_size dir"
  shows "snd (ext2_check_page env dir n)"
proof (cases "n * page_size env = i_size dir")
  case True
  then have "i_size dir div page_size env = n" "i_size dir mod page_size env = 0"
    using assms(1) unfolding True [symmetric] by (simp_all add: env_ok_def)
  then show ?thesis by (simp add: ext2_check_page_def Let_def)
next
  case False
  have pos: "0 < page_size env" using assms(1) by (simp add: env_ok_def)
  have n: "n < length rss" "n * page_size env < i_size dir" using assms False dir_pages_less [OF pos] by (auto simp: dir_rep_def)
  let ?lim = "if i_size dir div page_size env = n then i_size dir mod page_size env else page_size env"
  have "plimit env dir n = ?lim"
  proof (cases "i_size dir div page_size env = n")
    case True
    then have "i_size dir - n * page_size env = i_size dir mod page_size env" by (metis minus_div_mult_eq_mod)
    then show ?thesis using True mod_less_divisor [OF pos, of "i_size dir"] by (simp add: plimit_def)
  next
    case nf: False
    have "n \<le> i_size dir div page_size env" using n(2) pos by (simp add: less_eq_div_iff_mult_less_eq)
    then have "Suc n \<le> i_size dir div page_size env" using nf by simp
    then have "Suc n * page_size env \<le> i_size dir" using pos by (simp only: less_eq_div_iff_mult_less_eq)
    then show ?thesis using nf by (simp add: plimit_def)
  qed
  then have "page_recs env (pdata (pages dir n)) ?lim (rss ! n)" using assms(2) n by (auto simp: dir_rep_def)
  then have loop: "ext2_check_loop env (pdata (pages dir n)) ?lim 0"
    using check_loop_iff [OF assms(1)] by (metis page_recs_def)
  have "s_blocksize env dvd i_size dir mod page_size env"
    using assms(1,2) by (simp add: dir_rep_def env_ok_def dvd_mod)
  then show ?thesis using loop unfolding ext2_check_page_def Let_def and_chunk [OF assms(1)]
    by (auto simp: mod_eq_0_iff_dvd split: if_splits)
qed

lemma check_page_flags: "fst (ext2_check_page env dir n) = set_flags n (snd (ext2_check_page env dir n)) dir"
  by (simp only: ext2_check_page_def Let_def fst_conv snd_conv)

lemma get_page_ok:
  assumes "env_ok env" and "io_ok env" and "dir_rep env dir rss" and "n < dir_pages env dir \<or> n * page_size env = i_size dir"
  shows "\<exists>dir'. ext2_get_page env dir n = (dir', Inr (pdata (pages dir n))) \<and> sim dir dir'"
proof -
  have noerr: "\<not> PageError (pages dir m)" for m using assms(3) by (simp add: dir_rep_def)
  have "sim dir (set_flags n True dir)" "sim dir dir" using noerr by (simp_all add: sim_def set_flags_def)
  moreover have "ext2_check_page env dir n = (set_flags n True dir, True)"
    using check_page_ok [OF assms(1,3,4)] check_page_flags [of env dir n] by (intro prod_eqI) simp_all
  ultimately show ?thesis using assms(2) noerr
    by (auto simp: ext2_get_page_def io_ok_def set_flags_def)
qed

section \<open>Searching\<close>

text \<open>Where the record of a name lies.\<close>

definition found_at :: "drec list list \<Rightarrow> string \<Rightarrow> nat \<times> nat \<Rightarrow> bool" where
  "found_at rss name at \<longleftrightarrow>
     (case at of (n, de) \<Rightarrow> n < length rss \<and> (\<exists>as r bs. rss ! n = as @ r # bs \<and> de = rsize as \<and> r_match name r))"

text \<open>The pages that the loop visits from \<open>n\<close> on.\<close>

definition visits :: "nat \<Rightarrow> nat \<Rightarrow> nat \<Rightarrow> nat list" where
  "visits np start n = (if n < start then [n..<start] else [n..<np] @ [0..<start])"

lemma visits_step:
  assumes "n < np" and "start < np"
  shows "visits np start n =
    n # (let n' = if n + 1 \<ge> np then 0 else n + 1 in if n' \<noteq> start then visits np start n' else [])"
  using assms by (auto simp: visits_def Let_def upt_conv_Cons)

lemma find_page:
  assumes "env_ok env" and "page_recs env p limit rs"
  shows "case find_in_page env name p limit 0 of
      Inl _ \<Rightarrow> False
    | Inr None \<Rightarrow> \<forall>r \<in> set rs. \<not> r_match name r
    | Inr (Some de) \<Rightarrow> \<exists>as r bs. rs = as @ r # bs \<and> de = rsize as \<and> r_match name r"
proof (cases "\<exists>r \<in> set rs. r_match name r")
  case True
  let ?as = "takeWhile (\<lambda>r. \<not> r_match name r) rs" and ?bs = "dropWhile (\<lambda>r. \<not> r_match name r) rs"
  have "?bs \<noteq> []" using True by auto
  then obtain r bs where r: "?bs = r # bs" by (cases ?bs) auto
  then have "r_match name r" by (metis hd_dropWhile list.sel(1) list.simps(3))
  moreover have "rs = ?as @ r # bs" using r by (metis takeWhile_dropWhile_id)
  ultimately show ?thesis using True by (auto simp: find_in_page_recs [OF assms])
qed (auto simp: find_in_page_recs [OF assms])

lemma next_page:
  assumes "env_ok env" and "dir_rep env dir rss" and "n < dir_pages env dir"
  shows "n \<le> i_blocks dir * 512 div page_size env"
proof -
  have pos: "0 < page_size env" using assms(1) by (simp add: env_ok_def)
  have "n * page_size env \<le> i_blocks dir * 512" using assms(2,3) dir_pages_less [OF pos] by (auto simp: dir_rep_def)
  then show ?thesis using pos by (simp add: less_eq_div_iff_mult_less_eq)
qed

lemma find_pages_ok:
  assumes "env_ok env" and "io_ok env" and "np = dir_pages env dir" and "start < np"
  shows "dir_rep env d rss \<Longrightarrow> sim dir d \<Longrightarrow> n < np \<Longrightarrow>
    \<exists>d' res. find_pages env name np start n d = Some (d', res) \<and> sim dir d' \<and>
      (case res of None \<Rightarrow> \<forall>m \<in> set (visits np start n). \<forall>r \<in> set (rss ! m). \<not> r_match name r
       | Some at \<Rightarrow> found_at rss name at)"
proof (induction "length (visits np start n)" arbitrary: n d rule: less_induct)
  case less
  have np: "np = dir_pages env d" "np = length rss" using sim_sizes(1) [OF less.prems(2)] assms(3) less.prems(1) by (simp_all add: dir_rep_def)
  have pos: "0 < page_size env" using assms(1) by (simp add: env_ok_def)
  obtain d1 where d1: "ext2_get_page env d n = (d1, Inr (pdata (pages d n)))" "sim d d1"
    using get_page_ok [OF assms(1,2) less.prems(1)] less.prems(3) np by blast
  have sim1: "sim dir d1" using sim_trans [OF less.prems(2) d1(2)] .
  have rep1: "dir_rep env d1 rss" using sim_rep [OF d1(2) less.prems(1)] .
  have "ext2_last_byte env d1 n = plimit env d n"
    using last_byte_eq [of d n env] dir_pages_less [OF pos, of n d] less.prems np sim_sizes(2) [OF d1(2), of env n] by (simp add: dir_rep_def)
  moreover have "page_recs env (pdata (pages d n)) (plimit env d n) (rss ! n)" using less.prems np by (simp add: dir_rep_def)
  note pg = find_page [OF assms(1) this, of name]
  let ?n' = "if n + 1 \<ge> np then 0 else n + 1"
  have n': "?n' < np" using assms(4) less.prems(3) by simp
  have blocks: "\<not> ?n' > i_blocks d1 * 512 div page_size env"
    using next_page [OF assms(1) rep1, of ?n'] n' np sim_sizes(1) [OF d1(2)] by simp
  have vis: "visits np start n = n # (if ?n' \<noteq> start then visits np start ?n' else [])"
    using visits_step [OF less.prems(3) assms(4)] by (simp add: Let_def)
  show ?case
  proof (cases "find_in_page env name (pdata (pages d n)) (plimit env d n) 0")
    case (Inr res)
    show ?thesis
    proof (cases res)
      case (Some de)
      then have "found_at rss name (n, de)" using pg Inr less.prems(3) np by (auto simp: found_at_def)
      then show ?thesis using Some Inr d1 sim_lookup [OF sim1, of n] calculation
        by (subst find_pages.simps) simp
    next
      case None
      have none: "\<forall>r \<in> set (rss ! n). \<not> r_match name r" using pg Inr None by simp
      show ?thesis
      proof (cases "?n' = start")
        case True
        then show ?thesis using None Inr d1 blocks calculation sim1 none vis by (subst find_pages.simps) (simp add: Let_def)
      next
        case False
        then have "length (visits np start ?n') < length (visits np start n)" using vis by simp
        from less.hyps [OF this rep1 sim1 n'] show ?thesis using None Inr d1 blocks calculation none vis False
          by (subst find_pages.simps) (fastforce simp: Let_def split: option.splits)
      qed
    qed
  qed (use pg in simp)
qed

lemma find_entry_ok:
  assumes "env_ok env" and "io_ok env" and "dir_rep env dir rss"
  shows "\<exists>d' res. ext2_find_entry env dir name = Some (d', res) \<and> sim dir d' \<and>
    (case res of None \<Rightarrow> \<forall>r \<in> set (concat rss). \<not> r_match name r | Some at \<Rightarrow> found_at rss name at)"
proof (cases "dir_pages env dir = 0")
  case True
  then have "rss = []" "sim dir dir" using assms(3) by (simp_all add: dir_rep_def sim_def)
  then show ?thesis using True by (simp add: ext2_find_entry_def)
next
  case False
  let ?np = "dir_pages env dir"
  let ?start = "if i_dir_start_lookup dir \<ge> ?np then 0 else i_dir_start_lookup dir"
  have start: "?start < ?np" using False by simp
  have np: "?np = length rss" and "sim dir dir" using assms(3) by (simp_all add: dir_rep_def sim_def)
  obtain d' res where r: "find_pages env name ?np ?start ?start dir = Some (d', res)" "sim dir d'"
    "case res of None \<Rightarrow> \<forall>m \<in> set (visits ?np ?start ?start). \<forall>r \<in> set (rss ! m). \<not> r_match name r | Some at \<Rightarrow> found_at rss name at"
    using find_pages_ok [OF assms(1,2) refl start assms(3) \<open>sim dir dir\<close> start] by blast
  have "set (visits ?np ?start ?start) = {0..<length rss}" using start np by (auto simp: visits_def)
  then have "case res of None \<Rightarrow> \<forall>r \<in> set (concat rss). \<not> r_match name r | Some at \<Rightarrow> found_at rss name at"
    using r(3) by (cases res) (simp_all add: all_set_conv_all_nth [of rss])
  then show ?thesis using r False by (simp add: ext2_find_entry_def Let_def)
qed

section \<open>The entries in use\<close>

definition live :: "drec list \<Rightarrow> (string \<times> 32 word \<times> 8 word) list" where
  "live rs = map (\<lambda>r. (r_name r, r_ino r, r_type r)) (filter (\<lambda>r. r_ino r \<noteq> 0) rs)"

lemma live_append [simp]: "live (as @ bs) = live as @ live bs"
  by (simp add: live_def)

lemma live_simps: "live [] = []" "live (r # rs) = (if r_ino r = 0 then live rs else (r_name r, r_ino r, r_type r) # live rs)"
  by (simp_all add: live_def)

text \<open>The invariant of a directory with a given list of entries.\<close>

definition dir_inv :: "ext2_env \<Rightarrow> dinode \<Rightarrow> drec list list \<Rightarrow> bool" where
  "dir_inv env dir rss \<longleftrightarrow> dir_rep env dir rss \<and> distinct (map fst (live (concat rss))) \<and>
     (\<forall>r \<in> set (concat rss). r_ino r \<noteq> 0 \<longrightarrow> r_nlen r \<noteq> 0)"

lemma dir_inv_sim: "dir_inv env d rss \<Longrightarrow> sim d d' \<Longrightarrow> dir_inv env d' rss"
  by (auto simp: dir_inv_def sim_rep)

text \<open>What a lookup returns: the inode and the type of the entry.\<close>

definition dir_lookup :: "ext2_env \<Rightarrow> dinode \<Rightarrow> string \<Rightarrow> (32 word \<times> 8 word) option" where
  "dir_lookup env dir name =
     (case ext2_find_entry env dir name of
        Some (dir, Some (n, de)) \<Rightarrow> Some (de_ino (pdata (pages dir n)) de, de_type (pdata (pages dir n)) de)
      | _ \<Rightarrow> None)"

lemma found_fields:
  assumes "env_ok env" and "dir_rep env dir rss" and "found_at rss name (n, de)"
  obtains as r bs where "n < length rss" "rss ! n = as @ r # bs" "de = rsize as" "r_match name r"
    "page_recs env (pdata (pages dir n)) (plimit env dir n) (as @ r # bs)"
    "de_ino (pdata (pages dir n)) de = r_ino r" "de_type (pdata (pages dir n)) de = r_type r"
proof -
  obtain as r bs where r: "n < length rss" "rss ! n = as @ r # bs" "de = rsize as" "r_match name r"
    using assms(3) by (auto simp: found_at_def)
  then have pr: "page_recs env (pdata (pages dir n)) (plimit env dir n) (as @ r # bs)" using assms(2) by (auto simp: dir_rep_def)
  show ?thesis by (rule that [OF r pr]) (simp_all only: r(3) page_at(4,6) [OF assms(1) pr])
qed

lemma live_match: "(name, v) \<in> set (live rs) \<longleftrightarrow> (\<exists>r \<in> set rs. r_match name r \<and> v = (r_ino r, r_type r))"
  by (auto simp: live_def r_match_def)

lemma dir_lookup_map:
  assumes "env_ok env" and "io_ok env" and "dir_inv env dir rss"
  shows "dir_lookup env dir name = map_of (live (concat rss)) name"
proof -
  have rep: "dir_rep env dir rss" and dist: "distinct (map fst (live (concat rss)))" using assms(3) by (simp_all add: dir_inv_def)
  obtain d' res where r: "ext2_find_entry env dir name = Some (d', res)" "sim dir d'"
    "case res of None \<Rightarrow> \<forall>r \<in> set (concat rss). \<not> r_match name r | Some at \<Rightarrow> found_at rss name at"
    using find_entry_ok [OF assms(1,2) rep] by blast
  show ?thesis
  proof (cases res)
    case None
    then have "name \<notin> fst ` set (live (concat rss))" using r(3) live_match [of name _ "concat rss"] by fastforce
    then have "map_of (live (concat rss)) name = None" by (simp add: map_of_eq_None_iff)
    then show ?thesis using None r(1) by (simp add: dir_lookup_def)
  next
    case (Some at)
    obtain n de where at: "at = (n, de)" by (cases at)
    have "found_at rss name (n, de)" using r(3) Some at by simp
    from found_fields [OF assms(1) sim_rep [OF r(2) rep] this] obtain as x bs
      where x: "n < length rss" "rss ! n = as @ x # bs" "r_match name x"
        "de_ino (pdata (pages d' n)) de = r_ino x" "de_type (pdata (pages d' n)) de = r_type x" by metis
    have "x \<in> set (rss ! n)" using x(2) by simp
    then have "x \<in> set (concat rss)" using nth_mem [OF x(1)] by auto
    then have "(name, r_ino x, r_type x) \<in> set (live (concat rss))" using x(3) live_match by blast
    then have "map_of (live (concat rss)) name = Some (r_ino x, r_type x)" using dist by (simp add: map_of_is_SomeI)
    then show ?thesis using Some at r(1) x(4,5) by (simp only: dir_lookup_def option.case prod.case)
  qed
qed

end
