(* ===== verification/Ext2_Change.thy ===== *)
theory Ext2_Change
  imports Ext2_Lookup
begin

text \<open>
  Adding, deleting and redirecting entries: each operation keeps the invariant of the directory
  and changes the lookup at one name only.
\<close>

section \<open>Changing one page\<close>

text \<open>The directory after the page has been written, without and with a new chunk.\<close>

definition stored :: "dinode \<Rightarrow> nat \<Rightarrow> string \<Rightarrow> nat \<Rightarrow> dinode \<Rightarrow> bool" where
  "stored d n q grow d' \<longleftrightarrow> i_size d' = i_size d + grow \<and> pages d' = pages (set_data n q d) \<and> i_blocks d \<le> i_blocks d'"

lemma pages_set_data: "pages (set_data n q d) m = (if m = n then (pages d n)\<lparr>pdata := q\<rparr> else pages d m)"
  by (simp add: set_data_def)

lemma stored_rep:
  assumes "dir_rep env d rss" and "n < length rss" and "page_recs env q (plimit env d n) rs" and "stored d n q 0 d'"
  shows "dir_rep env d' (rss[n := rs])"
proof -
  have "plimit env d' m = plimit env d m" "dir_pages env d' = dir_pages env d" for m
    using assms(4) by (simp_all add: stored_def plimit_def dir_pages_def)
  moreover have "length q = page_size env" using assms(3) by (simp add: page_recs_def)
  ultimately show ?thesis using assms by (auto simp: dir_rep_def stored_def pages_set_data nth_list_update)
qed

definition page_upd :: "drec list list \<Rightarrow> nat \<Rightarrow> drec list \<Rightarrow> drec list list" where
  "page_upd rss n rs = (if n < length rss then rss[n := rs] else rss @ [rs])"

lemma grown_rep:
  assumes "env_ok env" and "dir_rep env d rss" and n: "n * page_size env + limit = i_size d" "limit + s_blocksize env \<le> page_size env"
    and "page_recs env q (limit + s_blocksize env) rs" and "stored d n q (s_blocksize env) d'"
    and big: "i_size d + s_blocksize env + page_size env < 2 ^ 32" "i_size d' \<le> 512 * i_blocks d'"
  shows "dir_rep env d' (page_upd rss n rs)" "n \<le> length rss"
proof -
  let ?p = "page_size env" and ?b = "s_blocksize env"
  note b = env_okD [OF assms(1)]
  have pos: "0 < ?p" using assms(1) by (simp add: env_ok_def)
  have size: "i_size d' = n * ?p + limit + ?b" "i_size d = n * ?p + limit" using assms(6) n(1) by (simp_all add: stored_def)
  have len: "length rss = dir_pages env d" using assms(2) by (simp add: dir_rep_def)
  have np: "dir_pages env d' = Suc n"
  proof -
    have "n < dir_pages env d'" using dir_pages_less [OF pos, of n d'] size b(1) by simp
    moreover have "\<not> Suc n < dir_pages env d'" using dir_pages_less [OF pos, of "Suc n" d'] size n(2) by simp
    ultimately show ?thesis by simp
  qed
  show nle: "n \<le> length rss" using dir_pages_less [OF pos, of "n - 1" d] size pos len by (cases n) auto
  have lelen: "length rss \<le> Suc n"
    using dir_pages_less [OF pos, of "Suc n" d] size n(2) len b(1) by (simp add: not_less [symmetric])
  have lims: "plimit env d' m = plimit env d m" if "m < n" for m
  proof -
    have "Suc m * ?p \<le> n * ?p" using that by (intro mult_le_mono1) simp
    then show ?thesis using size by (simp add: plimit_def)
  qed
  have limn: "plimit env d' n = limit + ?b" using size n(2) by (simp add: plimit_def)
  have rest: "s_blocksize env dvd i_size d'" "i_size d' + ?p < 2 ^ 32"
    "\<And>m. length (pdata (pages d' m)) = ?p \<and> \<not> PageError (pages d' m)"
    using assms(2,5,6) size big by (auto simp: dir_rep_def stored_def pages_set_data page_recs_def)
  have old: "page_recs env (pdata (pages d' m)) (plimit env d' m) (rss ! m)" if "m < n" for m
    using assms(2,6) lims [OF that] that nle by (simp add: dir_rep_def stored_def pages_set_data)
  have new: "page_recs env (pdata (pages d' n)) (plimit env d' n) rs"
    using assms(5,6) limn by (simp add: stored_def pages_set_data)
  show "dir_rep env d' (page_upd rss n rs)"
  proof (cases "n < length rss")
    case True
    then show ?thesis using lelen np rest old new big(2) by (auto simp: dir_rep_def page_upd_def nth_list_update less_Suc_eq)
  next
    case False
    then have "n = length rss" using nle by simp
    then show ?thesis using np rest old new big(2) by (auto simp: dir_rep_def page_upd_def nth_append less_Suc_eq)
  qed
qed

section \<open>Changing the entries\<close>

lemma live_upd:
  assumes "n < length rss" and "rss ! n = as @ xs @ bs"
  shows "mset (live (concat (rss[n := as @ ys @ bs]))) + mset (live xs) = mset (live (concat rss)) + mset (live ys)"
    "set (concat (rss[n := as @ ys @ bs])) \<subseteq> set (concat rss) \<union> set ys"
proof -
  have r: "rss = take n rss @ (as @ xs @ bs) # drop (Suc n) rss" using id_take_nth_drop [OF assms(1)] assms(2) by simp
  have u: "rss[n := as @ ys @ bs] = take n rss @ (as @ ys @ bs) # drop (Suc n) rss" by (rule upd_conv_take_nth_drop [OF assms(1)])
  show "mset (live (concat (rss[n := as @ ys @ bs]))) + mset (live xs) = mset (live (concat rss)) + mset (live ys)"
    unfolding u by (subst (2) r) (simp add: ac_simps)
  have "set (concat rss) = set (concat (take n rss)) \<union> set (as @ xs @ bs) \<union> set (concat (drop (Suc n) rss))"
    by (subst r) auto
  then show "set (concat (rss[n := as @ ys @ bs])) \<subseteq> set (concat rss) \<union> set ys" unfolding u by auto
qed

text \<open>Lists of entries with one entry more or less.\<close>

lemma entries_more:
  assumes "distinct (map fst xs)" and "mset ys = mset xs + {#(k, v)#}" and "k \<notin> fst ` set xs"
  shows "distinct (map fst ys)" "map_of ys = (map_of xs)(k \<mapsto> v)"
proof -
  have eq: "mset ys = mset ((k, v) # xs)" using assms(2) by simp
  then have "mset (map fst ys) = mset (map fst ((k, v) # xs))" by (metis mset_map)
  then show dist: "distinct (map fst ys)" using assms(1,3) mset_eq_imp_distinct_iff by fastforce
  have "set ys = set ((k, v) # xs)" using mset_eq_setD [OF eq] .
  moreover have "distinct (map fst ((k, v) # xs))" using assms(1,3) by simp
  ultimately have "map_of ys = map_of ((k, v) # xs)" using map_of_inject_set [OF dist] by blast
  then show "map_of ys = (map_of xs)(k \<mapsto> v)" by simp
qed

lemma entries_less:
  assumes "distinct (map fst xs)" and "mset xs = mset ys + {#(k, v)#}"
  shows "distinct (map fst ys)" "map_of ys = (map_of xs)(k := None)" "k \<notin> fst ` set ys" "(k, v) \<in> set xs"
proof -
  have eq: "mset xs = mset ((k, v) # ys)" using assms(2) by simp
  then have "mset (map fst xs) = mset (map fst ((k, v) # ys))" by (metis mset_map)
  then have "distinct (map fst ((k, v) # ys))" using assms(1) mset_eq_imp_distinct_iff by blast
  then show d: "distinct (map fst ys)" "k \<notin> fst ` set ys" by simp_all
  from entries_more(2) [OF d(1) assms(2) d(2)] show "map_of ys = (map_of xs)(k := None)"
    using d(2) by (auto simp: map_of_eq_None_iff)
  show "(k, v) \<in> set xs" using mset_eq_setD [OF eq] by simp
qed

text \<open>A change that leaves the entries where they are.\<close>

definition keeps :: "drec list list \<Rightarrow> drec list list \<Rightarrow> bool" where
  "keeps rss rss' \<longleftrightarrow> (\<forall>nm at. found_at rss nm at \<longrightarrow> found_at rss' nm at)"

lemma keeps_record:
  assumes "n < length rss" and "rss ! n = as @ r # bs" and "rsize xs = rlen r" and "\<And>nm. r_match nm r \<Longrightarrow> xs \<noteq> [] \<and> r_match nm (hd xs)"
  shows "keeps rss (rss[n := as @ xs @ bs])"
  unfolding keeps_def
proof (intro allI impI)
  fix nm at assume found: "found_at rss nm at"
  obtain m de where at: "at = (m, de)" by (cases at)
  obtain cs x ds where x: "m < length rss" "rss ! m = cs @ x # ds" "de = rsize cs" "r_match nm x"
    using found at by (auto simp: found_at_def)
  show "found_at (rss[n := as @ xs @ bs]) nm at"
  proof (cases "m = n")
    case True
    have eq: "cs @ x # ds = as @ r # bs" using x(2) assms(2) True by simp
    consider us where "as = cs @ x # us" | "cs = as" "x = r" | us where "cs = as @ r # us" "bs = us @ x # ds"
      using eq by (auto simp: append_eq_append_conv2 append_eq_Cons_conv Cons_eq_append_conv)
    then have "\<exists>cs' x' ds'. as @ xs @ bs = cs' @ x' # ds' \<and> rsize cs' = rsize cs \<and> r_match nm x'"
    proof cases
      case (1 us)
      then show ?thesis using x(4) by (intro exI [of _ cs] exI [of _ x] exI [of _ "us @ xs @ bs"]) simp
    next
      case 2
      then obtain y ys where "xs = y # ys" "r_match nm y" using assms(4) [of nm] x(4) by (cases xs) auto
      then show ?thesis using 2 by (intro exI [of _ as] exI [of _ y] exI [of _ "ys @ bs"]) simp
    next
      case (3 us)
      then show ?thesis using x(4) assms(3) by (intro exI [of _ "as @ xs @ us"] exI [of _ x] exI [of _ ds]) simp
    qed
    then obtain cs' x' ds' where "as @ xs @ bs = cs' @ x' # ds'" "rsize cs' = rsize cs" "r_match nm x'" by blast
    then show ?thesis using at True x(1,3) unfolding found_at_def
      by (simp, intro exI [of _ cs'] exI [of _ x']) auto
  qed (use at x in \<open>auto simp: found_at_def\<close>)
qed

lemma keeps_new:
  assumes "rs = (if n < length rss then rss ! n else [])" and "n \<le> length rss"
  shows "keeps rss (page_upd rss n (rs @ xs))"
  using assms unfolding keeps_def page_upd_def found_at_def by (fastforce simp: nth_append nth_list_update)

section \<open>Adding an entry\<close>

lemma commit_eq:
  "ext2_commit_chunk env d pos len = (d\<lparr>i_size := max (i_size d) (pos + len), i_version := i_version d + 1\<rparr>, write_sync env)"
  by (simp add: ext2_commit_chunk_def Let_def max_def)

text \<open>Splitting and filling a page with room at a record; \<open>xs\<close> is what becomes of the record.\<close>

definition fits_entry :: "ext2_env \<Rightarrow> string \<Rightarrow> 32 word \<Rightarrow> 16 word \<Rightarrow> drec list \<Rightarrow> drec \<Rightarrow> bool" where
  "fits_entry env name ino mode xs r \<longleftrightarrow>
     mset (live xs) = mset (live [r]) + {#(name, ino, entry_type env mode)#} \<and> (\<forall>x \<in> set xs. r_ino x \<noteq> 0 \<longrightarrow> r_nlen x \<noteq> 0) \<and>
     rsize xs = rlen r \<and> (\<forall>nm. r_match nm r \<longrightarrow> xs \<noteq> [] \<and> r_match nm (hd xs))"

lemma add_in_page:
  assumes "env_ok env" and "page_recs env p limit (as @ r # bs)" and "has_room name r" and "r_ino r \<noteq> 0 \<longrightarrow> r_nlen r \<noteq> 0"
    and name: "name_ok name" and ino: "ino \<noteq> 0" "unat ino \<le> s_inodes_count env"
  shows "\<exists>p1 de1 xs. split_entry env p (rsize as) (EXT2_DIR_REC_LEN (unat (r_nlen r))) (rlen r) = Inr (p1, de1) \<and>
    page_recs env (fill_entry env name ino mode de1 p1) limit (as @ xs @ bs) \<and> fits_entry env name ino mode xs r"
proof -
  have nlen: "r_nlen (filled env name ino mode x) \<noteq> 0" for x
  proof -
    have "unat (r_nlen (filled env name ino mode x)) = length name" using name by (simp add: filled_def unat_u8 name_ok_def)
    then show ?thesis using name by (metis length_0_conv name_ok_def unat_0)
  qed
  have flds: "r_ino (filled env name ino mode x) = ino" "r_type (filled env name ino mode x) = entry_type env mode" for x
    by (simp_all add: filled_def)
  show ?thesis
  proof (cases "r_ino r = 0")
    case True
    then have room: "EXT2_DIR_REC_LEN (length name) \<le> rlen r" using assms(3) by (auto simp: has_room_def)
    have "4 dvd rlen r" using page_rec(1) [OF assms(1,2)] by (simp add: rec_ok_def)
    note f = filled_ok [OF this room name ino(2), of mode]
    have "fits_entry env name ino mode [filled env name ino mode r] r"
      using True ino nlen flds f by (simp add: fits_entry_def live_simps r_match_def)
    moreover have "split_entry env p (rsize as) (EXT2_DIR_REC_LEN (unat (r_nlen r))) (rlen r) = Inr (p, rsize as)"
      unfolding split_entry_def using page_at(4) [OF assms(1,2)] True by simp
    ultimately show ?thesis using fill_free [OF assms(1,2) room name ino(2), of mode]
      by (intro exI [of _ p] exI [of _ "rsize as"] exI [of _ "[filled env name ino mode r]"]) simp
  next
    case False
    then have room: "EXT2_DIR_REC_LEN (unat (r_nlen r)) + EXT2_DIR_REC_LEN (length name) \<le> rlen r"
      using assms(3) by (auto simp: has_room_def)
    let ?xs = "[shrunk r, filled env name ino mode (remainder r)]"
    have len: "EXT2_DIR_REC_LEN (unat (r_nlen r)) + 8 \<le> rlen r" using room name_room(1) [OF name] by simp
    note sh = shrunk_facts [OF len]
    have "4 dvd rlen (remainder r)" using page_rec(1) [OF assms(1,2)] REC_LEN_bounds(3) sh(2) by (simp add: rec_ok_def)
    moreover have "EXT2_DIR_REC_LEN (length name) \<le> rlen (remainder r)" using room sh(2) by simp
    ultimately have f: "r_name (filled env name ino mode (remainder r)) = name" "rlen (filled env name ino mode (remainder r)) = rlen (remainder r)"
      by (rule filled_ok(3) [OF _ _ name ino(2)], rule filled_ok(2) [OF _ _ name ino(2)])
    have "fits_entry env name ino mode ?xs r"
      using False ino nlen flds sh len assms(4) f by (simp add: fits_entry_def live_simps r_match_def)
    then show ?thesis using split_fill [OF assms(1,2) False _ room name ino(2), of mode] assms(4) False by blast
  qed
qed

text \<open>The label \<open>got_it\<close>, when the write can be prepared.\<close>

lemma got_it_stored:
  assumes "io_ok env" and "write_begin env (n * page_size env + de) rec_len = None"
    and "split_entry env p de name_len rec_len = Inr (p1, de1)"
  shows "\<exists>d'. got_it env d n name ino mode (de, name_len, rec_len, p) = (d', write_sync env) \<and>
    i_size d' = max (i_size d) (n * page_size env + de + rec_len) \<and>
    pages d' = pages (set_data n (fill_entry env name ino mode de1 p1) d) \<and> i_blocks d \<le> i_blocks d' \<and>
    (n * page_size env + de \<le> 512 * i_blocks d \<longrightarrow> n * page_size env + de + rec_len \<le> 512 * i_blocks d')"
  using assms
  by (simp add: got_it_def ext2_prepare_chunk_def commit_eq touch_def set_data_def io_ok_def Let_def)

lemma got_it_refused:
  assumes "write_begin env (n * page_size env + de) rec_len = Some e"
  shows "got_it env d n name ino mode (de, name_len, rec_len, p) = (set_data n p d, Some e)"
  using assms by (simp add: got_it_def ext2_prepare_chunk_def Let_def)

lemma set_data_rep:
  assumes "dir_rep env d rss" and "length q = page_size env" and "n < length rss \<Longrightarrow> page_recs env q (plimit env d n) (rss ! n)"
  shows "dir_rep env (set_data n q d) rss"
proof -
  have "plimit env (set_data n q d) m = plimit env d m" "dir_pages env (set_data n q d) = dir_pages env d"
    "i_size (set_data n q d) = i_size d" "i_blocks (set_data n q d) = i_blocks d" for m
    by (simp_all add: set_data_def plimit_def dir_pages_def)
  then show ?thesis using assms by (auto simp: dir_rep_def pages_set_data)
qed

text \<open>What adding an entry may end in: the entry is there, or the write could not be prepared.\<close>

definition added :: "ext2_env \<Rightarrow> string \<Rightarrow> 32 word \<Rightarrow> 16 word \<Rightarrow> drec list list \<Rightarrow> dinode \<times> ext2_err option \<Rightarrow> bool" where
  "added env name ino mode rss res \<longleftrightarrow>
     (case res of (d', err) \<Rightarrow>
        err = write_sync env \<and>
          (\<exists>rss'. dir_inv env d' rss' \<and> keeps rss rss' \<and>
            map_of (live (concat rss')) = (map_of (live (concat rss)))(name \<mapsto> (ino, entry_type env mode))) \<or>
        (\<exists>e pos len. err = Some e \<and> write_begin env pos len = Some e \<and> dir_inv env d' rss))"

lemma added_upd:
  assumes "dir_inv env d rss" and "\<forall>r \<in> set (concat rss). \<not> r_match name r" and "dir_rep env d' rss'"
    and "mset (live (concat rss')) = mset (live (concat rss)) + {#(name, ino, entry_type env mode)#}"
    and "\<forall>r \<in> set (concat rss'). r_ino r \<noteq> 0 \<longrightarrow> r_nlen r \<noteq> 0" and "keeps rss rss'"
  shows "added env name ino mode rss (d', write_sync env)"
proof -
  have "name \<notin> fst ` set (live (concat rss))" using assms(2) live_match [of name _ "concat rss"] by fastforce
  from entries_more [OF _ assms(4) this] assms show ?thesis by (auto simp: added_def dir_inv_def)
qed

lemma add_at_record:
  assumes env: "env_ok env" "io_ok env" and inv: "dir_inv env d rss" and new: "\<forall>r \<in> set (concat rss). \<not> r_match name r"
    and n: "n < length rss" "rss ! n = as @ r # bs" and "has_room name r"
    and name: "name_ok name" and ino: "ino \<noteq> 0" "unat ino \<le> s_inodes_count env"
  shows "added env name ino mode rss
    (got_it env d n name ino mode (rsize as, EXT2_DIR_REC_LEN (unat (r_nlen r)), rlen r, pdata (pages d n)))"
proof -
  let ?p = "pdata (pages d n)"
  have rep: "dir_rep env d rss" using inv by (simp add: dir_inv_def)
  have pr: "page_recs env ?p (plimit env d n) (as @ r # bs)" using rep n by (auto simp: dir_rep_def)
  have rin: "r \<in> set (concat rss)" using n nth_mem [OF n(1)] by (metis concat.simps in_set_conv_decomp set_concat UN_I)
  show ?thesis
  proof (cases "write_begin env (n * page_size env + rsize as) (rlen r)")
    case (Some e)
    have "dir_rep env (set_data n ?p d) rss" by (rule set_data_rep [OF rep]) (use rep in \<open>simp_all add: dir_rep_def\<close>)
    then show ?thesis using got_it_refused [OF Some] Some inv by (auto simp: added_def dir_inv_def)
  next
    case None
    have "r_ino r \<noteq> 0 \<longrightarrow> r_nlen r \<noteq> 0" using inv rin unfolding dir_inv_def by blast
    from add_in_page [OF env(1) pr assms(7) this name ino, of mode] obtain p1 de1 xs where
      x: "split_entry env ?p (rsize as) (EXT2_DIR_REC_LEN (unat (r_nlen r))) (rlen r) = Inr (p1, de1)"
        "page_recs env (fill_entry env name ino mode de1 p1) (plimit env d n) (as @ xs @ bs)" "fits_entry env name ino mode xs r" by blast
    from got_it_stored [OF env(2) None x(1), of d name ino mode] obtain d' where
      d': "got_it env d n name ino mode (rsize as, EXT2_DIR_REC_LEN (unat (r_nlen r)), rlen r, ?p) = (d', write_sync env)"
        "i_size d' = max (i_size d) (n * page_size env + rsize as + rlen r)"
        "pages d' = pages (set_data n (fill_entry env name ino mode de1 p1) d)" "i_blocks d \<le> i_blocks d'" by blast
    have "n * page_size env + rsize as + rlen r \<le> i_size d"
      using page_rec(4) [OF env(1) pr] rlen_ge(2) [of r] unfolding plimit_def by linarith
    then have "stored d n (fill_entry env name ino mode de1 p1) 0 d'" using d' by (simp add: stored_def)
    from stored_rep [OF rep n(1) x(2) this] have rep': "dir_rep env d' (rss[n := as @ xs @ bs])" .
    have n2: "rss ! n = as @ [r] @ bs" using n(2) by simp
    note upd = live_upd [OF n(1) n2, of xs]
    have "mset (live (concat (rss[n := as @ xs @ bs]))) = mset (live (concat rss)) + {#(name, ino, entry_type env mode)#}"
      using upd(1) x(3) by (simp add: fits_entry_def)
    moreover have "\<forall>r \<in> set (concat (rss[n := as @ xs @ bs])). r_ino r \<noteq> 0 \<longrightarrow> r_nlen r \<noteq> 0"
      using upd(2) inv x(3) unfolding fits_entry_def dir_inv_def by blast
    moreover have "keeps rss (rss[n := as @ xs @ bs])" using keeps_record [OF n, of xs] x(3) by (simp add: fits_entry_def)
    ultimately show ?thesis unfolding d'(1) by (rule added_upd [OF inv new rep'])
  qed
qed

lemma add_new_chunk:
  assumes env: "env_ok env" "io_ok env" and inv: "dir_inv env d rss" and new: "\<forall>r \<in> set (concat rss). \<not> r_match name r"
    and lim: "n * page_size env + limit = i_size d" "limit + s_blocksize env \<le> page_size env"
    and pr: "page_recs env p limit rs" "p = pdata (pages d n)" "rs = (if n < length rss then rss ! n else [])"
    and name: "name_ok name" and ino: "ino \<noteq> 0" "unat ino \<le> s_inodes_count env"
    and big: "i_size d + s_blocksize env + page_size env < 2 ^ 32"
    and q: "q = put_at limit (le32_enc 0) (put_at (limit + 4) (le16_enc (of_nat (s_blocksize env))) p)"
  shows "added env name ino mode rss (got_it env d n name ino mode (limit, 0, s_blocksize env, q))"
proof -
  let ?b = "s_blocksize env" and ?f = "fresh_chunk env p limit"
  note b = env_okD [OF env(1)]
  have rep: "dir_rep env d rss" using inv by (simp add: dir_inv_def)
  have "?b dvd i_size d" "?b dvd n * page_size env" using rep env(1) by (simp_all add: dir_rep_def env_ok_def)
  then have "?b dvd limit" using lim(1) by (metis dvd_add_right_iff)
  note nc = new_chunk [OF env(1) pr(1) lim(2) this q]
  have lims: "limit = rsize rs" using page_limit [OF pr(1)] .
  show ?thesis
  proof (cases "write_begin env (n * page_size env + limit) ?b")
    case (Some e)
    have "plimit env d n = limit" using lim by (simp add: plimit_def)
    then have "dir_rep env (set_data n q d) rss"
      using pr nc(2,3) by (intro set_data_rep [OF rep]) (simp_all add: page_recs_def)
    then show ?thesis using got_it_refused [OF Some] Some inv by (auto simp: added_def dir_inv_def)
  next
    case None
    have room: "has_room name ?f" using nc(4) name_room(2) [OF name] b(2) by (simp add: has_room_def)
    from add_in_page [OF env(1) nc(1) room _ name ino, of mode] obtain p1 de1 xs where
      x: "split_entry env q (rsize rs) (EXT2_DIR_REC_LEN (unat (r_nlen ?f))) (rlen ?f) = Inr (p1, de1)"
        "page_recs env (fill_entry env name ino mode de1 p1) (limit + ?b) (rs @ xs)" "fits_entry env name ino mode xs ?f" by auto
    have "de_ino q limit = 0" using page_at(4) [OF env(1) nc(1)] lims by simp
    then have "split_entry env q limit 0 ?b = Inr (p1, de1)" using x(1) lims by (simp add: split_entry_def)
    from got_it_stored [OF env(2) None this, of d name ino mode] obtain d' where
      d': "got_it env d n name ino mode (limit, 0, ?b, q) = (d', write_sync env)"
        "i_size d' = max (i_size d) (n * page_size env + limit + ?b)"
        "pages d' = pages (set_data n (fill_entry env name ino mode de1 p1) d)" "i_blocks d \<le> i_blocks d'"
        "n * page_size env + limit \<le> 512 * i_blocks d \<longrightarrow> n * page_size env + limit + ?b \<le> 512 * i_blocks d'" by blast
    have st: "stored d n (fill_entry env name ino mode de1 p1) ?b d'" using d' lim(1) by (simp add: stored_def)
    have blk: "i_size d' \<le> 512 * i_blocks d'" using d'(2,5) lim(1) rep by (simp add: dir_rep_def)
    note grown = grown_rep [OF env(1) rep lim x(2) st big blk]
    have l: "live [?f] = []" by (simp add: live_simps)
    have "mset (live (concat (page_upd rss n (rs @ xs)))) = mset (live (concat rss)) + {#(name, ino, entry_type env mode)#} \<and>
      set (concat (page_upd rss n (rs @ xs))) \<subseteq> set (concat rss) \<union> set xs"
    proof (cases "n < length rss")
      case True
      then have "rss ! n = rs @ [] @ []" using pr(3) by simp
      from live_upd [OF True this, of xs] show ?thesis using x(3) True l by (simp add: page_upd_def fits_entry_def live_simps)
    next
      case False
      then show ?thesis using x(3) pr(3) l by (simp add: page_upd_def fits_entry_def)
    qed
    note upd = this
    moreover have "\<forall>r \<in> set (concat (page_upd rss n (rs @ xs))). r_ino r \<noteq> 0 \<longrightarrow> r_nlen r \<noteq> 0"
      using upd inv x(3) unfolding fits_entry_def dir_inv_def by blast
    moreover have "keeps rss (page_upd rss n (rs @ xs))" by (rule keeps_new [OF pr(3) grown(2)])
    ultimately show ?thesis unfolding d'(1) by (intro added_upd [OF inv new grown(1)]) simp_all
  qed
qed

lemma page_ends:
  assumes "env_ok env" and "dir_rep env d rss"
  shows "plimit env d n = page_size env \<or> plimit env d n + s_blocksize env \<le> page_size env"
proof -
  let ?b = "s_blocksize env" and ?p = "page_size env"
  have dvd: "?b dvd ?p" "?b dvd i_size d - n * ?p" using assms by (simp_all add: env_ok_def dir_rep_def dvd_diff_nat)
  show ?thesis
  proof (cases "i_size d - n * ?p < ?p")
    case True
    then have "?b dvd ?p - (i_size d - n * ?p)" "0 < ?p - (i_size d - n * ?p)" using dvd by (simp_all add: dvd_diff_nat)
    then have "?b \<le> ?p - (i_size d - n * ?p)" by (rule dvd_imp_le)
    then show ?thesis using True by (simp add: plimit_def)
  qed (simp add: plimit_def)
qed

lemma add_pages_ok:
  assumes env: "env_ok env" "io_ok env" and name: "name_ok name" and ino: "ino \<noteq> 0" "unat ino \<le> s_inodes_count env"
    and big: "i_size dir + s_blocksize env + page_size env < 2 ^ 32" and new: "\<forall>r \<in> set (concat rss). \<not> r_match name r"
  shows "dir_inv env d rss \<Longrightarrow> sim dir d \<Longrightarrow> n < length rss \<or> n * page_size env = i_size dir \<Longrightarrow>
    \<exists>res. add_pages env name ino mode (length rss) n d = Some res \<and> added env name ino mode rss res"
proof (induction "Suc (length rss) - n" arbitrary: n d)
  case 0
  have pos: "0 < page_size env" using env by (simp add: env_ok_def)
  have "n * page_size env = i_size d" using 0 sim_fields(3) [OF 0(3)] by auto
  moreover have "dir_pages env d = length rss" using 0(2) by (simp add: dir_inv_def dir_rep_def)
  ultimately have "\<not> length rss * page_size env < n * page_size env" using dir_pages_less [OF pos, of "length rss" d] by simp
  then show ?case using 0 pos by simp
next
  case (Suc k)
  have pos: "0 < page_size env" using env by (simp add: env_ok_def)
  have np: "dir_pages env d = length rss" and rep: "dir_rep env d rss" using Suc.prems(1) by (simp_all add: dir_inv_def dir_rep_def)
  have size: "i_size d = i_size dir" using sim_fields(3) [OF Suc.prems(2)] .
  have nle: "n \<le> length rss" using Suc.hyps(2) by simp
  have "n < dir_pages env d \<or> n * page_size env = i_size d" using Suc.prems(3) np size by simp
  from get_page_ok [OF env rep this] obtain d1 where d1: "ext2_get_page env d n = (d1, Inr (pdata (pages d n)))" "sim d d1" by blast
  have inv1: "dir_inv env d1 rss" and sim1: "sim dir d1" using dir_inv_sim [OF Suc.prems(1) d1(2)] sim_trans [OF Suc.prems(2) d1(2)] .
  have pg: "pdata (pages d n) = pdata (pages d1 n)" and size1: "i_size d1 = i_size dir"
    using sim_fields(6) [OF d1(2)] sim_fields(3) [OF sim1] by simp_all
  have rep1: "dir_rep env d1 rss" using inv1 by (simp add: dir_inv_def)
  let ?p = "pdata (pages d1 n)" and ?lim = "plimit env d1 n" and ?rs = "if n < length rss then rss ! n else []"
  have below: "n * page_size env \<le> i_size d1" using Suc.prems(3) size size1 dir_pages_less [OF pos, of n d] np by auto
  have last: "ext2_last_byte env d1 n = ?lim" using last_byte_eq [of d1 n env] below rep1 by (simp add: dir_rep_def)
  have pr: "page_recs env ?p ?lim ?rs"
  proof (cases "n < length rss")
    case False
    then have "?lim = 0" using Suc.prems(3) size1 by (simp add: plimit_def)
    then show ?thesis using False rep1 by (simp add: page_recs_def dir_rep_def)
  qed (use rep1 in \<open>simp add: dir_rep_def\<close>)
  have new': "\<forall>r \<in> set ?rs. \<not> r_match name r" using new nth_mem [of n rss] by (auto simp del: nth_mem)
  note scan = add_scan_rest [OF env(1) name page_ends [OF env(1) rep1], where as = "[]",
      unfolded append_Nil list.map sum_list.Nil, OF pr new']
  have step: "add_pages env name ino mode (length rss) n d =
      Option.bind (add_scan env name ?p ?lim 0) (\<lambda>r. case r of
        Inl e \<Rightarrow> Some (d1, Some e)
      | Inr (Some spot) \<Rightarrow> Some (got_it env d1 n name ino mode spot)
      | Inr None \<Rightarrow> add_pages env name ino mode (length rss) (n + 1) d1)"
    using nle d1(1) last pg by (subst add_pages.simps) simp
  show ?case
  proof (cases "dropWhile (\<lambda>r. \<not> has_room name r) ?rs")
    case (Cons r bs)
    let ?as = "takeWhile (\<lambda>r. \<not> has_room name r) ?rs"
    have n: "n < length rss" using Cons by (auto split: if_splits)
    have r: "has_room name r" using Cons by (metis hd_dropWhile list.sel(1) list.simps(3))
    have "rss ! n = ?as @ r # bs" using Cons n by (metis takeWhile_dropWhile_id)
    from add_at_record [OF env inv1 new n this r name ino, of mode] show ?thesis using step scan Cons by simp
  next
    case Nil
    show ?thesis
    proof (cases "?lim = page_size env")
      case True
      then have full: "Suc n * page_size env \<le> i_size dir" using size1 pos unfolding plimit_def by (simp add: min_def split: if_splits)
      have "Suc n < length rss \<or> Suc n * page_size env = i_size dir"
        using full dir_pages_less [OF pos, of "Suc n" d] np size by auto
      from Suc.hyps(1) [OF _ inv1 sim1 this] show ?thesis using step scan Nil True Suc.hyps(2) by simp
    next
      case False
      then have "n * page_size env + ?lim = i_size d1" "?lim + s_blocksize env \<le> page_size env"
        using page_ends [OF env(1) rep1, of n] below by (auto simp: plimit_def min_def split: if_splits)
      from add_new_chunk [OF env inv1 new this pr refl refl name ino _ refl, of mode] show ?thesis
        using step scan Nil False big size1 by simp
    qed
  qed
qed

lemma add_link_ok:
  assumes "env_ok env" and "io_ok env" and "dir_inv env dir rss" and "name_ok name" and "ino \<noteq> 0" "unat ino \<le> s_inodes_count env"
    and "i_size dir + s_blocksize env + page_size env < 2 ^ 32" and "dir_lookup env dir name = None"
  shows "\<exists>res. ext2_add_link env dir name ino mode = Some res \<and> added env name ino mode rss res"
proof -
  have rep: "dir_rep env dir rss" using assms(3) by (simp add: dir_inv_def)
  then have np: "dir_pages env dir = length rss" and "sim dir dir" by (simp_all add: dir_rep_def sim_def)
  have "map_of (live (concat rss)) name = None" using assms(8) dir_lookup_map [OF assms(1,2,3)] by simp
  then have new: "\<forall>r \<in> set (concat rss). \<not> r_match name r" using live_match [of name _ "concat rss"] by (force simp: map_of_eq_None_iff)
  have "0 < length rss \<or> 0 * page_size env = i_size dir"
    using dir_pages_less [of env 0 dir] np assms(1) by (auto simp: env_ok_def)
  from add_pages_ok [OF assms(1,2,4-7) new assms(3) \<open>sim dir dir\<close> this, of mode] show ?thesis
    by (simp add: ext2_add_link_def np)
qed

section \<open>Redirecting an entry\<close>

definition linked :: "ext2_env \<Rightarrow> string \<Rightarrow> 32 word \<Rightarrow> 16 word \<Rightarrow> dinode \<Rightarrow> drec list list \<Rightarrow> dinode \<times> ext2_err option \<Rightarrow> bool" where
  "linked env name ino mode d rss res \<longleftrightarrow>
     (case res of (d', err) \<Rightarrow>
        err = None \<and> (\<exists>rss'. dir_inv env d' rss' \<and> keeps rss rss' \<and>
          map_of (live (concat rss')) = (map_of (live (concat rss)))(name \<mapsto> (ino, entry_type env mode))) \<or>
        err = Some BUG \<and> (\<exists>e pos len. write_begin env pos len = Some e) \<and> d' = d)"

lemma set_link_page:
  assumes "env_ok env" and pr: "page_recs env p limit (as @ r # bs)" and "unat ino \<le> s_inodes_count env"
  shows "page_recs env (ext2_set_de_type env (rsize as) mode (put_at (rsize as) (le32_enc ino) p)) limit
    (as @ r\<lparr>r_ino := ino, r_type := entry_type env mode\<rparr> # bs)"
proof -
  note ok = page_rec [OF assms(1,2)]
  have "ext2_set_de_type env (rsize as) mode (put_at (rsize as) (le32_enc ino) p) =
      recs_bytes as @ rec_bytes (r\<lparr>r_ino := ino, r_type := entry_type env mode\<rparr>) @ recs_bytes bs @ drop limit p"
    unfolding set_de_type_eq put_fields(1) [OF page_split [OF pr]] by (rule put_fields(3) [OF refl])
  moreover have "rec_ok env (r\<lparr>r_ino := ino, r_type := entry_type env mode\<rparr>)" using ok(1) assms(3) by (simp add: rec_ok_def)
  ultimately show ?thesis
    using page_replace [of env p limit as "[r]" bs "[r\<lparr>r_ino := ino, r_type := entry_type env mode\<rparr>]"] pr ok(2) by simp
qed

lemma entries_change:
  assumes "distinct (map fst xs)" and "mset xs = mset zs + {#(name, v)#}" and "mset ys = mset zs + {#(name, w)#}"
  shows "distinct (map fst ys)" "map_of ys = (map_of xs)(name \<mapsto> w)"
proof -
  note zs = entries_less [OF assms(1,2)]
  have "name \<notin> fst ` set zs" using zs(2) by (simp add: map_of_eq_None_iff [symmetric])
  from entries_more [OF zs(1) assms(3) this] show "distinct (map fst ys)" "map_of ys = (map_of xs)(name \<mapsto> w)"
    using zs(2) by simp_all
qed

lemma set_link_ok:
  assumes env: "env_ok env" "io_ok env" and inv: "dir_inv env d rss" and at: "found_at rss name (n, de)"
    and ino: "ino \<noteq> 0" "unat ino \<le> s_inodes_count env"
  shows "linked env name ino mode d rss (ext2_set_link env d (n, de) ino mode upd)"
proof (cases "write_begin env (n * page_size env + de) (rec_at env (pdata (pages d n)) de)")
  case (Some e)
  then show ?thesis by (auto simp: ext2_set_link_def ext2_prepare_chunk_def Let_def linked_def)
next
  case None
  have rep: "dir_rep env d rss" using inv by (simp add: dir_inv_def)
  obtain as r bs where r: "n < length rss" "rss ! n = as @ r # bs" "de = rsize as" "r_match name r"
    and pr: "page_recs env (pdata (pages d n)) (plimit env d n) (as @ r # bs)"
    by (rule found_fields [OF env(1) rep at])
  let ?len = "rec_at env (pdata (pages d n)) de" and ?r = "r\<lparr>r_ino := ino, r_type := entry_type env mode\<rparr>"
  let ?q = "ext2_set_de_type env de mode (put_at de (le32_enc ino) (pdata (pages d n)))"
  let ?d = "fst (ext2_set_link env d (n, de) ino mode upd)" and ?rss = "rss[n := as @ [?r] @ bs]"
  have q: "page_recs env ?q (plimit env d n) (as @ [?r] @ bs)" using set_link_page [OF env(1) pr ino(2)] r(3) by simp
  have len: "?len = rlen r" unfolding r(3) by (rule page_at(1) [OF env(1) pr])
  have "de + ?len \<le> plimit env d n" "0 < ?len" using page_rec(4) [OF env(1) pr] r(3) unfolding len by simp_all
  then have "n * page_size env + de + ?len \<le> i_size d" unfolding plimit_def by linarith
  then have "stored d n ?q 0 ?d" and err: "snd (ext2_set_link env d (n, de) ino mode upd) = None" using env(2) None
    by (auto simp: ext2_set_link_def ext2_prepare_chunk_def Let_def stored_def commit_eq touch_def set_data_def io_ok_def)
  from stored_rep [OF rep r(1) q this(1)] have rep': "dir_rep env ?d ?rss" .
  have n2: "rss ! n = as @ [r] @ bs" using r(2) by simp
  have old: "mset (live (concat rss)) = mset (live (concat (rss[n := as @ [] @ bs]))) + {#(name, r_ino r, r_type r)#}"
    using live_upd(1) [OF r(1) n2, of "[]"] r(4) by (simp add: live_simps r_match_def)
  have "mset (live (concat ?rss)) + mset (live [r]) = mset (live (concat rss)) + mset (live [?r])"
    by (rule live_upd(1) [OF r(1) n2])
  then have new: "mset (live (concat ?rss)) = mset (live (concat (rss[n := as @ [] @ bs]))) + {#(name, ino, entry_type env mode)#}"
    unfolding old using r(4) ino(1) by (simp add: live_simps r_match_def r_name_def)
  have dist: "distinct (map fst (live (concat rss)))" using inv by (simp add: dir_inv_def)
  note el = entries_change [OF dist old new]
  have "r \<in> set (rss ! n)" using n2 by simp
  then have "r \<in> set (concat rss)" using nth_mem [OF r(1)] by auto
  then have "\<forall>x \<in> set (concat ?rss). r_ino x \<noteq> 0 \<longrightarrow> r_nlen x \<noteq> 0"
    using live_upd(2) [OF r(1) n2, of "[?r]"] inv r(4) by (auto simp: dir_inv_def r_match_def)
  then have "dir_inv env ?d ?rss" using rep' el(1) by (simp add: dir_inv_def)
  moreover have "keeps rss ?rss"
    by (rule keeps_record [OF r(1,2)]) (use ino(1) in \<open>auto simp: r_match_def r_name_def\<close>)
  ultimately show ?thesis unfolding linked_def using el(2) err by (auto simp: prod_eq_iff split: prod.splits)
qed

section \<open>Deleting an entry\<close>

definition deleted :: "ext2_env \<Rightarrow> string \<Rightarrow> dinode \<Rightarrow> drec list list \<Rightarrow> dinode \<times> ext2_err option \<Rightarrow> bool" where
  "deleted env name d rss res \<longleftrightarrow>
     (case res of (d', err) \<Rightarrow>
        err = write_sync env \<and> (\<exists>rss'. dir_inv env d' rss' \<and> map_of (live (concat rss')) = (map_of (live (concat rss)))(name := None)) \<or>
        err = Some BUG \<and> (\<exists>e pos len. write_begin env pos len = Some e) \<and> d' = d)"

lemma without_live:
  assumes "r_match name r" and "\<forall>q \<in> set ds. rec_ok env q" and "rec_ok env r"
  shows "mset (live (ds @ [r])) = mset (live (without ds r)) + {#(name, r_ino r, r_type r)#}"
    "\<forall>x \<in> set (without ds r). r_ino x \<noteq> 0 \<longrightarrow> (\<exists>q \<in> set ds. r_nlen x = r_nlen q \<and> r_ino q \<noteq> 0)"
proof -
  show "\<forall>x \<in> set (without ds r). r_ino x \<noteq> 0 \<longrightarrow> (\<exists>q \<in> set ds. r_nlen x = r_nlen q \<and> r_ino q \<noteq> 0)"
    by (auto simp: without_def dest: in_set_butlastD)
  show "mset (live (ds @ [r])) = mset (live (without ds r)) + {#(name, r_ino r, r_type r)#}"
  proof (cases ds rule: rev_cases)
    case Nil
    then show ?thesis using assms(1) by (simp add: without_def live_simps r_match_def)
  next
    case (snoc es q)
    have "rec_ok env q" "rec_ok env (r\<lparr>r_ino := 0\<rparr>)" using assms(2,3) snoc by (simp_all add: rec_ok_def)
    from joined_facts(3) [OF this] show ?thesis using assms(1) snoc by (simp add: without_def live_simps r_match_def)
  qed
qed

lemma delete_ok:
  assumes env: "env_ok env" "io_ok env" and inv: "dir_inv env d rss" and at: "found_at rss name (n, de)"
  shows "deleted env name d rss (ext2_delete_entry env d (n, de))"
proof -
  have rep: "dir_rep env d rss" using inv by (simp add: dir_inv_def)
  obtain as r bs where r: "n < length rss" "rss ! n = as @ r # bs" "de = rsize as" "r_match name r"
    and pr: "page_recs env (pdata (pages d n)) (plimit env d n) (as @ r # bs)"
    by (rule found_fields [OF env(1) rep at])
  obtain cs ds where cs: "as = cs @ ds" "chunk_start env (rsize as) = rsize cs" "rsize cs div s_blocksize env = rsize (cs @ ds) div s_blocksize env"
    by (rule chunk_of [OF env(1) pr]) auto
  let ?p = "pdata (pages d n)" and ?pde = "if ds = [] then None else Some (rsize (cs @ butlast ds))"
  let ?from = "if ds = [] then rsize cs else rsize (cs @ butlast ds)" and ?len = "if ds = [] then rlen r else rlen (last ds) + rlen r"
  let ?p1 = "if ds = [] then ?p else put_at (rsize (cs @ butlast ds) + 4) (le16_enc (of_nat (rlen (last ds) + rlen r))) ?p"
  have pr': "page_recs env ?p (plimit env d n) (cs @ ds @ r # bs)" using pr cs(1) by simp
  have sum: "rsize ds = rsize (butlast ds) + rlen (last ds)" if "ds \<noteq> []"
    using that by (cases ds rule: rev_cases) simp_all
  have walk: "prev_entry env ?p (rsize as) None (rsize cs) = Inr ?pde" using prev_entry_walk [OF env(1) pr', of None] cs(1) by simp
  have len: "rsize as + rlen r - ?from = ?len" using cs(1) sum by auto
  have del: "ext2_delete_entry env d (n, de) =
      (case write_begin env (n * page_size env + ?from) ?len of
         Some e \<Rightarrow> (d, Some BUG)
       | None \<Rightarrow>
           ((touch env (fst (ext2_commit_chunk env (set_data n (put_at (rsize as) (le32_enc 0) ?p1)
             (d\<lparr>i_blocks := blocks_after env (i_blocks d) (n * page_size env + ?from) ?len\<rparr>)) (n * page_size env + ?from) ?len)))\<lparr>i_btree := False\<rparr>,
             write_sync env))"
    unfolding ext2_delete_entry_def prod.case Let_def r(3) page_at(1) [OF env(1) pr] cs(2) walk sum.case ext2_prepare_chunk_def
    using len by (auto simp: to_disk [OF env(1)] commit_eq split: option.splits)
  show ?thesis
  proof (cases "write_begin env (n * page_size env + ?from) ?len")
    case (Some e)
    then show ?thesis unfolding del deleted_def by auto
  next
    case None
    let ?q = "put_at (rsize as) (le32_enc 0) ?p1"
    let ?d = "(touch env (fst (ext2_commit_chunk env (set_data n ?q
      (d\<lparr>i_blocks := blocks_after env (i_blocks d) (n * page_size env + ?from) ?len\<rparr>)) (n * page_size env + ?from) ?len)))\<lparr>i_btree := False\<rparr>"
    have q: "page_recs env ?q (plimit env d n) (cs @ without ds r @ bs)" using delete_page [OF env(1) pr' cs(3) refl] cs(1) by simp
    have "?from + ?len \<le> plimit env d n" "0 < ?len" using page_rec(4) [OF env(1) pr] len cs(1) sum by auto
    then have "n * page_size env + ?from + ?len \<le> i_size d" unfolding plimit_def by linarith
    then have "stored d n ?q 0 ?d" using env(2) by (simp add: stored_def commit_eq touch_def set_data_def io_ok_def)
    from stored_rep [OF rep r(1) q this] have rep': "dir_rep env ?d (rss[n := cs @ without ds r @ bs])" .
    have n2: "rss ! n = cs @ (ds @ [r]) @ bs" using r(2) cs(1) by simp
    note upd = live_upd [OF r(1) n2, of "without ds r"]
    have oks: "\<forall>q \<in> set ds. rec_ok env q" using rec_later(1) [OF env(1) pr'] by simp
    note wl = without_live [OF r(4) oks page_rec(1) [OF env(1) pr]]
    have "mset (live (concat rss)) = mset (live (concat (rss[n := cs @ without ds r @ bs]))) + {#(name, r_ino r, r_type r)#}"
      using upd(1) unfolding wl(1) by (simp add: ac_simps)
    from entries_less [OF _ this] inv have el: "distinct (map fst (live (concat (rss[n := cs @ without ds r @ bs]))))"
      "map_of (live (concat (rss[n := cs @ without ds r @ bs]))) = (map_of (live (concat rss)))(name := None)" by (simp_all add: dir_inv_def)
    have "set ds \<subseteq> set (concat rss)" using nth_mem [OF r(1)] n2 by (auto simp del: nth_mem)
    then have "\<forall>x \<in> set (concat (rss[n := cs @ without ds r @ bs])). r_ino x \<noteq> 0 \<longrightarrow> r_nlen x \<noteq> 0"
      using upd(2) wl(2) inv unfolding dir_inv_def by (metis (no_types, lifting) UnE subsetD)
    then have "dir_inv env ?d (rss[n := cs @ without ds r @ bs])" using rep' el(1) by (simp add: dir_inv_def)
    then show ?thesis unfolding del deleted_def using None el(2) by auto
  qed
qed

end
