(* ===== verification/Ext2_Namei.thy ===== *)
theory Ext2_Namei
  imports Ext2_Change
begin

unbundle bit_operations_syntax

text \<open>
  Names in the ext2 file system (\<open>fs/ext2/namei.c\<close>): creating, linking, removing and renaming
  entries, with the link counts. The inodes in memory are a map from their numbers, so that the
  two directories of a rename may be one; the dentry of a call is given by its name and the number
  of its inode. The allocation of an inode (\<open>ext2_new_inode\<close>) and the quota are in the
  environment, and so is the environment of the directory operations of each inode.
\<close>

section \<open>State\<close>

type_synonym inodes = "32 word \<Rightarrow> dinode"

record namei_env =
  dir_env :: "32 word \<Rightarrow> ext2_env"
  dquot_initialize :: "32 word \<Rightarrow> ext2_err option"
  ext2_new_inode :: "32 word \<Rightarrow> 16 word \<Rightarrow> ext2_err + dinode"

definition S_ISDIR :: "16 word \<Rightarrow> bool" where
  "S_ISDIR mode \<longleftrightarrow> mode AND 0xf000 = 0x4000"

text \<open>
  The link count (\<open>inc_nlink\<close>, \<open>drop_nlink\<close>) is not kept from dropping below zero. The count of
  removed inodes of the super block is left out.
\<close>

definition inode_inc_link_count :: "32 word \<Rightarrow> inodes \<Rightarrow> inodes" where
  "inode_inc_link_count i fs = fs(i := (fs i)\<lparr>i_nlink := i_nlink (fs i) + 1\<rparr>)"

definition inode_dec_link_count :: "32 word \<Rightarrow> inodes \<Rightarrow> inodes" where
  "inode_dec_link_count i fs = fs(i := (fs i)\<lparr>i_nlink := i_nlink (fs i) - 1\<rparr>)"

definition set_ctime :: "32 word \<Rightarrow> nat \<Rightarrow> inodes \<Rightarrow> inodes" where
  "set_ctime i t fs = fs(i := (fs i)\<lparr>i_ctime := t\<rparr>)"

section \<open>Operations\<close>

text \<open>The inode number of a name; zero if there is none.\<close>

definition ext2_lookup :: "namei_env \<Rightarrow> inodes \<Rightarrow> 32 word \<Rightarrow> string \<Rightarrow> (inodes \<times> (ext2_err + 32 word)) option" where
  "ext2_lookup nv fs dir name =
     (if length name > 255 then Some (fs, Inl ENAMETOOLONG)
      else case ext2_inode_by_name (dir_env nv dir) (fs dir) name of
          None \<Rightarrow> None
        | Some (d, ino) \<Rightarrow> Some (fs(dir := d), Inr ino))"

definition ext2_get_parent :: "namei_env \<Rightarrow> inodes \<Rightarrow> 32 word \<Rightarrow> (inodes \<times> (ext2_err + 32 word)) option" where
  "ext2_get_parent nv fs child =
     (case ext2_inode_by_name (dir_env nv child) (fs child) ''..'' of
        None \<Rightarrow> None
      | Some (d, ino) \<Rightarrow> Some (fs(child := d), if ino = 0 then Inl ENOENT else Inr ino))"

text \<open>Entering an inode into a directory.\<close>

definition add_link :: "namei_env \<Rightarrow> inodes \<Rightarrow> 32 word \<Rightarrow> string \<Rightarrow> 32 word \<Rightarrow> (inodes \<times> ext2_err option) option" where
  "add_link nv fs dir name ino =
     map_option (\<lambda>(d, err). (fs(dir := d), err)) (ext2_add_link (dir_env nv dir) (fs dir) name ino (i_mode (fs ino)))"

definition ext2_add_nondir :: "namei_env \<Rightarrow> inodes \<Rightarrow> 32 word \<Rightarrow> string \<Rightarrow> 32 word \<Rightarrow> (inodes \<times> ext2_err option) option" where
  "ext2_add_nondir nv fs dir name ino =
     (case add_link nv fs dir name ino of
        None \<Rightarrow> None
      | Some (fs, None) \<Rightarrow> Some (fs, None)
      | Some (fs, Some e) \<Rightarrow> Some (inode_dec_link_count ino fs, Some e))"

definition ext2_create :: "namei_env \<Rightarrow> inodes \<Rightarrow> 32 word \<Rightarrow> string \<Rightarrow> 16 word \<Rightarrow> (inodes \<times> ext2_err option) option" where
  "ext2_create nv fs dir name mode =
     (case dquot_initialize nv dir of
        Some e \<Rightarrow> Some (fs, Some e)
      | None \<Rightarrow>
          (case ext2_new_inode nv dir mode of
             Inl e \<Rightarrow> Some (fs, Some e)
           | Inr inode \<Rightarrow> ext2_add_nondir nv (fs(i_ino inode := inode)) dir name (i_ino inode)))"

definition ext2_link :: "namei_env \<Rightarrow> inodes \<Rightarrow> 32 word \<Rightarrow> 32 word \<Rightarrow> string \<Rightarrow> (inodes \<times> ext2_err option) option" where
  "ext2_link nv fs ino dir name =
     (case dquot_initialize nv dir of
        Some e \<Rightarrow> Some (fs, Some e)
      | None \<Rightarrow>
          let fs = inode_inc_link_count ino (set_ctime ino (current_time (dir_env nv ino)) fs) in
          (case add_link nv fs dir name ino of
             None \<Rightarrow> None
           | Some (fs, None) \<Rightarrow> Some (fs, None)
           | Some (fs, Some e) \<Rightarrow> Some (inode_dec_link_count ino fs, Some e)))"

definition ext2_mkdir :: "namei_env \<Rightarrow> inodes \<Rightarrow> 32 word \<Rightarrow> string \<Rightarrow> 16 word \<Rightarrow> (inodes \<times> ext2_err option) option" where
  "ext2_mkdir nv fs dir name mode =
     (case dquot_initialize nv dir of
        Some e \<Rightarrow> Some (fs, Some e)
      | None \<Rightarrow>
          let fs = inode_inc_link_count dir fs in
          (case ext2_new_inode nv dir (0x4000 OR mode) of
             Inl e \<Rightarrow> Some (inode_dec_link_count dir fs, Some e)
           | Inr inode \<Rightarrow>
               let ino = i_ino inode;
                   fs = inode_inc_link_count ino (fs(ino := inode));
                   out_fail = (\<lambda>fs e. (inode_dec_link_count dir (inode_dec_link_count ino (inode_dec_link_count ino fs)), Some e))
               in case ext2_make_empty (dir_env nv ino) (fs ino) (i_ino (fs dir)) of
                    (d, Some e) \<Rightarrow> Some (out_fail (fs(ino := d)) e)
                  | (d, None) \<Rightarrow>
                      (case add_link nv (fs(ino := d)) dir name ino of
                         None \<Rightarrow> None
                       | Some (fs, Some e) \<Rightarrow> Some (out_fail fs e)
                       | Some (fs, None) \<Rightarrow> Some (fs, None))))"

definition ext2_unlink :: "namei_env \<Rightarrow> inodes \<Rightarrow> 32 word \<Rightarrow> string \<Rightarrow> 32 word \<Rightarrow> (inodes \<times> ext2_err option) option" where
  "ext2_unlink nv fs dir name ino =
     (case dquot_initialize nv dir of
        Some e \<Rightarrow> Some (fs, Some e)
      | None \<Rightarrow>
          (case ext2_find_entry (dir_env nv dir) (fs dir) name of
             None \<Rightarrow> None
           | Some (d, None) \<Rightarrow> Some (fs(dir := d), Some ENOENT)
           | Some (d, Some at) \<Rightarrow>
               (case ext2_delete_entry (dir_env nv dir) d at of
                  (d, Some e) \<Rightarrow> Some (fs(dir := d), Some e)
                | (d, None) \<Rightarrow> Some (inode_dec_link_count ino (set_ctime ino (i_ctime d) (fs(dir := d))), None))))"

definition ext2_rmdir :: "namei_env \<Rightarrow> inodes \<Rightarrow> 32 word \<Rightarrow> string \<Rightarrow> 32 word \<Rightarrow> (inodes \<times> ext2_err option) option" where
  "ext2_rmdir nv fs dir name ino =
     (case ext2_empty_dir (dir_env nv ino) (fs ino) of
        (d, False) \<Rightarrow> Some (fs(ino := d), Some ENOTEMPTY)
      | (d, True) \<Rightarrow>
          (case ext2_unlink nv (fs(ino := d)) dir name ino of
             None \<Rightarrow> None
           | Some (fs, Some e) \<Rightarrow> Some (fs, Some e)
           | Some (fs, None) \<Rightarrow>
               Some (inode_dec_link_count dir (inode_dec_link_count ino (fs(ino := (fs ino)\<lparr>i_size := 0\<rparr>))), None)))"

section \<open>Renaming\<close>

text \<open>
  A rename puts the new name first: over the entry of \<open>new_ino\<close>, if there is one, or as a new
  entry. A failed assertion ends the operation.
\<close>

definition rename_new ::
  "namei_env \<Rightarrow> inodes \<Rightarrow> 32 word \<Rightarrow> 32 word \<Rightarrow> string \<Rightarrow> 32 word option \<Rightarrow> bool \<Rightarrow> (inodes \<times> ext2_err option) option" where
  "rename_new nv fs old_ino new_dir new_name new_ino is_dir =
     (case new_ino of
        Some ino \<Rightarrow>
          (case (if is_dir then ext2_empty_dir (dir_env nv ino) (fs ino) else (fs ino, True)) of
             (d, False) \<Rightarrow> Some (fs(ino := d), Some ENOTEMPTY)
           | (d, True) \<Rightarrow>
               let fs = fs(ino := d) in
               (case ext2_find_entry (dir_env nv new_dir) (fs new_dir) new_name of
                  None \<Rightarrow> None
                | Some (d, None) \<Rightarrow> Some (fs(new_dir := d), Some ENOENT)
                | Some (d, Some at) \<Rightarrow>
                    (case ext2_set_link (dir_env nv new_dir) d at old_ino (i_mode (fs old_ino)) True of
                       (d, Some e) \<Rightarrow> Some (fs(new_dir := d), Some e)
                     | (d, None) \<Rightarrow>
                         let fs = set_ctime ino (current_time (dir_env nv ino)) (fs(new_dir := d));
                             fs = if is_dir then inode_dec_link_count ino fs else fs
                         in Some (inode_dec_link_count ino fs, None))))
      | None \<Rightarrow>
          (case add_link nv fs new_dir new_name old_ino of
             None \<Rightarrow> None
           | Some (fs, Some e) \<Rightarrow> Some (fs, Some e)
           | Some (fs, None) \<Rightarrow> Some (if is_dir then inode_inc_link_count new_dir fs else fs, None)))"

text \<open>Then the old entry is deleted, at the place found before; an error of that is not reported.\<close>

definition rename_old ::
  "namei_env \<Rightarrow> inodes \<Rightarrow> 32 word \<Rightarrow> nat \<times> nat \<Rightarrow> 32 word \<Rightarrow> 32 word \<Rightarrow> (nat \<times> nat) option \<Rightarrow> inodes \<times> ext2_err option" where
  "rename_old nv fs old_dir old_de old_ino new_dir dir_de =
     (let fs = set_ctime old_ino (current_time (dir_env nv old_ino)) fs in
      case ext2_delete_entry (dir_env nv old_dir) (fs old_dir) old_de of
        (d, err) \<Rightarrow>
          let fs = fs(old_dir := d) in
          if err = Some BUG then (fs, Some BUG)
          else case dir_de of
              None \<Rightarrow> (fs, None)
            | Some at \<Rightarrow>
                if old_dir \<noteq> new_dir then
                  (case ext2_set_link (dir_env nv old_ino) (fs old_ino) at new_dir (i_mode (fs new_dir)) False of
                     (d, Some e) \<Rightarrow> (fs(old_ino := d), Some e)
                   | (d, None) \<Rightarrow> (inode_dec_link_count old_dir (fs(old_ino := d)), None))
                else (inode_dec_link_count old_dir fs, None))"

definition ext2_rename ::
  "namei_env \<Rightarrow> inodes \<Rightarrow> 32 word \<Rightarrow> string \<Rightarrow> 32 word \<Rightarrow> 32 word \<Rightarrow> string \<Rightarrow> 32 word option \<Rightarrow> 32 word \<Rightarrow> (inodes \<times> ext2_err option) option" where
  "ext2_rename nv fs old_dir old_name old_ino new_dir new_name new_ino flags =
     (if flags AND NOT 1 \<noteq> 0 then Some (fs, Some EINVAL)
      else case (dquot_initialize nv old_dir, dquot_initialize nv new_dir) of
          (Some e, _) \<Rightarrow> Some (fs, Some e)
        | (None, Some e) \<Rightarrow> Some (fs, Some e)
        | (None, None) \<Rightarrow>
            (case ext2_find_entry (dir_env nv old_dir) (fs old_dir) old_name of
               None \<Rightarrow> None
             | Some (d, None) \<Rightarrow> Some (fs(old_dir := d), Some ENOENT)
             | Some (d, Some old_de) \<Rightarrow>
                 let fs = fs(old_dir := d); is_dir = S_ISDIR (i_mode (fs old_ino));
                     (d, dir_de) = (if is_dir then ext2_dotdot (dir_env nv old_ino) (fs old_ino) else (fs old_ino, None));
                     fs = fs(old_ino := d)
                 in if is_dir \<and> dir_de = None then Some (fs, Some EIO)
                    else case rename_new nv fs old_ino new_dir new_name new_ino is_dir of
                        None \<Rightarrow> None
                      | Some (fs, Some e) \<Rightarrow> Some (fs, Some e)
                      | Some (fs, None) \<Rightarrow> Some (rename_old nv fs old_dir old_de old_ino new_dir dir_de)))"

end
