(* ===== verification/Ext2_Names.thy ===== *)
theory Ext2_Names
  imports Ext2_Namei
begin

unbundle bit_operations_syntax

text \<open>
  What the operations on names do to the entries of a directory. The locale is what
  \<open>namei.c\<close> relies on in \<open>dir.c\<close>: an entry is found, added, redirected or deleted, and the
  others stay where they are. The operations of \<open>Ext2_Dir\<close> are an instance.
\<close>

section \<open>The interface of a directory\<close>

locale name_directory =
  fixes inv :: "'d \<Rightarrow> 'r \<Rightarrow> bool" and at :: "'r \<Rightarrow> string \<Rightarrow> 'p \<Rightarrow> bool" and entries :: "'r \<Rightarrow> string \<Rightarrow> 'v option"
    and fits :: "'d \<Rightarrow> string \<Rightarrow> 'w \<Rightarrow> bool" and val :: "'w \<Rightarrow> 'v"
    and find :: "'d \<Rightarrow> string \<Rightarrow> ('d \<times> 'p option) option" and add :: "'d \<Rightarrow> string \<Rightarrow> 'w \<Rightarrow> ('d \<times> 'e option) option"
    and put :: "'d \<Rightarrow> 'p \<Rightarrow> 'w \<Rightarrow> 'd \<times> 'e option" and del :: "'d \<Rightarrow> 'p \<Rightarrow> 'd \<times> 'e option"
  assumes find_law: "inv d r \<Longrightarrow> \<exists>d' res. find d name = Some (d', res) \<and> inv d' r \<and> (\<forall>nm w. fits d nm w \<longrightarrow> fits d' nm w) \<and>
      (case res of None \<Rightarrow> entries r name = None | Some p \<Rightarrow> at r name p)"
    and at_law: "inv d r \<Longrightarrow> at r name p \<Longrightarrow> entries r name \<noteq> None"
    and add_law: "inv d r \<Longrightarrow> fits d name w \<Longrightarrow> entries r name = None \<Longrightarrow>
      \<exists>d' r'. add d name w = Some (d', None) \<and> inv d' r' \<and> (\<forall>nm p. at r nm p \<longrightarrow> at r' nm p) \<and> entries r' = (entries r)(name \<mapsto> val w)"
    and put_law: "inv d r \<Longrightarrow> fits d name w \<Longrightarrow> at r name p \<Longrightarrow>
      \<exists>d' r'. put d p w = (d', None) \<and> inv d' r' \<and> (\<forall>nm q. at r nm q \<longrightarrow> at r' nm q) \<and> entries r' = (entries r)(name \<mapsto> val w)"
    and del_law: "inv d r \<Longrightarrow> at r name p \<Longrightarrow>
      \<exists>d' r'. del d p = (d', None) \<and> inv d' r' \<and> entries r' = (entries r)(name := None)"
begin

lemma find_present:
  assumes "inv d r" and "entries r name \<noteq> None"
  shows "\<exists>d' p. find d name = Some (d', Some p) \<and> inv d' r \<and> (\<forall>nm w. fits d nm w \<longrightarrow> fits d' nm w) \<and> at r name p"
  using find_law [OF assms(1), of name] assms(2) by (auto split: option.splits)

lemma find_absent:
  assumes "inv d r" and "entries r name = None"
  shows "\<exists>d'. find d name = Some (d', None) \<and> inv d' r"
  using find_law [OF assms(1), of name] assms(2) at_law by (fastforce split: option.splits)

text \<open>Find and delete.\<close>

lemma remove:
  assumes "inv d r" and "entries r name \<noteq> None"
  shows "\<exists>d1 p d2 r2. find d name = Some (d1, Some p) \<and> del d1 p = (d2, None) \<and> inv d2 r2 \<and> entries r2 = (entries r)(name := None)"
  using find_present [OF assms] del_law by blast

text \<open>Entering a name, over an entry of that name or as a new one; what was found before is still there.\<close>

lemma enter:
  assumes "inv d r" and "fits d name w"
  shows "entries r name = None \<Longrightarrow>
      \<exists>d' r'. add d name w = Some (d', None) \<and> inv d' r' \<and> (\<forall>nm p. at r nm p \<longrightarrow> at r' nm p) \<and> entries r' = (entries r)(name \<mapsto> val w)"
    "entries r name \<noteq> None \<Longrightarrow>
      \<exists>d1 p d' r'. find d name = Some (d1, Some p) \<and> put d1 p w = (d', None) \<and> inv d' r' \<and> (\<forall>nm q. at r nm q \<longrightarrow> at r' nm q) \<and>
        entries r' = (entries r)(name \<mapsto> val w)"
proof -
  show "\<exists>d1 p d' r'. find d name = Some (d1, Some p) \<and> put d1 p w = (d', None) \<and> inv d' r' \<and> (\<forall>nm q. at r nm q \<longrightarrow> at r' nm q) \<and>
      entries r' = (entries r)(name \<mapsto> val w)" if present: "entries r name \<noteq> None"
  proof -
    obtain d1 p where p: "find d name = Some (d1, Some p)" "inv d1 r" "fits d1 name w" "at r name p"
      using find_present [OF assms(1) present] assms(2) by blast
    from put_law [OF p(2-4)] p(1) show ?thesis by blast
  qed
qed (rule add_law [OF assms])

end

section \<open>Link counts\<close>

text \<open>The operations on directories leave the link count to their callers.\<close>

lemma nlink_simps [simp]:
  "i_nlink (set_data n p d) = i_nlink d" "i_nlink (set_flags n ok d) = i_nlink d" "i_nlink (touch env d) = i_nlink d"
  "i_nlink (fst (ext2_commit_chunk env d pos len)) = i_nlink d"
  by (simp_all add: set_data_def set_flags_def touch_def ext2_commit_chunk_def Let_def)

lemma get_page_nlink: "ext2_get_page env d n = (d', r) \<Longrightarrow> i_nlink d' = i_nlink d"
  by (auto simp: ext2_get_page_def ext2_check_page_def Let_def split: option.splits if_splits)

lemma prepare_nlink: "ext2_prepare_chunk env d pos len = Inr d' \<Longrightarrow> i_nlink d' = i_nlink d"
  by (auto simp: ext2_prepare_chunk_def split: option.splits)

lemma commit_nlink: "ext2_commit_chunk env d pos len = (d', err) \<Longrightarrow> i_nlink d' = i_nlink d"
  by (metis fst_conv nlink_simps(4))

lemma got_it_nlink: "got_it env d n name ino mode spot = (d', err) \<Longrightarrow> i_nlink d' = i_nlink d"
  by (auto simp: got_it_def Let_def dest!: prepare_nlink commit_nlink split: prod.splits sum.splits)

lemma add_link_nlink:
  assumes "ext2_add_link env d name ino mode = Some (d', err)"
  shows "i_nlink d' = i_nlink d"
proof -
  have "i_nlink (fst r) = i_nlink d" if "add_pages env name ino mode np n d = Some r" for np n r
  proof (rule add_pages.raw_induct [OF _ that], goal_cases)
    case (1 f env name ino mode np n d r)
    obtain d1 page where get: "ext2_get_page env d n = (d1, page)" by (cases "ext2_get_page env d n")
    note nl = get_page_nlink [OF get]
    show ?case
    proof (cases "n \<le> np")
      case True
      show ?thesis
      proof (cases page)
        case (Inr p)
        then obtain x where "add_scan env name p (ext2_last_byte env d1 n) 0 = Some x"
          and x: "(case x of Inl e \<Rightarrow> Some (d1, Some e) | Inr (Some spot) \<Rightarrow> Some (got_it env d1 n name ino mode spot)
            | Inr None \<Rightarrow> f env name ino mode np (Suc n) d1) = Some r"
          using 1(2) True get by (auto simp: bind_eq_Some_conv)
        consider e where "x = Inl e" | "x = Inr None" | spot where "x = Inr (Some spot)" by (cases x) (blast, metis option.exhaust)
        then show ?thesis using x nl 1(1) [of env name ino mode np "Suc n" d1 r] got_it_nlink [of env d1 n name ino mode]
          by cases (auto, metis prod.collapse)
      qed (use 1(2) True get nl in auto)
    qed (use 1(2) in auto)
  qed
  then show ?thesis using assms unfolding ext2_add_link_def by fastforce
qed

lemma delete_entry_nlink: "ext2_delete_entry env d at = (d', err) \<Longrightarrow> i_nlink d' = i_nlink d"
  by (auto simp: ext2_delete_entry_def Let_def dest!: prepare_nlink commit_nlink split: prod.splits sum.splits option.splits)

section \<open>The operations of ext2\<close>

text \<open>An environment in which reading and writing succeed, and a directory in it.\<close>

definition writes_ok :: "ext2_env \<Rightarrow> bool" where
  "writes_ok env \<longleftrightarrow> env_ok env \<and> io_ok env \<and> (\<forall>pos len. write_begin env pos len = None) \<and> write_sync env = None"

definition entry_fits :: "ext2_env \<Rightarrow> dinode \<Rightarrow> string \<Rightarrow> 32 word \<times> 16 word \<Rightarrow> bool" where
  "entry_fits env d name w \<longleftrightarrow> name_ok name \<and> fst w \<noteq> 0 \<and> unat (fst w) \<le> s_inodes_count env \<and>
     i_size d + s_blocksize env + page_size env < 2 ^ 32"

lemma found_lookup:
  assumes "found_at rss name p"
  shows "map_of (live (concat rss)) name \<noteq> None"
proof -
  obtain n as r bs where "n < length rss" "rss ! n = as @ r # bs" "r_match name r"
    using assms by (auto simp: found_at_def split: prod.splits)
  then have "r \<in> set (concat rss)" using nth_mem [of n rss] by (auto intro!: bexI [of _ "rss ! n"])
  then have "(name, r_ino r, r_type r) \<in> set (live (concat rss))" using \<open>r_match name r\<close> unfolding live_match by blast
  from weak_map_of_SomeI [OF this] show ?thesis by auto
qed

interpretation ext2_names: name_directory
  "\<lambda>d rss. writes_ok env \<and> dir_inv env d rss" found_at "\<lambda>rss. map_of (live (concat rss))" "entry_fits env"
  "\<lambda>(ino, mode). (ino, entry_type env mode)" "ext2_find_entry env" "\<lambda>d name (ino, mode). ext2_add_link env d name ino mode"
  "\<lambda>d at (ino, mode). ext2_set_link env d at ino mode True" "ext2_delete_entry env"
  for env
proof (unfold_locales, goal_cases)
  case (1 d r name)
  then have "env_ok env" "io_ok env" "dir_rep env d r" by (simp_all add: writes_ok_def dir_inv_def)
  from find_entry_ok [OF this, of name] obtain d' res where r: "ext2_find_entry env d name = Some (d', res)" "sim d d'"
    "case res of None \<Rightarrow> \<forall>r \<in> set (concat r). \<not> r_match name r | Some at \<Rightarrow> found_at r name at" by blast
  have "map_of (live (concat r)) name = None" if "res = None"
    using r(3) that live_match [of name _ "concat r"] by (fastforce simp: map_of_eq_None_iff)
  then show ?case using 1 r dir_inv_sim [OF _ r(2)] sim_fields(3) [OF r(2)]
    by (auto simp: entry_fits_def split: option.splits)
next
  case (2 d r name p)
  then show ?case by (intro found_lookup)
next
  case (3 d r name w)
  obtain ino mode where w: "w = (ino, mode)" by (cases w)
  have env: "env_ok env" "io_ok env" and inv: "dir_inv env d r" using 3 by (simp_all add: writes_ok_def)
  have "dir_lookup env d name = None" using dir_lookup_map [OF env inv] 3(3) by simp
  then obtain res where "ext2_add_link env d name ino mode = Some res" "added env name ino mode r res"
    using add_link_ok [OF env inv, of name ino mode] 3(2) w by (auto simp: entry_fits_def)
  then show ?case using 3(1) w by (cases res) (auto simp: added_def writes_ok_def keeps_def)
next
  case (4 d r name w p)
  obtain ino mode n de where w: "w = (ino, mode)" "p = (n, de)" by (cases w, cases p)
  have "linked env name ino mode d r (ext2_set_link env d (n, de) ino mode True)"
    using 4 w by (intro set_link_ok) (auto simp: writes_ok_def entry_fits_def)
  then show ?case using 4(1) w by (auto simp: linked_def writes_ok_def keeps_def)
next
  case (5 d r name p)
  obtain n de where p: "p = (n, de)" by (cases p)
  have "deleted env name d r (ext2_delete_entry env d (n, de))" using 5 p by (intro delete_ok) (auto simp: writes_ok_def)
  then show ?case using 5(1) p by (auto simp: deleted_def writes_ok_def)
qed

end
