(* ===== verification/Ext2_Empty.thy ===== *)
theory Ext2_Empty
  imports Ext2_Change
begin

unbundle bit_operations_syntax

text \<open>
  New and empty directories: \<open>ext2_make_empty\<close> writes a directory with the entries for itself and
  its parent, and \<open>ext2_empty_dir\<close> holds of the directories that have no others.
\<close>

section \<open>Making a directory\<close>

text \<open>The two records of a new directory.\<close>

definition dot_rec :: "32 word \<Rightarrow> 8 word \<Rightarrow> drec" where
  "dot_rec ino t = \<lparr>r_ino = ino, r_nlen = 1, r_type = t, r_body = [CHR ''.'', CHR 0x00, CHR 0x00, CHR 0x00]\<rparr>"

definition dotdot_rec :: "nat \<Rightarrow> 32 word \<Rightarrow> 8 word \<Rightarrow> drec" where
  "dotdot_rec sz ino t =
     \<lparr>r_ino = ino, r_nlen = 2, r_type = t, r_body = [CHR ''.'', CHR ''.'', CHR 0x00, CHR 0x00] @ replicate (sz - 24) CHR 0x00\<rparr>"

lemma dot_facts [simp]:
  "rlen (dot_rec ino t) = 12" "24 \<le> sz \<Longrightarrow> rlen (dotdot_rec sz ino t) = sz - 12"
  "r_name (dot_rec ino t) = ''.''" "r_name (dotdot_rec sz ino t) = ''..''"
  "r_ino (dot_rec ino t) = ino" "r_ino (dotdot_rec sz ino t) = ino" "r_nlen (dot_rec ino t) = 1" "r_nlen (dotdot_rec sz ino t) = 2"
  "r_type (dot_rec ino t) = t" "r_type (dotdot_rec sz ino t) = t"
  by (simp_all add: dot_rec_def dotdot_rec_def rlen_def r_name_def)

lemma put_at_step:
  "put_at 0 [] s = s" "put_at 0 (x # v) (c # s) = x # put_at 0 v s" "put_at (numeral k) v (c # s) = c # put_at (pred_numeral k) v s"
  "put_at (Suc n) v (c # s) = c # put_at n v s"
  by (simp_all add: put_at_def numeral_eq_Suc)

lemma new_dir_bytes:
  assumes "24 \<le> sz" and "sz \<le> length p"
  shows "put_at 19 (u8_enc t) (put_at 20 [CHR ''.'', CHR ''.'', CHR 0x00, CHR 0x00] (put_at 12 (le32_enc parent)
      (put_at 16 (le16_enc (of_nat (sz - 12))) (put_at 18 (u8_enc 2)
      (put_at 7 (u8_enc t) (put_at 0 (le32_enc ino) (put_at 8 [CHR ''.'', CHR 0x00, CHR 0x00, CHR 0x00]
      (put_at 4 (le16_enc 12) (put_at 6 (u8_enc 1) (put_at 0 (replicate sz CHR 0x00) p)))))))))) =
    recs_bytes [dot_rec ino t, dotdot_rec sz parent t] @ drop sz p"
proof -
  obtain m where m: "sz = 24 + m" using assms(1) le_Suc_ex by blast
  have zeros: "replicate 24 z = [z,z,z,z,z,z,z,z,z,z,z,z,z,z,z,z,z,z,z,z,z,z,z,z]" for z :: char by (simp add: numeral_eq_Suc)
  have p: "put_at 0 (replicate sz CHR 0x00) p = replicate 24 CHR 0x00 @ replicate m CHR 0x00 @ drop sz p"
    using assms(2) by (simp add: put_at_def m replicate_add)
  obtain a b c d where i: "le32_enc ino = [a, b, c, d]" by (simp add: le32_enc_def)
  obtain a' b' c' d' where q: "le32_enc parent = [a', b', c', d']" by (simp add: le32_enc_def)
  obtain x y where w: "le16_enc (of_nat (sz - 12)) = [x, y]" by (simp add: le16_enc_def)
  obtain x' y' where w': "le16_enc 12 = [x', y']" by (simp add: le16_enc_def)
  obtain u where u: "u8_enc t = [u]" by (simp add: u8_enc_def)
  have r: "rec_bytes (dot_rec ino t) = [a, b, c, d, x', y'] @ u8_enc 1 @ [u, CHR ''.'', CHR 0x00, CHR 0x00, CHR 0x00]"
    unfolding rec_bytes_def dot_facts by (simp add: dot_rec_def i w' u)
  have r': "rec_bytes (dotdot_rec sz parent t) = [a', b', c', d', x, y] @ u8_enc 2 @ [u, CHR ''.'', CHR ''.'', CHR 0x00, CHR 0x00] @ replicate m CHR 0x00"
    unfolding rec_bytes_def dot_facts(2) [OF assms(1)] w by (simp add: dotdot_rec_def q u m)
  obtain v v' where v: "u8_enc 1 = [v]" "u8_enc 2 = [v']" by (simp add: u8_enc_def)
  show ?thesis unfolding p zeros i q w w' u v list.map concat.simps r r' by (simp add: put_at_step)
qed

text \<open>An inode that has no contents yet.\<close>

definition blank :: "ext2_env \<Rightarrow> dinode \<Rightarrow> bool" where
  "blank env d \<longleftrightarrow> i_size d = 0 \<and> (\<forall>n. length (pdata (pages d n)) = page_size env \<and> \<not> PageError (pages d n))"

definition new_recs :: "ext2_env \<Rightarrow> dinode \<Rightarrow> 32 word \<Rightarrow> drec list" where
  "new_recs env d parent = [dot_rec (i_ino d) (entry_type env (i_mode d)), dotdot_rec (s_blocksize env) parent (entry_type env (i_mode d))]"

lemma new_page:
  assumes "env_ok env" and "length p = page_size env" and "unat (i_ino d) \<le> s_inodes_count env" and "unat parent \<le> s_inodes_count env"
  shows "page_recs env (recs_bytes (new_recs env d parent) @ drop (s_blocksize env) p) (s_blocksize env) (new_recs env d parent)"
proof -
  note b = env_okD [OF assms(1)]
  have sz: "rsize (new_recs env d parent) = s_blocksize env" using b(2) by (simp add: new_recs_def)
  have "in_chunk env 0 12" "in_chunk env 12 (s_blocksize env - 12)" using b(2) by (simp_all add: in_chunk_def)
  moreover have "4 dvd s_blocksize env - 12" using b(2,5) by (intro dvd_diff_nat) simp_all
  ultimately have "recs_ok env 0 (new_recs env d parent)"
    using b(2) assms(3,4) by (simp add: new_recs_def rec_ok_def EXT2_DIR_REC_LEN_eq)
  then show ?thesis using sz b(3) assms(2) by (simp add: page_recs_def)
qed

lemma make_empty_ok:
  assumes env: "env_ok env" "io_ok env" and new: "blank env d" and "grab_cache_page env" and "write_begin env 0 (s_blocksize env) = None"
    and ino: "i_ino d \<noteq> 0" "unat (i_ino d) \<le> s_inodes_count env" "parent \<noteq> 0" "unat parent \<le> s_inodes_count env"
  shows "\<exists>d'. ext2_make_empty env d parent = (d', write_sync env) \<and> dir_inv env d' [new_recs env d parent] \<and>
    i_ino d' = i_ino d \<and> i_mode d' = i_mode d \<and> i_nlink d' = i_nlink d"
proof -
  let ?b = "s_blocksize env" and ?p = "pdata (pages d 0)" and ?rs = "new_recs env d parent"
  let ?q = "recs_bytes ?rs @ drop ?b ?p" and ?k = "blocks_after env (i_blocks d) 0 ?b"
  let ?d = "(set_data 0 ?q (d\<lparr>i_blocks := ?k\<rparr>))\<lparr>i_version := i_version d + 1, i_size := ?b\<rparr>"
  note b = env_okD [OF env(1)]
  have len: "length ?p = page_size env" "24 \<le> ?b" "?b \<le> length ?p" using new b by (simp_all add: blank_def)
  have "ext2_make_empty env d parent = ext2_commit_chunk env (set_data 0 ?q (d\<lparr>i_blocks := ?k\<rparr>)) 0 ?b"
    using new_dir_bytes [OF len(2,3), of "entry_type env (i_mode d)" parent "i_ino d"] assms(4,5)
    by (simp add: ext2_make_empty_def ext2_prepare_chunk_def ext2_chunk_size_def to_disk [OF env(1)] set_de_type_eq Let_def new_recs_def)
  moreover have "\<dots> = (?d, write_sync env)" using new b(1) by (simp add: ext2_commit_chunk_def Let_def blank_def set_data_def)
  ultimately have eq: "ext2_make_empty env d parent = (?d, write_sync env)" by simp
  have page: "page_recs env ?q ?b ?rs" by (rule new_page [OF env(1) len(1) ino(2,4)])
  have "dir_pages env ?d = 1" using b(1,3) by (simp add: dir_pages_def div_nat_eqI)
  moreover have "i_blocks ?d = ?k" by (simp add: set_data_def)
  moreover have "?b \<le> 512 * ?k" using env(2) unfolding io_ok_def by (metis add_0 le0)
  moreover have "plimit env ?d 0 = ?b" using b(3) by (simp add: plimit_def)
  moreover have "length ?q = page_size env" using page by (simp add: page_recs_def)
  ultimately have "dir_rep env ?d [?rs]" using page new b by (auto simp: dir_rep_def pages_set_data blank_def)
  moreover have "distinct (map fst (live ?rs))" by (simp add: new_recs_def live_simps)
  ultimately have "dir_inv env ?d [?rs]" by (simp add: dir_inv_def new_recs_def)
  then show ?thesis using eq by (intro exI [of _ ?d]) (simp add: set_data_def)
qed

section \<open>Recognising an empty directory\<close>

definition dot_entry :: "32 word \<Rightarrow> drec \<Rightarrow> bool" where
  "dot_entry ino r \<longleftrightarrow> r_name r = ''..'' \<or> r_name r = ''.'' \<and> r_ino r = ino"

lemma dot_entry_bytes:
  assumes "rec_ok env r" and "r_nlen r \<noteq> 0"
  shows "dot_entry ino r \<longleftrightarrow>
    r_body r ! 0 = CHR ''.'' \<and> unat (r_nlen r) \<le> 2 \<and> (if unat (r_nlen r) < 2 then r_ino r = ino else r_body r ! 1 = CHR ''.'')"
proof -
  have len: "unat (r_nlen r) \<le> length (r_body r)" "0 < unat (r_nlen r)" using name_fits [OF assms(1)] assms(2) by (simp_all add: unat_gt_0)
  consider "unat (r_nlen r) = 1" | "unat (r_nlen r) = 2" | "2 < unat (r_nlen r)" using len(2) by linarith
  then show ?thesis
  proof cases
    case 3
    then have "length (r_name r) > 2" using len(1) by (simp add: r_name_def)
    then show ?thesis using 3 by (auto simp: dot_entry_def)
  qed (use len(1) in \<open>(cases "r_body r"; cases "tl (r_body r)"), auto simp: dot_entry_def r_name_def numeral_2_eq_2\<close>)+
qed

lemma empty_page_ok:
  assumes "env_ok env"
  shows "page_recs env p limit (as @ bs) \<Longrightarrow> \<forall>r \<in> set bs. r_ino r \<noteq> 0 \<longrightarrow> r_nlen r \<noteq> 0 \<Longrightarrow>
    empty_page env ino p limit (rsize as) \<longleftrightarrow> (\<forall>r \<in> set bs. r_ino r \<noteq> 0 \<longrightarrow> dot_entry ino r)"
proof (induction bs arbitrary: as)
  case Nil
  then show ?case using page_limit [OF Nil(1)] by (subst empty_page.simps) simp
next
  case (Cons r bs)
  note at = page_at [OF assms Cons.prems(1)] and ok = page_rec [OF assms Cons.prems(1)]
  have in_page: "rsize as + EXT2_DIR_REC_LEN 1 \<le> limit" using ok(1,4) by (simp add: rec_ok_def)
  have body: "4 \<le> length (r_body r)" using ok(1) by (simp add: rec_ok_def rlen_def)
  have nth: "p ! (rsize as + 8 + k) = r_body r ! k" if "k < length (r_body r)" for k
    using nth_drop [of "rsize as + 8" p k] at(7) ok(5) assms Cons.prems(1) that
    by (simp add: nth_append page_recs_def rlen_def)
  have "rsize as + 9 = rsize as + 8 + 1" by simp
  then have "p ! (rsize as + 8) = r_body r ! 0" "p ! (rsize as + 9) = r_body r ! 1"
    using nth [of 0, unfolded add_0_right] nth [of 1] body by (metis less_le_trans zero_less_numeral, simp add: add.commute)
  moreover have "empty_page env ino p limit (rsize (as @ [r])) \<longleftrightarrow> (\<forall>r \<in> set bs. r_ino r \<noteq> 0 \<longrightarrow> dot_entry ino r)"
    using Cons.IH [of "as @ [r]"] Cons.prems by simp
  moreover have "r_ino r \<noteq> 0 \<Longrightarrow> r_nlen r \<noteq> 0" using Cons.prems(2) by simp
  ultimately show ?case using in_page at(2-5) dot_entry_bytes [OF ok(1), of ino]
    by (subst empty_page.simps) auto
qed

lemma empty_pages_ok:
  assumes env: "env_ok env" "io_ok env"
  shows "dir_inv env d rss \<Longrightarrow> sim dir d \<Longrightarrow> set ns \<subseteq> {..<length rss} \<Longrightarrow>
    sim dir (fst (empty_pages env ns d)) \<and>
    (snd (empty_pages env ns d) \<longleftrightarrow> (\<forall>n \<in> set ns. \<forall>r \<in> set (rss ! n). r_ino r \<noteq> 0 \<longrightarrow> dot_entry (i_ino dir) r))"
proof (induction ns arbitrary: d)
  case (Cons n ns)
  have rep: "dir_rep env d rss" and n: "n < length rss" "n < dir_pages env d" using Cons.prems by (auto simp: dir_inv_def dir_rep_def)
  obtain d1 where d1: "ext2_get_page env d n = (d1, Inr (pdata (pages d n)))" "sim d d1" using get_page_ok [OF env rep] n(2) by blast
  note sim1 = sim_trans [OF Cons.prems(2) d1(2)] and inv1 = dir_inv_sim [OF Cons.prems(1) d1(2)]
  have "0 < page_size env" using env(1) by (simp add: env_ok_def)
  then have "n * page_size env < i_size d" using n(2) dir_pages_less by blast
  then have lb: "ext2_last_byte env d1 n = plimit env d n"
    using rep sim_sizes(2) [OF d1(2)] last_byte_eq [of d n env] by (simp add: dir_rep_def)
  have "page_recs env (pdata (pages d n)) (plimit env d n) ([] @ rss ! n)" using rep n(1) by (simp add: dir_rep_def)
  moreover have "\<forall>r \<in> set (rss ! n). r_ino r \<noteq> 0 \<longrightarrow> r_nlen r \<noteq> 0" using Cons.prems(1) nth_mem [OF n(1)] by (auto simp: dir_inv_def)
  ultimately have page: "empty_page env (i_ino d1) (pdata (pages d n)) (ext2_last_byte env d1 n) 0 \<longleftrightarrow>
      (\<forall>r \<in> set (rss ! n). r_ino r \<noteq> 0 \<longrightarrow> dot_entry (i_ino dir) r)"
    using empty_page_ok [OF env(1), of _ _ "[]"] lb sim_fields(1) [OF sim1] by simp
  show ?case using Cons.IH [OF inv1 sim1] Cons.prems(3) page d1(1) sim1 by auto
qed simp

lemma empty_dir_ok:
  assumes "env_ok env" and "io_ok env" and "dir_inv env d rss"
  shows "sim d (fst (ext2_empty_dir env d))"
    "snd (ext2_empty_dir env d) \<longleftrightarrow> (\<forall>(name, ino, t) \<in> set (live (concat rss)). name = ''..'' \<or> name = ''.'' \<and> ino = i_ino d)"
proof -
  have len: "dir_pages env d = length rss" and "sim d d" using assms(3) by (auto simp: dir_inv_def dir_rep_def sim_def)
  note ok = empty_pages_ok [OF assms this(2), of "[0..<length rss]"]
  show "sim d (fst (ext2_empty_dir env d))" using ok len by (simp add: ext2_empty_dir_def atLeast0LessThan)
  have "(\<forall>n \<in> set [0..<length rss]. \<forall>r \<in> set (rss ! n). r_ino r \<noteq> 0 \<longrightarrow> dot_entry (i_ino d) r) \<longleftrightarrow>
      (\<forall>rs \<in> set rss. \<forall>r \<in> set rs. r_ino r \<noteq> 0 \<longrightarrow> dot_entry (i_ino d) r)"
    by (auto simp: all_set_conv_all_nth)
  also have "\<dots> \<longleftrightarrow> (\<forall>(name, ino, t) \<in> set (live (concat rss)). name = ''..'' \<or> name = ''.'' \<and> ino = i_ino d)"
    by (auto simp: live_def dot_entry_def)
  finally show "snd (ext2_empty_dir env d) \<longleftrightarrow> (\<forall>(name, ino, t) \<in> set (live (concat rss)). name = ''..'' \<or> name = ''.'' \<and> ino = i_ino d)"
    using ok len by (simp add: ext2_empty_dir_def atLeast0LessThan)
qed

end
