(* ===== verification/Ext2_Readdir.thy ===== *)
theory Ext2_Readdir
  imports Ext2_Change
begin

text \<open>
  Reading a directory. A caller that comes back with the position it was left at, however many
  entries it takes at a time, gets every entry in use once and in order.
\<close>

section \<open>One page\<close>

definition reported :: "ext2_env \<Rightarrow> drec list \<Rightarrow> (string \<times> 32 word \<times> nat) list" where
  "reported env rs = map (\<lambda>(name, ino, t). (name, ino, if has_filetype env \<and> unat t < 8 then ext2_filetype_table ! unat t else 0)) (live rs)"

lemma reported_simps [simp]:
  "reported env [] = []" "reported env (as @ bs) = reported env as @ reported env bs"
  by (simp_all add: reported_def live_simps)

lemma reported_Cons:
  "reported env (r # rs) =
    (if r_ino r = 0 then [] else [(r_name r, r_ino r, if has_filetype env \<and> unat (r_type r) < 8 then ext2_filetype_table ! unat (r_type r) else 0)])
      @ reported env rs"
  by (simp add: reported_def live_simps)

lemma page_name:
  assumes "env_ok env" and "page_recs env p limit (as @ r # bs)"
  shows "de_name p (rsize as) = r_name r"
  unfolding page_at(5,7) [OF assms] using name_fits [OF page_rec(1) [OF assms]] by (simp add: r_name_def)

text \<open>What is left of the page where the caller stopped.\<close>

definition emitted :: "ext2_env \<Rightarrow> drec list \<Rightarrow> drec list \<Rightarrow> dir_context \<Rightarrow> dir_context \<Rightarrow> bool" where
  "emitted env xs ys ctx ctx' \<longleftrightarrow> ctx' = ctx\<lparr>cpos := cpos ctx + rsize xs, taken := taken ctx @ reported env xs, room := room ctx - length (reported env xs)\<rparr>
     \<and> length (reported env xs) \<le> room ctx"

lemma emit_page_ok:
  assumes "env_ok env"
  shows "page_recs env p limit (as @ bs) \<Longrightarrow>
    \<exists>xs ys ctx'. bs = xs @ ys \<and> emitted env xs ys ctx ctx' \<and>
      emit_page env p limit (rsize as) ctx = (ctx', Inr (ys = [])) \<and> (ys \<noteq> [] \<longrightarrow> r_ino (hd ys) \<noteq> 0 \<and> room ctx' = 0)"
proof (induction bs arbitrary: as ctx)
  case Nil
  then show ?case using page_limit [OF Nil] by (subst emit_page.simps) (simp add: emitted_def)
next
  case (Cons r bs)
  note at = page_at [OF assms Cons.prems] and ok = page_rec [OF assms Cons.prems]
  have in_page: "rsize as + EXT2_DIR_REC_LEN 1 \<le> limit" using ok(1,4) by (simp add: rec_ok_def)
  have raw: "raw_rec p (rsize as) \<noteq> 0" using at(3) .
  have dt: "dir_type env p (rsize as) = (if has_filetype env \<and> unat (r_type r) < 8 then ext2_filetype_table ! unat (r_type r) else 0)"
    unfolding dir_type_def at(6) ..
  show ?case
  proof (cases "r_ino r \<noteq> 0 \<and> room ctx = 0")
    case True
    then have "emit_page env p limit (rsize as) ctx = (ctx, Inr False)"
      using in_page raw at(4) by (subst emit_page.simps) simp
    then show ?thesis using True
      by (intro exI [of _ "[]"] exI [of _ "r # bs"] exI [of _ ctx]) (simp add: emitted_def)
  next
    case False
    let ?ctx = "if r_ino r \<noteq> 0
      then ctx\<lparr>taken := taken ctx @ [(de_name p (rsize as), r_ino r, dir_type env p (rsize as))], room := room ctx - 1\<rparr> else ctx"
    have step: "emit_page env p limit (rsize as) ctx =
        emit_page env p limit (rsize (as @ [r])) (?ctx\<lparr>cpos := cpos ?ctx + rlen r\<rparr>)"
      using in_page raw at(1,2,4) False by (subst emit_page.simps) (auto simp: Let_def)
    have "page_recs env p limit ((as @ [r]) @ bs)" using Cons.prems by simp
    from Cons.IH [OF this, of "?ctx\<lparr>cpos := cpos ?ctx + rlen r\<rparr>"] obtain xs ys ctx' where
      x: "bs = xs @ ys" "emitted env xs ys (?ctx\<lparr>cpos := cpos ?ctx + rlen r\<rparr>) ctx'"
        "emit_page env p limit (rsize as) ctx = (ctx', Inr (ys = []))" "ys \<noteq> [] \<longrightarrow> r_ino (hd ys) \<noteq> 0 \<and> room ctx' = 0"
      unfolding step by blast
    have "emitted env (r # xs) ys ctx ctx'"
      using x(2) False unfolding emitted_def reported_Cons page_name [OF assms Cons.prems] dt by (auto simp: add.assoc)
    then show ?thesis using x by (intro exI [of _ "r # xs"] exI [of _ ys] exI [of _ ctx']) simp
  qed
qed

text \<open>A position at the start of a record stays where it is when it is checked again.\<close>

lemma validate_walk:
  assumes "env_ok env"
  shows "page_recs env p limit (cs @ ds @ bs) \<Longrightarrow> validate_loop env p (rsize (cs @ ds)) (rsize cs) = rsize (cs @ ds)"
proof (induction ds arbitrary: cs)
  case Nil
  then show ?case by (subst validate_loop.simps) simp
next
  case (Cons d ds)
  have pr: "page_recs env p limit (cs @ d # ds @ bs)" using Cons.prems by simp
  have "validate_loop env p (rsize ((cs @ [d]) @ ds)) (rsize (cs @ [d])) = rsize ((cs @ [d]) @ ds)" using Cons.IH [of "cs @ [d]"] pr by simp
  then show ?case using page_at [OF assms pr] by (subst validate_loop.simps) (simp add: add.assoc)
qed

lemma validate_ok:
  assumes "env_ok env" and "page_recs env p limit (as @ r # bs)"
  shows "ext2_validate_entry env p (rsize as) = rsize as"
proof -
  obtain cs ds where cs: "as = cs @ ds" "chunk_start env (rsize as) = rsize cs" by (rule chunk_of [OF assms])
  then have "page_recs env p limit (cs @ ds @ r # bs)" using assms(2) by simp
  from validate_walk [OF assms(1) this] show ?thesis using cs by (simp add: ext2_validate_entry_def)
qed

section \<open>The whole directory\<close>

text \<open>A position in a directory, with the entries behind it.\<close>

definition at_pos :: "ext2_env \<Rightarrow> dinode \<Rightarrow> drec list list \<Rightarrow> nat \<Rightarrow> (string \<times> 32 word \<times> nat) list \<Rightarrow> bool" where
  "at_pos env d rss pos es \<longleftrightarrow>
     (\<exists>n as bs. n < length rss \<and> rss ! n = as @ bs \<and> bs \<noteq> [] \<and> pos = n * page_size env + rsize as \<and>
        es = reported env (bs @ concat (drop (Suc n) rss))) \<or>
     pos = i_size d \<and> es = []"

lemma at_posI:
  "n < length rss \<Longrightarrow> rss ! n = as @ bs \<Longrightarrow> bs \<noteq> [] \<Longrightarrow>
    at_pos env d rss (n * page_size env + rsize as) (reported env (bs @ concat (drop (Suc n) rss)))"
  unfolding at_pos_def by blast

lemma page_full:
  assumes "env_ok env" and "dir_rep env d rss" and "n < length rss"
  shows "rsize (rss ! n) = plimit env d n" "rss ! n \<noteq> []" "Suc n < length rss \<Longrightarrow> n * page_size env + plimit env d n = Suc n * page_size env"
    "Suc n = length rss \<Longrightarrow> n * page_size env + plimit env d n = i_size d"
proof -
  have pos: "0 < page_size env" using assms(1) by (simp add: env_ok_def)
  have np: "dir_pages env d = length rss" using assms(2) by (simp add: dir_rep_def)
  have in_size: "n * page_size env < i_size d" using dir_pages_less [OF pos, of n d] np assms(3) by simp
  show lim: "rsize (rss ! n) = plimit env d n" using assms(2,3) page_limit by (metis dir_rep_def)
  show "rss ! n \<noteq> []" using lim in_size pos by (auto simp: plimit_def)
  show "n * page_size env + plimit env d n = Suc n * page_size env" if "Suc n < length rss"
    using dir_pages_less [OF pos, of "Suc n" d] np that by (simp add: plimit_def)
  show "n * page_size env + plimit env d n = i_size d" if "Suc n = length rss"
  proof -
    have "\<not> Suc n < dir_pages env d" using np that by simp
    then have "i_size d \<le> n * page_size env + page_size env" unfolding dir_pages_less [OF pos] by simp
    then show ?thesis using in_size unfolding plimit_def by linarith
  qed
qed

lemma readdir_pages_ok:
  assumes env: "env_ok env" "io_ok env"
  shows "dir_rep env d rss \<Longrightarrow> sim dir d \<Longrightarrow> n < length rss \<Longrightarrow> rss ! n = as @ bs \<Longrightarrow> bs \<noteq> [] \<Longrightarrow>
    cpos ctx = n * page_size env + rsize as \<Longrightarrow> es = reported env (bs @ concat (drop (Suc n) rss)) \<Longrightarrow>
    \<exists>d' fv' ctx'. readdir_pages env [n..<length rss] (rsize as) fv d ctx = (d', fv', ctx', None) \<and> sim dir d' \<and>
      taken ctx' = taken ctx @ take (room ctx) es \<and> at_pos env dir rss (cpos ctx') (drop (room ctx) es)"
proof (induction "length rss - n" arbitrary: n as bs d fv ctx es)
  case (Suc k)
  have pos: "0 < page_size env" using env by (simp add: env_ok_def)
  have np: "dir_pages env d = length rss" using Suc.prems(1) by (simp add: dir_rep_def)
  have "n < dir_pages env d \<or> n * page_size env = i_size d" using Suc.prems(3) np by simp
  from get_page_ok [OF env Suc.prems(1) this] obtain d1 where
    d1: "ext2_get_page env d n = (d1, Inr (pdata (pages d n)))" "sim d d1" by blast
  have sim1: "sim dir d1" and rep1: "dir_rep env d1 rss" using sim_trans [OF Suc.prems(2) d1(2)] sim_rep [OF d1(2) Suc.prems(1)] .
  let ?p = "pdata (pages d n)" and ?lim = "plimit env d n"
  have "n * page_size env \<le> i_size d" using dir_pages_less [OF pos, of n d] np Suc.prems(3) by simp
  then have last: "ext2_last_byte env d1 n = ?lim"
    using last_byte_eq [of d n env] sim_sizes(2) [OF d1(2), of env n] Suc.prems(1) by (simp add: dir_rep_def)
  have pr: "page_recs env ?p ?lim (as @ bs)" using Suc.prems(1,3,4) by (auto simp: dir_rep_def)
  obtain r bs' where bs: "bs = r # bs'" using Suc.prems(5) by (cases bs) auto
  have valid: "ext2_validate_entry env ?p (rsize as) = rsize as" using validate_ok [OF env(1)] pr bs by simp
  obtain xs ys ctx1 where x: "bs = xs @ ys" "emitted env xs ys ctx ctx1"
    "emit_page env ?p ?lim (rsize as) ctx = (ctx1, Inr (ys = []))" "ys \<noteq> [] \<longrightarrow> r_ino (hd ys) \<noteq> 0 \<and> room ctx1 = 0"
    using emit_page_ok [OF env(1) pr, of ctx] by blast
  have same: "ctx\<lparr>cpos := n * page_size env + rsize as\<rparr> = ctx" using Suc.prems(6) by simp
  have step: "readdir_pages env [n..<length rss] (rsize as) fv d ctx =
      (if ys = [] then readdir_pages env [Suc n..<length rss] 0 (i_version d1) d1 ctx1 else (d1, i_version d1, ctx1, None))"
    using Suc.prems(3) d1(1) last x(3) valid same by (auto simp: upt_conv_Cons Let_def)
  have ctx1: "cpos ctx1 = cpos ctx + rsize xs" "taken ctx1 = taken ctx @ reported env xs"
    "room ctx1 = room ctx - length (reported env xs)" "length (reported env xs) \<le> room ctx" using x(2) by (simp_all add: emitted_def)
  have es: "es = reported env xs @ reported env (ys @ concat (drop (Suc n) rss))" using Suc.prems(7) x(1) by simp
  show ?case
  proof (cases "ys = []")
    case False
    then have "length (reported env xs) = room ctx" using x(4) ctx1 by simp
    then have td: "take (room ctx) es = reported env xs" "drop (room ctx) es = reported env (ys @ concat (drop (Suc n) rss))"
      using es by simp_all
    have "rss ! n = (as @ xs) @ ys" "cpos ctx1 = n * page_size env + rsize (as @ xs)"
      using Suc.prems(4,6) x(1) ctx1(1) by simp_all
    then have "at_pos env dir rss (cpos ctx1) (drop (room ctx) es)" unfolding td using at_posI Suc.prems(3) False by metis
    then show ?thesis using step False sim1 ctx1(2) td(1) by simp
  next
    case True
    have size: "rsize as + rsize bs = ?lim" using page_full(1) [OF env(1) Suc.prems(1,3)] Suc.prems(4) by simp
    show ?thesis
    proof (cases "Suc n < length rss")
      case more: True
      have c: "cpos ctx1 = Suc n * page_size env + rsize []"
        using page_full(3) [OF env(1) Suc.prems(1,3) more] size ctx1(1) Suc.prems(6) x(1) True by simp
      let ?es = "reported env (rss ! Suc n @ concat (drop (Suc (Suc n)) rss))"
      have rest: "es = reported env xs @ ?es" using es True more by (simp add: Cons_nth_drop_Suc [symmetric])
      have "k = length rss - Suc n" using Suc.hyps(2) by simp
      from Suc.hyps(1) [OF this rep1 sim1 more _ page_full(2) [OF env(1) rep1 more] c refl, where fv = "i_version d1"]
      obtain d' fv' ctx' where r: "readdir_pages env [Suc n..<length rss] 0 (i_version d1) d1 ctx1 = (d', fv', ctx', None)" "sim dir d'"
        "taken ctx' = taken ctx1 @ take (room ctx1) ?es" "at_pos env dir rss (cpos ctx') (drop (room ctx1) ?es)" by auto
      then show ?thesis using step True ctx1 rest by (intro exI [of _ d'] exI [of _ fv'] exI [of _ ctx']) simp
    next
      case False
      then have "Suc n = length rss" using Suc.prems(3) by simp
      moreover from page_full(4) [OF env(1) Suc.prems(1,3) this] have "cpos ctx1 = i_size dir"
        using size ctx1(1) Suc.prems(6) x(1) True sim_fields(3) [OF Suc.prems(2)] by simp
      ultimately show ?thesis using step True ctx1 es sim1 by (simp add: at_pos_def)
    qed
  qed
qed simp

lemma readdir_ok:
  assumes env: "env_ok env" "io_ok env" and rep: "dir_rep env d rss" and "sim dir d" and "at_pos env dir rss (cpos ctx) es"
  shows "\<exists>d' fv' ctx'. ext2_readdir env fv d ctx = (d', fv', ctx', None) \<and> sim dir d' \<and>
    taken ctx' = taken ctx @ take (room ctx) es \<and> at_pos env dir rss (cpos ctx') (drop (room ctx) es)"
proof (cases "cpos ctx = i_size dir \<and> es = []")
  case True
  then show ?thesis using assms(4,5) sim_fields(3) [OF assms(4)] by (simp add: ext2_readdir_def)
next
  case False
  then obtain n as bs where n: "n < length rss" "rss ! n = as @ bs" "bs \<noteq> []" "cpos ctx = n * page_size env + rsize as"
    "es = reported env (bs @ concat (drop (Suc n) rss))" using assms(5) unfolding at_pos_def by blast
  have pos: "0 < page_size env" using env by (simp add: env_ok_def)
  obtain r bs' where bs: "bs = r # bs'" using n(3) by (cases bs) auto
  have pr: "page_recs env (pdata (pages d n)) (plimit env d n) (as @ r # bs')" using rep n bs by (auto simp: dir_rep_def)
  have in_page: "rsize as + 12 \<le> plimit env d n" using page_rec(1,4) [OF env(1) pr] by (simp add: rec_ok_def)
  then have "rsize as < page_size env" "cpos ctx + 12 \<le> i_size d" unfolding plimit_def n(4) by linarith+
  moreover from this have "int (cpos ctx) \<le> int (i_size d) - 12" by linarith
  ultimately have "cpos ctx div page_size env = n" "cpos ctx mod page_size env = rsize as" "int (cpos ctx) \<le> int (i_size d) - 12"
    unfolding n(4) by simp_all
  then have "ext2_readdir env fv d ctx = readdir_pages env [n..<length rss] (rsize as) fv d ctx"
    using rep by (simp add: ext2_readdir_def Let_def dir_rep_def)
  then show ?thesis using readdir_pages_ok [OF env rep assms(4) n, of fv] by simp
qed

end
