(* ===== verification/Ext2_Props.thy ===== *)
theory Ext2_Props
  imports Ext2_Names Ext2_Empty Ext2_Readdir
begin

unbundle bit_operations_syntax

text \<open>
  The properties of the ext2 directories: a directory is a finite map from names to inodes, and
  the operations of \<open>dir.c\<close> and \<open>namei.c\<close> are the operations on the map. \<open>dir_ok\<close> is the
  invariant; the map is \<open>dir_lookup\<close>, which runs \<open>ext2_find_entry\<close>.
\<close>

section \<open>The directory as a map\<close>

definition dir_ok :: "ext2_env \<Rightarrow> dinode \<Rightarrow> bool" where
  "dir_ok env d \<longleftrightarrow> (\<exists>rss. dir_inv env d rss)"

text \<open>Successive calls of \<open>ext2_readdir\<close>, each with its own room.\<close>

fun readdirs :: "ext2_env \<Rightarrow> nat \<Rightarrow> dinode \<Rightarrow> nat \<Rightarrow> nat list \<Rightarrow> (string \<times> 32 word \<times> nat) list \<times> ext2_err option" where
  "readdirs env fv d pos [] = ([], None)"
| "readdirs env fv d pos (k # ks) =
     (case ext2_readdir env fv d \<lparr>cpos = pos, taken = [], room = k\<rparr> of
        (d, fv, ctx, Some e) \<Rightarrow> (taken ctx, Some e)
      | (d, fv, ctx, None) \<Rightarrow> (case readdirs env fv d (cpos ctx) ks of (es, err) \<Rightarrow> (taken ctx @ es, err)))"

text \<open>The type that is reported for an entry.\<close>

abbreviation reported_type :: "ext2_env \<Rightarrow> 8 word \<Rightarrow> nat" where
  "reported_type env t \<equiv> if has_filetype env \<and> unat t < 8 then ext2_filetype_table ! unat t else 0"

lemma writes_okD: "writes_ok env \<Longrightarrow> env_ok env" "writes_ok env \<Longrightarrow> io_ok env"
  by (simp_all add: writes_ok_def)

lemma lookup_eq: "writes_ok env \<Longrightarrow> dir_inv env d rss \<Longrightarrow> dir_lookup env d = map_of (live (concat rss))"
  using dir_lookup_map writes_okD by blast

lemma readdirs_ok:
  assumes env: "env_ok env" "io_ok env"
  shows "dir_rep env d rss \<Longrightarrow> sim dir d \<Longrightarrow> at_pos env dir rss pos es \<Longrightarrow> readdirs env fv d pos ks = (take (sum_list ks) es, None)"
proof (induction ks arbitrary: fv d pos es)
  case (Cons k ks)
  let ?ctx = "\<lparr>cpos = pos, taken = [], room = k\<rparr>"
  obtain d' fv' ctx' where r: "ext2_readdir env fv d ?ctx = (d', fv', ctx', None)" "sim dir d'" "taken ctx' = take k es"
    "at_pos env dir rss (cpos ctx') (drop k es)"
    using readdir_ok [OF env Cons.prems(1,2), of ?ctx es fv] Cons.prems(3) by auto
  have "dir_rep env d' rss" using r(2) Cons.prems(1,2) by (auto simp: sim_def dir_rep_def plimit_def dir_pages_def)
  from Cons.IH [OF this r(2,4)] show ?case using r(1,3) by (simp add: take_add)
qed simp

lemma at_start:
  assumes "env_ok env" and "dir_rep env d rss"
  shows "at_pos env d rss 0 (reported env (concat rss))"
proof (cases rss)
  case Nil
  then have "i_size d = 0" using assms dir_pages_less [of env 0 d] by (simp add: dir_rep_def env_ok_def)
  then show ?thesis using Nil by (simp add: at_pos_def)
next
  case (Cons rs rss')
  then show ?thesis using at_posI [of 0 rss "[]" rs env d] page_full(2) [OF assms, of 0] by simp
qed

section \<open>A small file system\<close>

definition env1 :: ext2_env where
  "env1 = \<lparr>page_size = 1024, s_blocksize = 1024, s_inodes_count = 100, has_filetype = True, current_time = 7,
     read_mapping_page = \<lambda>_. None, write_begin = \<lambda>_ _. None, blocks_after = \<lambda>k pos len. max k ((pos + len + 511) div 512),
     write_sync = None, grab_cache_page = True\<rparr>"

definition node1 :: "32 word \<Rightarrow> 16 word \<Rightarrow> dinode" where
  "node1 ino mode = \<lparr>i_ino = ino, i_mode = mode, i_nlink = 1, i_size = 0, i_blocks = 0, i_version = 0, i_mtime = 0, i_ctime = 0,
     i_btree = False, i_dir_start_lookup = 0,
     pages = \<lambda>_. \<lparr>pdata = replicate 1024 CHR 0x00, PageChecked = False, PageError = False\<rparr>\<rparr>"

definition dir1 :: dinode where
  "dir1 = fst (ext2_make_empty env1 (node1 11 0x41ed) 2)"

lemma env1_fields [simp]:
  "page_size env1 = 1024" "s_blocksize env1 = 1024" "s_inodes_count env1 = 100" "write_sync env1 = None" "write_begin env1 pos len = None"
  "grab_cache_page env1" "has_filetype env1"
  by (simp_all add: env1_def)

lemma env1_types: "entry_type env1 0x41ed = 2" "entry_type env1 0x81a4 = 1"
  by (simp_all add: entry_type_def ext2_type_by_mode_def EXT2_FT_DIR_def EXT2_FT_REG_FILE_def)

lemma env1_ok: "writes_ok env1"
proof -
  have "\<exists>k. (1024 :: nat) = 2 ^ k" by (rule exI [of _ 10]) simp
  moreover have "pos + len \<le> 512 * max k ((pos + len + 511) div 512)" for k pos len :: nat by linarith
  ultimately show ?thesis by (simp add: writes_ok_def env_ok_def io_ok_def env1_def)
qed

lemma dir1_ok: "dir_inv env1 dir1 [new_recs env1 (node1 11 0x41ed) 2]" "i_ino dir1 = 11"
proof -
  have "blank env1 (node1 11 0x41ed)" "i_ino (node1 11 0x41ed) = 11" by (simp_all add: blank_def node1_def)
  from make_empty_ok [OF writes_okD [OF env1_ok] this(1), of 2] this(2)
  show "dir_inv env1 dir1 [new_recs env1 (node1 11 0x41ed) 2]" "i_ino dir1 = 11"
    by (auto simp: dir1_def)
qed

lemma dir1_lookup: "dir_lookup env1 dir1 = [''..'' \<mapsto> (2, 2), ''.'' \<mapsto> (11, 2)]"
proof -
  show ?thesis unfolding lookup_eq [OF env1_ok dir1_ok(1)]
    by (simp add: new_recs_def live_simps node1_def env1_types)
qed

section \<open>Properties of the directory operations\<close>

lemma page_limit_cases:
  assumes "env_ok env" and "n * page_size env < i_size d"
  shows "i_size d div page_size env = n \<Longrightarrow> i_size d mod page_size env = plimit env d n \<and> 0 < plimit env d n"
    "i_size d div page_size env \<noteq> n \<Longrightarrow> plimit env d n = page_size env"
proof -
  have pos: "0 < page_size env" using assms(1) by (simp add: env_ok_def)
  show "i_size d mod page_size env = plimit env d n \<and> 0 < plimit env d n" if "i_size d div page_size env = n"
  proof -
    have "n * page_size env + i_size d mod page_size env = i_size d" using that div_mult_mod_eq [of "i_size d"] by blast
    then show ?thesis using assms(2) mod_less_divisor [OF pos, of "i_size d"] by (simp add: plimit_def)
  qed
  show "plimit env d n = page_size env" if "i_size d div page_size env \<noteq> n"
  proof -
    have "n \<le> i_size d div page_size env" using assms(2) pos by (simp add: less_eq_div_iff_mult_less_eq)
    then have "Suc n \<le> i_size d div page_size env" using that by simp
    then have "Suc n * page_size env \<le> i_size d" using pos by (simp only: less_eq_div_iff_mult_less_eq)
    then show ?thesis by (simp add: plimit_def)
  qed
qed

text \<open>
  C9. The check of a directory page accepts exactly the well-formed pages: those whose bytes up to
  the end of the directory, which must be a multiple of the block size, are a sequence of records
  that each are aligned, hold their name, stay in their block and name an inode that exists.
\<close>

theorem ext2_check_page_exact:
  assumes "env_ok env" and "length (pdata (pages d n)) = page_size env" and "n * page_size env < i_size d"
  shows "snd (ext2_check_page env d n) \<longleftrightarrow>
    s_blocksize env dvd plimit env d n \<and> (\<exists>rs. page_recs env (pdata (pages d n)) (plimit env d n) rs)"
proof -
  have "plimit env d n \<le> page_size env" "s_blocksize env dvd page_size env" using assms(1) by (simp_all add: plimit_def env_ok_def)
  note loop = check_loop_iff [OF assms(1,2) this(1)]
  show ?thesis
  proof (cases "i_size d div page_size env = n")
    case True
    note lim = page_limit_cases(1) [OF assms(1,3) True]
    show ?thesis unfolding ext2_check_page_def Let_def snd_conv and_chunk [OF assms(1)]
      using True lim loop by (simp add: dvd_eq_mod_eq_0)
  next
    case False
    note lim = page_limit_cases(2) [OF assms(1,3) False]
    show ?thesis unfolding ext2_check_page_def Let_def snd_conv and_chunk [OF assms(1)]
      using False lim loop \<open>s_blocksize env dvd page_size env\<close> by simp
  qed
qed

lemma dir1_page: "length (pdata (pages dir1 0)) = page_size env1" "0 * page_size env1 < i_size dir1" "i_size dir1 \<le> 1024" "plimit env1 dir1 0 = 1024"
  "page_recs env1 (pdata (pages dir1 0)) (plimit env1 dir1 0) (new_recs env1 (node1 11 0x41ed) 2)"
proof -
  have rep: "dir_rep env1 dir1 [new_recs env1 (node1 11 0x41ed) 2]" using dir1_ok(1) by (simp add: dir_inv_def)
  then show len: "length (pdata (pages dir1 0)) = page_size env1"
    and page: "page_recs env1 (pdata (pages dir1 0)) (plimit env1 dir1 0) (new_recs env1 (node1 11 0x41ed) 2)" by (simp_all add: dir_rep_def)
  have np: "dir_pages env1 dir1 = 1" using rep by (simp add: dir_rep_def)
  have ps: "page_size env1 = 1024" "0 < page_size env1" by simp_all
  show "0 * page_size env1 < i_size dir1" "i_size dir1 \<le> 1024"
    using dir_pages_less [OF ps(2), of 0 dir1] dir_pages_less [OF ps(2), of 1 dir1] unfolding np ps(1) by simp_all
  show "plimit env1 dir1 0 = 1024" using page_limit [OF page] by (simp add: new_recs_def)
qed

theorem ext2_check_page_exact_witness:
  "env_ok env1 \<and> length (pdata (pages dir1 0)) = page_size env1 \<and> 0 * page_size env1 < i_size dir1 \<and> snd (ext2_check_page env1 dir1 0)"
proof -
  have "s_blocksize env1 dvd plimit env1 dir1 0" unfolding dir1_page(4) by simp
  then show ?thesis using ext2_check_page_exact [OF writes_okD(1) [OF env1_ok] dir1_page(1,2)] dir1_page writes_okD(1) [OF env1_ok] by blast
qed

text \<open>
  C6. \<open>ext2_add_link\<close> ends, and the directory stays well-formed whatever happens. If the name is new,
  the result is that of writing the directory out, and afterwards a lookup of the name finds the
  inode and every other lookup is unchanged; or a write could not be prepared, its error is the
  result, and no lookup changes.
\<close>

theorem ext2_add_link_map:
  assumes "env_ok env" and "io_ok env" and "dir_ok env d" and "entry_fits env d name (ino, mode)" and "dir_lookup env d name = None"
  shows "\<exists>d' err. ext2_add_link env d name ino mode = Some (d', err) \<and> dir_ok env d' \<and>
    (err = write_sync env \<and> dir_lookup env d' = (dir_lookup env d)(name \<mapsto> (ino, entry_type env mode)) \<or>
     (\<exists>e pos len. err = Some e \<and> write_begin env pos len = Some e \<and> dir_lookup env d' = dir_lookup env d))"
proof -
  obtain rss where inv: "dir_inv env d rss" using assms(3) by (auto simp: dir_ok_def)
  obtain d' err where r: "ext2_add_link env d name ino mode = Some (d', err)" "added env name ino mode rss (d', err)"
    using add_link_ok [OF assms(1,2) inv, of name ino mode] assms(4,5) by (auto simp: entry_fits_def)
  have look: "dir_lookup env e = map_of (live (concat qss))" if "dir_inv env e qss" for e qss
    using dir_lookup_map [OF assms(1,2) that] by blast
  from r(2) show ?thesis unfolding added_def prod.case look [OF inv]
    using r(1) look by (fastforce simp: dir_ok_def)
qed

theorem ext2_add_link_map_witness:
  "dir_ok env1 dir1 \<and> (\<exists>d. ext2_add_link env1 dir1 ''core'' 12 0x81a4 = Some (d, None) \<and> dir_ok env1 d \<and>
    dir_lookup env1 d = [''..'' \<mapsto> (2, 2), ''.'' \<mapsto> (11, 2), ''core'' \<mapsto> (12, 1)])"
proof -
  have d: "dir_ok env1 dir1" using dir1_ok(1) by (auto simp: dir_ok_def)
  have "entry_fits env1 dir1 ''core'' (12, 0x81a4)" using dir1_page(3) by (simp add: entry_fits_def name_ok_def)
  from ext2_add_link_map [OF writes_okD [OF env1_ok] d this] show ?thesis
    using d by (auto simp: dir1_lookup env1_types)
qed

text \<open>
  C8. Reading a directory by any number of calls of \<open>ext2_readdir\<close>, each of which may stop after any
  number of entries, gives the entries of the directory in one fixed order, none left out and none
  twice: the calls together return the first entries, as many as they had room for.
\<close>

theorem ext2_readdir_complete:
  assumes "env_ok env" and "io_ok env" and "dir_ok env d"
  shows "\<exists>es. distinct (map fst es) \<and>
    (\<forall>name ino t. (name, ino, t) \<in> set es \<longleftrightarrow> (\<exists>ft. dir_lookup env d name = Some (ino, ft) \<and> t = reported_type env ft)) \<and>
    (\<forall>fv ks. readdirs env fv d 0 ks = (take (sum_list ks) es, None))"
proof -
  obtain rss where inv: "dir_inv env d rss" using assms(3) by (auto simp: dir_ok_def)
  then have rep: "dir_rep env d rss" and dist: "distinct (map fst (live (concat rss)))" by (simp_all add: dir_inv_def)
  let ?es = "reported env (concat rss)"
  have "map fst ?es = map fst (live (concat rss))" by (simp add: reported_def case_prod_unfold)
  then have "distinct (map fst ?es)" using dist by simp
  moreover have "(name, ino, t) \<in> set ?es \<longleftrightarrow> (\<exists>ft. dir_lookup env d name = Some (ino, ft) \<and> t = reported_type env ft)" for name ino t
    unfolding dir_lookup_map [OF assms(1,2) inv] map_of_eq_Some_iff [OF dist] by (force simp: reported_def)
  moreover have "sim d d" using rep by (simp add: sim_def dir_rep_def)
  then have "readdirs env fv d 0 ks = (take (sum_list ks) ?es, None)" for fv ks
    by (rule readdirs_ok [OF assms(1,2) rep _ at_start [OF assms(1) rep]])
  ultimately show ?thesis by blast
qed

theorem ext2_readdir_complete_witness:
  "dir_ok env1 dir1 \<and> (\<exists>es. set es = {(''.'', 11, 4), (''..'', 2, 4)} \<and> readdirs env1 0 dir1 0 [1, 1, 1] = (take 3 es, None))"
proof -
  have d: "dir_ok env1 dir1" using dir1_ok(1) by (auto simp: dir_ok_def)
  obtain es where es: "\<And>name ino t. (name, ino, t) \<in> set es \<longleftrightarrow> (\<exists>ft. dir_lookup env1 dir1 name = Some (ino, ft) \<and> t = reported_type env1 ft)"
    "\<And>fv ks. readdirs env1 fv dir1 0 ks = (take (sum_list ks) es, None)"
    using ext2_readdir_complete [OF writes_okD [OF env1_ok] d] by metis
  have "x \<in> set es \<longleftrightarrow> x \<in> {(''.'', 11, 4), (''..'', 2, 4)}" for x
  proof (cases x)
    case (fields name ino t)
    show ?thesis unfolding fields es(1) dir1_lookup by (auto simp: ext2_filetype_table_def)
  qed
  then have "set es = {(''.'', 11, 4), (''..'', 2, 4)}" by blast
  moreover have "readdirs env1 0 dir1 0 [1, 1, 1] = (take 3 es, None)" unfolding es(2) by (simp add: numeral_3_eq_3)
  ultimately show ?thesis using d by blast
qed

text \<open>
  \<open>ext2_make_empty\<close> turns an inode without contents into a directory with two entries, for itself
  and for its parent. If the page cannot be had, or the write cannot be prepared, the inode is left
  as it is.
\<close>

theorem ext2_make_empty_entries:
  assumes "env_ok env" and "io_ok env" and "blank env d"
    and "i_ino d \<noteq> 0" and "unat (i_ino d) \<le> s_inodes_count env" and "parent \<noteq> 0" and "unat parent \<le> s_inodes_count env"
  shows "\<exists>d'. ext2_make_empty env d parent =
      (d', if \<not> grab_cache_page env then Some ENOMEM
           else case write_begin env 0 (s_blocksize env) of Some e \<Rightarrow> Some e | None \<Rightarrow> write_sync env) \<and>
    (if grab_cache_page env \<and> write_begin env 0 (s_blocksize env) = None
     then dir_ok env d' \<and> i_ino d' = i_ino d \<and>
       dir_lookup env d' = [''.'' \<mapsto> (i_ino d, entry_type env (i_mode d)), ''..'' \<mapsto> (parent, entry_type env (i_mode d))]
     else d' = d)"
proof (cases "grab_cache_page env \<and> write_begin env 0 (s_blocksize env) = None")
  case True
  then obtain d' where r: "ext2_make_empty env d parent = (d', write_sync env)" "dir_inv env d' [new_recs env d parent]" "i_ino d' = i_ino d"
    using make_empty_ok [OF assms(1-3) _ _ assms(4-7)] by blast
  have "dir_lookup env d' name = map_of (live (new_recs env d parent)) name" for name
    using dir_lookup_map [OF assms(1,2) r(2)] by simp
  then have "dir_lookup env d' = map_of (live (new_recs env d parent))" by blast
  moreover have "map_of (live (new_recs env d parent)) =
      [''.'' \<mapsto> (i_ino d, entry_type env (i_mode d)), ''..'' \<mapsto> (parent, entry_type env (i_mode d))]"
    using assms(4,6) by (auto simp: new_recs_def live_simps)
  ultimately show ?thesis using True r by (auto simp: dir_ok_def)
next
  case False
  then show ?thesis by (auto simp: ext2_make_empty_def ext2_prepare_chunk_def ext2_chunk_size_def split: option.splits)
qed

theorem ext2_make_empty_entries_witness:
  "blank env1 (node1 11 0x41ed) \<and> snd (ext2_make_empty env1 (node1 11 0x41ed) 2) = None \<and>
   dir_lookup env1 dir1 = [''.'' \<mapsto> (11, 2), ''..'' \<mapsto> (2, 2)]"
proof -
  have b: "blank env1 (node1 11 0x41ed)" "i_ino (node1 11 0x41ed) = 11" "i_mode (node1 11 0x41ed) = 0x41ed" by (simp_all add: blank_def node1_def)
  then show ?thesis using ext2_make_empty_entries [OF writes_okD [OF env1_ok] b(1), of 2] by (auto simp: dir1_def env1_types)
qed

text \<open>
  \<open>ext2_empty_dir\<close> holds exactly of the directories without entries other than the one for the
  parent and one for the directory itself, and it changes nothing that a lookup can see.
\<close>

theorem ext2_empty_dir_iff:
  assumes "env_ok env" and "io_ok env" and "dir_ok env d"
  shows "(snd (ext2_empty_dir env d) \<longleftrightarrow>
      (\<forall>name ino t. dir_lookup env d name = Some (ino, t) \<longrightarrow> name = ''..'' \<or> name = ''.'' \<and> ino = i_ino d)) \<and>
    dir_ok env (fst (ext2_empty_dir env d)) \<and> dir_lookup env (fst (ext2_empty_dir env d)) = dir_lookup env d"
proof -
  obtain rss where inv: "dir_inv env d rss" using assms(3) by (auto simp: dir_ok_def)
  then have dist: "distinct (map fst (live (concat rss)))" by (simp add: dir_inv_def)
  note ok = empty_dir_ok [OF assms(1,2) inv]
  have inv': "dir_inv env (fst (ext2_empty_dir env d)) rss" by (rule dir_inv_sim [OF inv ok(1)])
  have "snd (ext2_empty_dir env d) \<longleftrightarrow>
      (\<forall>name ino t. dir_lookup env d name = Some (ino, t) \<longrightarrow> name = ''..'' \<or> name = ''.'' \<and> ino = i_ino d)"
    unfolding ok(2) dir_lookup_map [OF assms(1,2) inv] map_of_eq_Some_iff [OF dist] by auto
  moreover have "dir_lookup env (fst (ext2_empty_dir env d)) name = dir_lookup env d name" for name
    unfolding dir_lookup_map [OF assms(1,2) inv] dir_lookup_map [OF assms(1,2) inv'] ..
  ultimately show ?thesis using inv' by (auto simp: dir_ok_def)
qed

theorem ext2_empty_dir_iff_witness: "dir_ok env1 dir1 \<and> snd (ext2_empty_dir env1 dir1)"
proof -
  have d: "dir_ok env1 dir1" using dir1_ok(1) by (auto simp: dir_ok_def)
  from ext2_empty_dir_iff [OF writes_okD [OF env1_ok] d] show ?thesis using d dir1_ok(2) by (auto simp: dir1_lookup split: if_splits)
qed

end
