(* ===== verification/Ext2_Name_Props.thy ===== *)
theory Ext2_Name_Props
  imports Ext2_Props
begin

unbundle bit_operations_syntax

text \<open>
  The properties of the operations on names (\<open>namei.c\<close>), in terms of the entries of the
  directories, and what becomes of a directory with blocks of 64 KiB.
\<close>

section \<open>Renaming a file\<close>

text \<open>An inode whose directory operations run in a good environment, with the directory well-formed.\<close>

definition dir_at :: "namei_env \<Rightarrow> inodes \<Rightarrow> 32 word \<Rightarrow> bool" where
  "dir_at nv fs dir \<longleftrightarrow> writes_ok (dir_env nv dir) \<and> dir_ok (dir_env nv dir) (fs dir) \<and> dquot_initialize nv dir = None"

abbreviation names :: "namei_env \<Rightarrow> inodes \<Rightarrow> 32 word \<Rightarrow> string \<Rightarrow> (32 word \<times> 8 word) option" where
  "names nv fs dir \<equiv> dir_lookup (dir_env nv dir) (fs dir)"

lemma dir_atD:
  assumes "dir_at nv fs dir"
  obtains rss where "writes_ok (dir_env nv dir) \<and> dir_inv (dir_env nv dir) (fs dir) rss" "names nv fs dir = map_of (live (concat rss))"
proof -
  obtain rss where r: "writes_ok (dir_env nv dir)" "dir_inv (dir_env nv dir) (fs dir) rss" using assms by (auto simp: dir_at_def dir_ok_def)
  show ?thesis by (rule that [of rss]) (use r lookup_eq in \<open>simp_all\<close>)
qed

lemma rename_new_ok:
  assumes inv: "writes_ok (dir_env nv dir) \<and> dir_inv (dir_env nv dir) (fs dir) rss"
    and fits: "entry_fits (dir_env nv dir) (fs dir) name (ino, i_mode (fs ino))"
    and target: "new_ino = None \<longleftrightarrow> map_of (live (concat rss)) name = None" "new_ino \<noteq> Some dir"
  shows "\<exists>fs' rss'. rename_new nv fs ino dir name new_ino False = Some (fs', None) \<and>
    (writes_ok (dir_env nv dir) \<and> dir_inv (dir_env nv dir) (fs' dir) rss') \<and> (\<forall>nm p. found_at rss nm p \<longrightarrow> found_at rss' nm p) \<and>
    map_of (live (concat rss')) = (map_of (live (concat rss)))(name \<mapsto> (ino, entry_type (dir_env nv dir) (i_mode (fs ino)))) \<and>
    (\<forall>i. i \<noteq> dir \<and> Some i \<noteq> new_ino \<longrightarrow> fs' i = fs i) \<and> (\<forall>i. new_ino = Some i \<longrightarrow> i_nlink (fs' i) = i_nlink (fs i) - 1)"
proof (cases new_ino)
  case None
  from ext2_names.enter(1) [OF inv fits] target(1) None obtain d' rss' where
    "ext2_add_link (dir_env nv dir) (fs dir) name ino (i_mode (fs ino)) = Some (d', None)"
    and r: "writes_ok (dir_env nv dir) \<and> dir_inv (dir_env nv dir) d' rss'" "\<forall>nm p. found_at rss nm p \<longrightarrow> found_at rss' nm p"
    "map_of (live (concat rss')) = (map_of (live (concat rss)))(name \<mapsto> (ino, entry_type (dir_env nv dir) (i_mode (fs ino))))"
    by auto
  then have "rename_new nv fs ino dir name new_ino False = Some (fs(dir := d'), None)"
    using None by (simp add: rename_new_def add_link_def)
  then show ?thesis using r None by (intro exI [of _ "fs(dir := d')"] exI [of _ rss']) simp
next
  case (Some i)
  from ext2_names.enter(2) [OF inv fits] target(1) Some obtain d1 p d' rss' where
    "ext2_find_entry (dir_env nv dir) (fs dir) name = Some (d1, Some p)"
    "ext2_set_link (dir_env nv dir) d1 p ino (i_mode (fs ino)) True = (d', None)"
    and r: "writes_ok (dir_env nv dir) \<and> dir_inv (dir_env nv dir) d' rss'" "\<forall>nm p. found_at rss nm p \<longrightarrow> found_at rss' nm p"
    "map_of (live (concat rss')) = (map_of (live (concat rss)))(name \<mapsto> (ino, entry_type (dir_env nv dir) (i_mode (fs ino))))"
    by auto
  then have "rename_new nv fs ino dir name new_ino False =
      Some (inode_dec_link_count i (set_ctime i (current_time (dir_env nv i)) (fs(dir := d'))), None)"
    using Some by (simp add: rename_new_def Let_def del: fun_upd_apply)
  then show ?thesis using r Some target(2)
    by (intro exI [of _ "inode_dec_link_count i (set_ctime i (current_time (dir_env nv i)) (fs(dir := d')))"] exI [of _ rss'])
      (auto simp: inode_dec_link_count_def set_ctime_def)
qed

lemma set_ctime_other: "set_ctime i t fs j = (if j = i then (fs i)\<lparr>i_ctime := t\<rparr> else fs j)"
  by (simp add: set_ctime_def)

lemma rename_old_file:
  assumes "writes_ok (dir_env nv dir) \<and> dir_inv (dir_env nv dir) (fs dir) rss" and "found_at rss name de" and "ino \<noteq> dir"
  shows "\<exists>fs' rss'. rename_old nv fs dir de ino new_dir None = (fs', None) \<and>
    (writes_ok (dir_env nv dir) \<and> dir_inv (dir_env nv dir) (fs' dir) rss') \<and>
    map_of (live (concat rss')) = (map_of (live (concat rss)))(name := None) \<and>
    (\<forall>i. i \<noteq> dir \<longrightarrow> fs' i = set_ctime ino (current_time (dir_env nv ino)) fs i)"
proof -
  from ext2_names.del_law [OF assms(1,2)] obtain d' rss' where
    "ext2_delete_entry (dir_env nv dir) (fs dir) de = (d', None)" "writes_ok (dir_env nv dir) \<and> dir_inv (dir_env nv dir) d' rss'"
    "map_of (live (concat rss')) = (map_of (live (concat rss)))(name := None)" by blast
  then show ?thesis using assms(3)
    by (intro exI [of _ "(set_ctime ino (current_time (dir_env nv ino)) fs)(dir := d')"] exI [of _ rss'])
      (simp add: rename_old_def set_ctime_other)
qed

text \<open>
  C5. Renaming a file, in one directory or from one to another, over an existing name or to a new
  one: afterwards the new name leads to the file, the old one to nothing, and every other name of
  both directories to what it did before. No other inode changes but the one whose name was taken
  over, which loses a link.
\<close>

theorem ext2_rename_map:
  assumes dirs: "dir_at nv fs old_dir" "dir_at nv fs new_dir"
    and src: "\<not> S_ISDIR (i_mode (fs ino))" "ino \<notin> {old_dir, new_dir}" "names nv fs old_dir old_name \<noteq> None"
    and fits: "entry_fits (dir_env nv new_dir) (fs new_dir) new_name (ino, i_mode (fs ino))"
    and target: "new_ino = None \<longleftrightarrow> names nv fs new_dir new_name = None" "new_ino \<notin> {Some old_dir, Some new_dir}"
    and flags: "flags AND NOT 1 = 0" and diff: "(old_dir, old_name) \<noteq> (new_dir, new_name)"
  shows "\<exists>fs'. ext2_rename nv fs old_dir old_name ino new_dir new_name new_ino flags = Some (fs', None) \<and>
    dir_at nv fs' old_dir \<and> dir_at nv fs' new_dir \<and>
    (\<forall>dir \<in> {old_dir, new_dir}. \<forall>nm. names nv fs' dir nm =
      (if (dir, nm) = (old_dir, old_name) then None
       else if (dir, nm) = (new_dir, new_name) then Some (ino, entry_type (dir_env nv new_dir) (i_mode (fs ino)))
       else names nv fs dir nm)) \<and>
    (\<forall>i. i \<notin> {old_dir, new_dir, ino} \<and> Some i \<noteq> new_ino \<longrightarrow> fs' i = fs i) \<and>
    (\<forall>i. new_ino = Some i \<longrightarrow> i_nlink (fs' i) = i_nlink (fs i) - 1)"
proof -
  obtain rss where old: "writes_ok (dir_env nv old_dir) \<and> dir_inv (dir_env nv old_dir) (fs old_dir) rss"
    "names nv fs old_dir = map_of (live (concat rss))" by (rule dir_atD [OF dirs(1)])
  from ext2_names.find_present [OF old(1), of old_name] src(3) old(2) obtain d p where
    p: "ext2_find_entry (dir_env nv old_dir) (fs old_dir) old_name = Some (d, Some p)" "found_at rss old_name p"
    and d: "writes_ok (dir_env nv old_dir) \<and> dir_inv (dir_env nv old_dir) d rss"
      "\<And>nm w. entry_fits (dir_env nv old_dir) (fs old_dir) nm w \<Longrightarrow> entry_fits (dir_env nv old_dir) d nm w" by auto
  let ?fs = "fs(old_dir := d)" and ?v = "(ino, entry_type (dir_env nv new_dir) (i_mode (fs ino)))"
  obtain qss where new: "writes_ok (dir_env nv new_dir) \<and> dir_inv (dir_env nv new_dir) (?fs new_dir) qss"
    "names nv fs new_dir = map_of (live (concat qss))" "new_dir = old_dir \<longrightarrow> qss = rss"
    using old d(1) dir_atD [OF dirs(2)] by (cases "new_dir = old_dir") auto
  have "i_mode (?fs ino) = i_mode (fs ino)" using src(2) by simp
  have fits': "entry_fits (dir_env nv new_dir) (?fs new_dir) new_name (ino, i_mode (?fs ino))"
    using fits d(2) src(2) by auto
  have "new_ino = None \<longleftrightarrow> map_of (live (concat qss)) new_name = None" "new_ino \<noteq> Some new_dir" using target new(2) by auto
  from rename_new_ok [where fs = ?fs, OF new(1) fits' this] src(2) obtain fs1 qss1 where
    r1: "rename_new nv ?fs ino new_dir new_name new_ino False = Some (fs1, None)"
    and inv1: "writes_ok (dir_env nv new_dir) \<and> dir_inv (dir_env nv new_dir) (fs1 new_dir) qss1"
    and map1: "\<forall>nm p. found_at qss nm p \<longrightarrow> found_at qss1 nm p" "map_of (live (concat qss1)) = (map_of (live (concat qss)))(new_name \<mapsto> ?v)"
    and oth1: "\<forall>i. i \<noteq> new_dir \<and> Some i \<noteq> new_ino \<longrightarrow> fs1 i = ?fs i" "\<forall>i. new_ino = Some i \<longrightarrow> i_nlink (fs1 i) = i_nlink (?fs i) - 1"
    by auto
  define rss1 where "rss1 = (if new_dir = old_dir then qss1 else rss)"
  have inv2: "writes_ok (dir_env nv old_dir) \<and> dir_inv (dir_env nv old_dir) (fs1 old_dir) rss1" "found_at rss1 old_name p"
    using d(1) inv1 oth1(1) target(2) p(2) map1(1) new(3) by (cases p; auto simp: rss1_def)+
  from rename_old_file [where fs = fs1 and nv = nv and ino = ino and new_dir = new_dir, OF inv2] src(2) obtain fs2 rss2 where
    r2: "rename_old nv fs1 old_dir p ino new_dir None = (fs2, None)"
    and inv3: "writes_ok (dir_env nv old_dir) \<and> dir_inv (dir_env nv old_dir) (fs2 old_dir) rss2"
    and map2: "map_of (live (concat rss2)) = (map_of (live (concat rss1)))(old_name := None)"
    and oth2: "\<forall>i. i \<noteq> old_dir \<longrightarrow> fs2 i = set_ctime ino (current_time (dir_env nv ino)) fs1 i" by auto
  have ren: "ext2_rename nv fs old_dir old_name ino new_dir new_name new_ino flags = Some (fs2, None)"
    using flags dirs src(1) p(1) r1 r2 \<open>i_mode (?fs ino) = i_mode (fs ino)\<close>
    by (simp add: ext2_rename_def dir_at_def Let_def del: fun_upd_apply)
  have look: "names nv fs2 old_dir = (map_of (live (concat rss1)))(old_name := None)"
    using lookup_eq [of _ "fs2 old_dir" rss2] inv3 map2 by simp
  have look': "names nv fs2 new_dir = (map_of (live (concat qss)))(new_name \<mapsto> ?v)" and at: "dir_at nv fs2 new_dir" if "new_dir \<noteq> old_dir"
  proof -
    have "fs2 new_dir = fs1 new_dir" using that oth2 src(2) by (auto simp: set_ctime_other)
    then show "names nv fs2 new_dir = (map_of (live (concat qss)))(new_name \<mapsto> ?v)" "dir_at nv fs2 new_dir"
      using lookup_eq [of _ "fs1 new_dir" qss1] inv1 map1(2) dirs(2) by (auto simp: dir_at_def dir_ok_def)
  qed
  have "dir_at nv fs2 old_dir" using inv3 dirs(1) by (auto simp: dir_at_def dir_ok_def)
  moreover have "fs2 i = fs i" if "i \<notin> {old_dir, new_dir, ino}" "Some i \<noteq> new_ino" for i
    using that oth1(1) oth2 by (auto simp: set_ctime_other)
  moreover have "i_nlink (fs2 i) = i_nlink (fs i) - 1" if "new_ino = Some i" for i
    using that oth1(2) oth2 target(2) by (auto simp: set_ctime_other)
  ultimately show ?thesis using ren look look' at old(2) new(2,3) map1(2) diff
    by (intro exI [of _ fs2]) (cases "new_dir = old_dir"; auto simp: rss1_def)
qed

text \<open>A directory with a file in it.\<close>

definition dir2 :: dinode where
  "dir2 = fst (the (ext2_add_link env1 dir1 ''core'' 12 0x81a4))"

definition nv1 :: namei_env where
  "nv1 = \<lparr>dir_env = \<lambda>_. env1, dquot_initialize = \<lambda>_. None, ext2_new_inode = \<lambda>_ _. Inl ENOSPC\<rparr>"

definition fs1 :: inodes where
  "fs1 i = (if i = 11 then dir2 else if i = 13 then dir1 else node1 i 0x81a4)"

lemma dir1_fits: "entry_fits env1 dir1 ''core'' (12, 0x81a4)"
  using dir1_page(3) by (simp add: entry_fits_def name_ok_def)

lemma dir2_ok: "dir_ok env1 dir2" "dir_lookup env1 dir2 = [''..'' \<mapsto> (2, 2), ''.'' \<mapsto> (11, 2), ''core'' \<mapsto> (12, 1)]"
proof -
  have inv: "writes_ok env1 \<and> dir_inv env1 dir1 [new_recs env1 (node1 11 0x41ed) 2]" using env1_ok dir1_ok(1) by blast
  have look: "map_of (live (concat [new_recs env1 (node1 11 0x41ed) 2])) = [''..'' \<mapsto> (2, 2), ''.'' \<mapsto> (11, 2)]"
    using lookup_eq [OF env1_ok dir1_ok(1)] dir1_lookup by (simp only:)
  then have "map_of (live (concat [new_recs env1 (node1 11 0x41ed) 2])) ''core'' = None" by simp
  from ext2_names.add_law [OF inv dir1_fits this] obtain d rss where
    "ext2_add_link env1 dir1 ''core'' 12 0x81a4 = Some (d, None)" "dir_inv env1 d rss"
    "map_of (live (concat rss)) = [''..'' \<mapsto> (2, 2), ''.'' \<mapsto> (11, 2), ''core'' \<mapsto> (12, entry_type env1 0x81a4)]"
    unfolding look by auto
  then show "dir_ok env1 dir2" "dir_lookup env1 dir2 = [''..'' \<mapsto> (2, 2), ''.'' \<mapsto> (11, 2), ''core'' \<mapsto> (12, 1)]"
    using lookup_eq [OF env1_ok] by (auto simp: dir2_def dir_ok_def env1_types)
qed

lemma nv1_fields [simp]: "dir_env nv1 i = env1" "dquot_initialize nv1 i = None"
  by (simp_all add: nv1_def)

lemma fs1_dirs: "dir_at nv1 fs1 11" "dir_at nv1 fs1 13"
  using env1_ok dir1_ok(1) dir2_ok(1) by (auto simp: dir_at_def dir_ok_def fs1_def)

theorem ext2_rename_map_witness:
  "dir_at nv1 fs1 11 \<and> dir_at nv1 fs1 13 \<and> (\<exists>fs. ext2_rename nv1 fs1 11 ''core'' 12 13 ''core.old'' None 0 = Some (fs, None) \<and>
    names nv1 fs 11 = [''..'' \<mapsto> (2, 2), ''.'' \<mapsto> (11, 2)] \<and> names nv1 fs 13 ''core.old'' = Some (12, 1))"
proof -
  have mode: "i_mode (fs1 12) = 0x81a4" by (simp add: fs1_def node1_def)
  have "entry_fits (dir_env nv1 13) (fs1 13) ''core.old'' (12, i_mode (fs1 12))"
    unfolding mode using dir1_page(3) by (simp add: entry_fits_def name_ok_def fs1_def)
  moreover have "\<not> S_ISDIR (i_mode (fs1 12))" unfolding mode by (simp add: S_ISDIR_def)
  moreover have core: "names nv1 fs1 11 = [''..'' \<mapsto> (2, 2), ''.'' \<mapsto> (11, 2), ''core'' \<mapsto> (12, 1)]" "names nv1 fs1 13 ''core.old'' = None"
    by (simp_all add: fs1_def dir2_ok(2) dir1_lookup)
  ultimately obtain fs where fs: "ext2_rename nv1 fs1 11 ''core'' 12 13 ''core.old'' None 0 = Some (fs, None)"
    "\<forall>dir \<in> {11, 13}. \<forall>nm. names nv1 fs dir nm =
      (if (dir, nm) = (11, ''core'') then None
       else if (dir, nm) = (13, ''core.old'') then Some (12, entry_type (dir_env nv1 13) (i_mode (fs1 12)))
       else names nv1 fs1 dir nm)"
    using ext2_rename_map [OF fs1_dirs, of 12 "''core''" "''core.old''" None 0] by auto
  have "names nv1 fs 11 nm = ([''..'' \<mapsto> (2, 2), ''.'' \<mapsto> (11, 2)] :: string \<Rightarrow> (32 word \<times> 8 word) option) nm" for nm
    using fs(2) core(1) by simp
  moreover have "names nv1 fs 13 ''core.old'' = Some (12, 1)" using fs(2) env1_types(2) unfolding mode by simp
  ultimately show ?thesis using fs(1) fs1_dirs by blast
qed

lemma find_entry_nlink:
  assumes "writes_ok env" and "dir_inv env d rss" and "ext2_find_entry env d name = Some (d', res)"
  shows "i_nlink d' = i_nlink d"
  using find_entry_ok [OF writes_okD [OF assms(1)], of d rss name] assms(2,3) by (auto simp: dir_inv_def sim_def)

lemma unlink_ok:
  assumes "dir_at nv fs dir" and "ino \<noteq> dir"
  shows "\<exists>fs' err. ext2_unlink nv fs dir name ino = Some (fs', err) \<and> dir_at nv fs' dir \<and> names nv fs' dir = (names nv fs dir)(name := None) \<and>
    (\<forall>i. i \<notin> {dir, ino} \<longrightarrow> fs' i = fs i) \<and> i_nlink (fs' dir) = i_nlink (fs dir) \<and>
    (if names nv fs dir name = None then err = Some ENOENT \<and> fs' ino = fs ino
     else err = None \<and> i_nlink (fs' ino) = i_nlink (fs ino) - 1)"
proof -
  obtain rss where inv: "writes_ok (dir_env nv dir) \<and> dir_inv (dir_env nv dir) (fs dir) rss" "names nv fs dir = map_of (live (concat rss))"
    by (rule dir_atD [OF assms(1)])
  have quota: "dquot_initialize nv dir = None" using assms(1) by (simp add: dir_at_def)
  have look: "dir_at nv fs' dir \<and> names nv fs' dir = map_of (live (concat qss))"
    if "writes_ok (dir_env nv dir) \<and> dir_inv (dir_env nv dir) (fs' dir) qss" for fs' qss
    using that lookup_eq quota by (auto simp: dir_at_def dir_ok_def)
  show ?thesis
  proof (cases "names nv fs dir name = None")
    case True
    from ext2_names.find_absent [OF inv(1), of name] True inv(2) obtain d where
      d: "ext2_find_entry (dir_env nv dir) (fs dir) name = Some (d, None)" "writes_ok (dir_env nv dir) \<and> dir_inv (dir_env nv dir) d rss" by auto
    have "i_nlink d = i_nlink (fs dir)" by (rule find_entry_nlink [OF _ _ d(1)]) (use inv(1) in auto)
    with d show ?thesis using True inv(2) quota assms(2) look [of "fs(dir := d)" rss]
      by (intro exI [of _ "fs(dir := d)"] exI [of _ "Some ENOENT"]) (auto simp: ext2_unlink_def)
  next
    case False
    from ext2_names.remove [OF inv(1), of name] False inv(2) obtain d1 p d rss' where
      d: "ext2_find_entry (dir_env nv dir) (fs dir) name = Some (d1, Some p)" "ext2_delete_entry (dir_env nv dir) d1 p = (d, None)"
      "writes_ok (dir_env nv dir) \<and> dir_inv (dir_env nv dir) d rss'" "map_of (live (concat rss')) = (map_of (live (concat rss)))(name := None)" by auto
    let ?fs = "inode_dec_link_count ino (set_ctime ino (i_ctime d) (fs(dir := d)))"
    have "i_nlink d = i_nlink (fs dir)"
      using find_entry_nlink [OF _ _ d(1)] delete_entry_nlink [OF d(2)] inv(1) by auto
    moreover have "?fs dir = d" using assms(2) by (simp add: inode_dec_link_count_def set_ctime_def)
    ultimately show ?thesis using False d inv(2) quota assms(2) look [of ?fs rss']
      by (intro exI [of _ ?fs] exI [of _ None]) (auto simp: ext2_unlink_def inode_dec_link_count_def set_ctime_def)
  qed
qed

text \<open>
  C7. \<open>ext2_unlink\<close> of a name that is in the directory removes that name and no other, and the inode
  loses a link; of a name that is not there it reports \<open>ENOENT\<close> and changes nothing that a lookup
  can see.
\<close>

theorem ext2_unlink_map:
  assumes "dir_at nv fs dir" and "ino \<noteq> dir"
  shows "\<exists>fs' err. ext2_unlink nv fs dir name ino = Some (fs', err) \<and> dir_at nv fs' dir \<and> names nv fs' dir = (names nv fs dir)(name := None) \<and>
    (\<forall>i. i \<notin> {dir, ino} \<longrightarrow> fs' i = fs i) \<and> i_nlink (fs' dir) = i_nlink (fs dir) \<and>
    (if names nv fs dir name = None then err = Some ENOENT \<and> fs' ino = fs ino
     else err = None \<and> i_nlink (fs' ino) = i_nlink (fs ino) - 1)"
  by (rule unlink_ok [OF assms])

theorem ext2_unlink_map_witness:
  "dir_at nv1 fs1 11 \<and> (\<exists>fs. ext2_unlink nv1 fs1 11 ''core'' 12 = Some (fs, None) \<and> names nv1 fs 11 = [''..'' \<mapsto> (2, 2), ''.'' \<mapsto> (11, 2)])"
proof -
  have core: "names nv1 fs1 11 = [''..'' \<mapsto> (2, 2), ''.'' \<mapsto> (11, 2), ''core'' \<mapsto> (12, 1)]" by (simp add: fs1_def dir2_ok(2))
  have "([''..'' \<mapsto> (2, 2), ''.'' \<mapsto> (11, 2), ''core'' \<mapsto> (12, 1)] :: string \<Rightarrow> (32 word \<times> 8 word) option)(''core'' := None) =
      [''..'' \<mapsto> (2, 2), ''.'' \<mapsto> (11, 2)]" by auto
  then show ?thesis using ext2_unlink_map [OF fs1_dirs(1), of 12 "''core''"] fs1_dirs(1) core by auto
qed

section \<open>Making and removing directories\<close>

lemma inv_nlink [simp]: "dir_inv env (d\<lparr>i_nlink := k\<rparr>) rss \<longleftrightarrow> dir_inv env d rss"
  by (simp add: dir_inv_def dir_rep_def plimit_def dir_pages_def)

lemma look_nlink:
  assumes "writes_ok env" and "dir_ok env d"
  shows "dir_ok env (d\<lparr>i_nlink := k\<rparr>)" "dir_lookup env (d\<lparr>i_nlink := k\<rparr>) = dir_lookup env d"
proof -
  obtain rss where rss: "dir_inv env d rss" using assms(2) by (auto simp: dir_ok_def)
  then show "dir_ok env (d\<lparr>i_nlink := k\<rparr>)" by (auto simp: dir_ok_def)
  show "dir_lookup env (d\<lparr>i_nlink := k\<rparr>) = dir_lookup env d"
    using lookup_eq [OF assms(1) rss] lookup_eq [OF assms(1), of "d\<lparr>i_nlink := k\<rparr>" rss] rss by simp
qed

text \<open>
  C39. \<open>ext2_mkdir\<close> of a new name, with a fresh inode and no error: the name leads to the new inode,
  the new directory has exactly the entries for itself and its parent, both link counts have grown
  by one, and nothing else has changed.
\<close>

theorem ext2_mkdir_map:
  assumes dir: "dir_at nv fs dir" "names nv fs dir name = None" "i_ino (fs dir) = dir"
    and new: "ext2_new_inode nv dir (0x4000 OR mode) = Inr inode" "i_ino inode \<noteq> dir" "blank (dir_env nv (i_ino inode)) inode"
    and env: "writes_ok (dir_env nv (i_ino inode))" "grab_cache_page (dir_env nv (i_ino inode))"
    and ino: "unat (i_ino inode) \<le> s_inodes_count (dir_env nv (i_ino inode))" "dir \<noteq> 0" "unat dir \<le> s_inodes_count (dir_env nv (i_ino inode))"
    and fits: "entry_fits (dir_env nv dir) (fs dir) name (i_ino inode, i_mode inode)"
  shows "\<exists>fs'. ext2_mkdir nv fs dir name mode = Some (fs', None) \<and> dir_at nv fs' dir \<and>
    names nv fs' dir = (names nv fs dir)(name \<mapsto> (i_ino inode, entry_type (dir_env nv dir) (i_mode inode))) \<and>
    dir_ok (dir_env nv (i_ino inode)) (fs' (i_ino inode)) \<and>
    (let t = entry_type (dir_env nv (i_ino inode)) (i_mode inode) in
     names nv fs' (i_ino inode) = [''.'' \<mapsto> (i_ino inode, t), ''..'' \<mapsto> (dir, t)]) \<and>
    i_nlink (fs' dir) = i_nlink (fs dir) + 1 \<and> i_nlink (fs' (i_ino inode)) = i_nlink inode + 1 \<and>
    (\<forall>i. i \<notin> {dir, i_ino inode} \<longrightarrow> fs' i = fs i)"
proof -
  let ?i = "i_ino inode" and ?E = "dir_env nv dir" and ?N = "dir_env nv (i_ino inode)"
  let ?d = "(fs dir)\<lparr>i_nlink := i_nlink (fs dir) + 1\<rparr>" and ?n = "inode\<lparr>i_nlink := i_nlink inode + 1\<rparr>"
  have quota: "dquot_initialize nv dir = None" and wr: "writes_ok ?E" and ok: "dir_ok ?E (fs dir)" using dir(1) by (simp_all add: dir_at_def)
  have "blank ?N ?n" "?i \<noteq> 0" "write_begin ?N 0 (s_blocksize ?N) = None" "write_sync ?N = None"
    using new(3) fits env(1) by (simp_all add: blank_def entry_fits_def writes_ok_def)
  then obtain n1 where n1: "ext2_make_empty ?N ?n dir = (n1, None)" "dir_inv ?N n1 [new_recs ?N ?n dir]"
    and n1f: "i_mode n1 = i_mode inode" "i_nlink n1 = i_nlink inode + 1"
    using make_empty_ok [OF writes_okD [OF env(1)], of ?n dir] env(2) ino by auto
  have n1look: "dir_lookup ?N n1 = [''.'' \<mapsto> (?i, entry_type ?N (i_mode inode)), ''..'' \<mapsto> (dir, entry_type ?N (i_mode inode))]"
    unfolding lookup_eq [OF env(1) n1(2)] using \<open>?i \<noteq> 0\<close> ino(2) by (auto simp: new_recs_def live_simps)
  obtain rss where rss: "dir_inv ?E (fs dir) rss" using ok by (auto simp: dir_ok_def)
  have "entry_fits ?E ?d name (?i, i_mode inode)" using fits by (simp add: entry_fits_def)
  moreover have "map_of (live (concat rss)) name = None" using lookup_eq [OF wr rss] dir(2) by simp
  ultimately obtain d2 rss2 where d2: "ext2_add_link ?E ?d name ?i (i_mode inode) = Some (d2, None)" "dir_inv ?E d2 rss2"
    "map_of (live (concat rss2)) = (map_of (live (concat rss)))(name \<mapsto> (?i, entry_type ?E (i_mode inode)))"
    using ext2_names.add_law [of ?E ?d rss name "(?i, i_mode inode)"] wr rss by auto
  have look: "dir_lookup ?E d2 = (dir_lookup ?E (fs dir))(name \<mapsto> (?i, entry_type ?E (i_mode inode)))"
    unfolding lookup_eq [OF wr d2(2)] lookup_eq [OF wr rss] by (rule d2(3))
  have "ext2_mkdir nv fs dir name mode = Some (fs(?i := n1, dir := d2), None)"
    using quota new(1,2) n1(1) n1f(1) d2(1) dir(3)
    by (simp add: ext2_mkdir_def Let_def inode_inc_link_count_def add_link_def fun_upd_twist)
  then show ?thesis using look n1look n1(2) n1f(2) d2(2) new(2) quota wr add_link_nlink [OF d2(1)]
    by (intro exI [of _ "fs(?i := n1, dir := d2)"]) (auto simp: dir_at_def dir_ok_def Let_def)
qed

definition nv2 :: namei_env where
  "nv2 = nv1\<lparr>ext2_new_inode := \<lambda>_ _. Inr (node1 14 0x41ed)\<rparr>"

theorem ext2_mkdir_map_witness:
  "dir_at nv2 (fs1(11 := dir1)) 11 \<and> (\<exists>fs. ext2_mkdir nv2 (fs1(11 := dir1)) 11 ''sub'' 0x1ed = Some (fs, None) \<and>
    names nv2 fs 11 ''sub'' = Some (14, 2) \<and> names nv2 fs 14 = [''.'' \<mapsto> (14, 2), ''..'' \<mapsto> (11, 2)])"
proof -
  let ?fs = "fs1(11 := dir1)"
  have nv: "dir_env nv2 i = env1" "dquot_initialize nv2 i = None" "ext2_new_inode nv2 i m = Inr (node1 14 0x41ed)" for i m
    by (simp_all add: nv2_def)
  have n: "i_ino (node1 14 0x41ed) = 14" "i_mode (node1 14 0x41ed) = 0x41ed" "blank env1 (node1 14 0x41ed)" by (simp_all add: node1_def blank_def)
  have at: "dir_at nv2 ?fs 11" using env1_ok dir1_ok(1) by (auto simp: dir_at_def dir_ok_def nv)
  have "entry_fits env1 dir1 ''sub'' (14, 0x41ed)" using dir1_page(3) by (simp add: entry_fits_def name_ok_def)
  then show ?thesis
    using ext2_mkdir_map [OF at, of "''sub''" "0x1ed" "node1 14 0x41ed"] at env1_ok dir1_ok(2)
    by (auto simp: nv n env1_types dir1_lookup)
qed

text \<open>
  C38. \<open>ext2_rmdir\<close> of a directory that has other entries than those for itself and its parent fails
  with \<open>ENOTEMPTY\<close> and changes nothing that a lookup can see. Otherwise the name is removed, the
  directory has size zero and loses two links, and its parent loses one.
\<close>

theorem ext2_rmdir_map:
  assumes "dir_at nv fs dir" and "dir_at nv fs ino" and "ino \<noteq> dir" and "names nv fs dir name \<noteq> None"
  shows "\<exists>fs' err. ext2_rmdir nv fs dir name ino = Some (fs', err) \<and> dir_at nv fs' dir \<and>
    (if \<exists>nm i t. names nv fs ino nm = Some (i, t) \<and> nm \<noteq> ''..'' \<and> \<not> (nm = ''.'' \<and> i = i_ino (fs ino))
     then err = Some ENOTEMPTY \<and> names nv fs' dir = names nv fs dir \<and> names nv fs' ino = names nv fs ino
     else err = None \<and> names nv fs' dir = (names nv fs dir)(name := None) \<and> i_size (fs' ino) = 0 \<and>
       i_nlink (fs' ino) = i_nlink (fs ino) - 2 \<and> i_nlink (fs' dir) = i_nlink (fs dir) - 1)"
proof -
  let ?N = "dir_env nv ino" and ?E = "dir_env nv dir"
  have wr: "writes_ok ?N" "writes_ok ?E" and ok: "dir_ok ?N (fs ino)" using assms(1,2) by (simp_all add: dir_at_def)
  obtain d e where d: "ext2_empty_dir ?N (fs ino) = (d, e)" by (cases "ext2_empty_dir ?N (fs ino)")
  obtain rss where rss: "dir_inv ?N (fs ino) rss" using ok by (auto simp: dir_ok_def)
  have dist: "distinct (map fst (live (concat rss)))" using rss by (simp add: dir_inv_def)
  note empty = empty_dir_ok [OF writes_okD [OF wr(1)] rss, unfolded d fst_conv snd_conv]
  have look: "dir_lookup ?N d = dir_lookup ?N (fs ino)"
    using lookup_eq [OF wr(1) rss] lookup_eq [OF wr(1) dir_inv_sim [OF rss empty(1)]] by simp
  have e: "e \<longleftrightarrow> \<not> (\<exists>nm i t. names nv fs ino nm = Some (i, t) \<and> nm \<noteq> ''..'' \<and> \<not> (nm = ''.'' \<and> i = i_ino (fs ino)))"
    unfolding empty(2) lookup_eq [OF wr(1) rss] map_of_eq_Some_iff [OF dist] by auto
  let ?fs = "fs(ino := d)"
  have at: "dir_at nv ?fs dir" "names nv ?fs dir = names nv fs dir" using assms(1,3) by (simp_all add: dir_at_def)
  show ?thesis
  proof (cases e)
    case False
    then show ?thesis using e at look d by (intro exI [of _ ?fs] exI [of _ "Some ENOTEMPTY"]) (auto simp: ext2_rmdir_def)
  next
    case True
    obtain fs1 where fs1: "ext2_unlink nv ?fs dir name ino = Some (fs1, None)" "dir_at nv fs1 dir"
      "names nv fs1 dir = (names nv fs dir)(name := None)" "i_nlink (fs1 dir) = i_nlink (fs dir)" "i_nlink (fs1 ino) = i_nlink d - 1"
      using unlink_ok [OF at(1) assms(3), of name] assms(3,4) at(2) by auto
    have "i_nlink d = i_nlink (fs ino)" using empty(1) by (simp add: sim_def)
    moreover have "dir_ok ?E (fs1 dir)" using fs1(2) by (simp add: dir_at_def)
    note nl = look_nlink [OF wr(2) this]
    let ?fs2 = "inode_dec_link_count dir (inode_dec_link_count ino (fs1(ino := (fs1 ino)\<lparr>i_size := 0\<rparr>)))"
    have f2: "?fs2 dir = (fs1 dir)\<lparr>i_nlink := i_nlink (fs1 dir) - 1\<rparr>"
      "?fs2 ino = (fs1 ino)\<lparr>i_size := 0, i_nlink := i_nlink (fs1 ino) - 1\<rparr>"
      using assms(3) by (simp_all add: inode_dec_link_count_def)
    have "ext2_rmdir nv fs dir name ino = Some (?fs2, None)" using d True fs1(1) by (simp add: ext2_rmdir_def)
    moreover have "dir_at nv ?fs2 dir" using assms(1) nl(1) wr(2) unfolding dir_at_def f2(1) by simp
    ultimately show ?thesis using True e fs1(3-5) nl(2) unfolding f2
      by (intro exI [of _ ?fs2] exI [of _ None]) (auto simp: f2)
  qed
qed

theorem ext2_rmdir_map_witness:
  "dir_at nv1 (fs1(12 := dir1)) 12 \<and> (\<exists>fs. ext2_rmdir nv1 (fs1(12 := dir1)) 11 ''core'' 12 = Some (fs, None) \<and>
    names nv1 fs 11 = [''..'' \<mapsto> (2, 2), ''.'' \<mapsto> (11, 2)])"
proof -
  let ?fs = "fs1(12 := dir1)"
  have at: "dir_at nv1 ?fs 11" "dir_at nv1 ?fs 12" using env1_ok dir1_ok(1) dir2_ok(1) by (auto simp: dir_at_def dir_ok_def fs1_def)
  have core: "names nv1 ?fs 11 = [''..'' \<mapsto> (2, 2), ''.'' \<mapsto> (11, 2), ''core'' \<mapsto> (12, 1)]" by (simp add: fs1_def dir2_ok(2))
  have eq: "([''..'' \<mapsto> (2, 2), ''.'' \<mapsto> (11, 2), ''core'' \<mapsto> (12, 1)] :: string \<Rightarrow> (32 word \<times> 8 word) option)(''core'' := None) =
      [''..'' \<mapsto> (2, 2), ''.'' \<mapsto> (11, 2)]" by auto
  have empty: "(\<exists>nm i t. names nv1 ?fs 12 nm = Some (i, t) \<and> nm \<noteq> ''..'' \<and> \<not> (nm = ''.'' \<and> i = i_ino (?fs 12))) = False"
    using dir1_ok(2) by (auto simp: dir1_lookup split: if_splits)
  have "(12 :: 32 word) \<noteq> 11" "names nv1 ?fs 11 ''core'' \<noteq> None" unfolding core by simp_all
  from ext2_rmdir_map [OF at this, unfolded empty if_False core eq] show ?thesis using at(2) by blast
qed

section \<open>Blocks of 64 KiB\<close>

text \<open>
  A record of 65536 bytes is stored with the length 65535, which the checks understand; but
  \<open>ext2_add_link\<close> keeps the length in an \<open>unsigned short\<close>, where it is zero.
\<close>

lemma add_scan_64k:
  assumes "page_size env = 65536" and "raw_rec p 0 = 0xffff" and "\<not> ext2_match name p 0" and "dir_end \<noteq> 0" and "length name < 256"
  shows "add_scan env name p dir_end 0 = None"
proof -
  have rec: "rec_at env p 0 mod 65536 = 0" using assms(1,2) by (simp add: ext2_rec_len_from_disk_def)
  have len: "8 \<le> EXT2_DIR_REC_LEN (length name)" "EXT2_DIR_REC_LEN (length name) \<le> 65536"
    using assms(5) by (simp_all add: EXT2_DIR_REC_LEN_eq)
  have "e = env \<longrightarrow> nm = name \<longrightarrow> q = p \<longrightarrow> l = dir_end \<longrightarrow> de \<noteq> 0" if "add_scan e nm q l de = Some y" for e nm q l de y
  proof (rule add_scan.raw_induct [OF _ that], intro impI notI, goal_cases)
    case (1 f e nm q l de y)
    have "f env name p dir_end 0 = Some y" using 1(2-7) assms rec len by (simp add: Let_def)
    then show False using 1(1) by blast
  qed
  then show ?thesis by (cases "add_scan env name p dir_end 0") blast+
qed

text \<open>
  C40. On a machine with pages of 64 KiB, in a directory with blocks of that size, a block that is one
  record passes the check of its page, but \<open>ext2_add_link\<close> does not return: the length of the record
  is zero in the variable that steps over it.
\<close>

theorem ext2_add_link_64k:
  assumes "page_size env = 65536" and "i_size d = 65536" and "read_mapping_page env 0 = None"
    and "\<not> PageError (pages d 0)" and "snd (ext2_check_page env d 0)"
    and "raw_rec (pdata (pages d 0)) 0 = 0xffff" and "\<not> ext2_match name (pdata (pages d 0)) 0" and "length name < 256"
  shows "ext2_add_link env d name ino mode = None"
proof -
  let ?p = "pdata (pages d 0)"
  obtain d' where get: "ext2_get_page env d 0 = (d', Inr ?p)" and size: "i_size d' = 65536"
  proof (cases "PageChecked (pages d 0)")
    case True
    then show ?thesis using that assms(2,3) by (simp add: ext2_get_page_def)
  next
    case False
    have "ext2_check_page env d 0 = (set_flags 0 True d, True)"
      using assms(5) check_page_flags [of env d 0] by (intro prod_eqI) simp_all
    then show ?thesis using that [of "set_flags 0 True d"] False assms(2-4) by (simp add: ext2_get_page_def set_flags_def)
  qed
  have "ext2_last_byte env d' 0 \<noteq> 0" using size assms(1) by (simp add: ext2_last_byte_def Let_def)
  from add_scan_64k [OF assms(1,6,7) this assms(8)] show ?thesis
    unfolding ext2_add_link_def by (subst add_pages.simps) (simp add: get)
qed

definition env64 :: ext2_env where
  "env64 = env1\<lparr>page_size := 65536, s_blocksize := 65536\<rparr>"

definition page64 :: string where
  "page64 = le32_enc 0 @ le16_enc 0xffff @ u8_enc 0 @ u8_enc 0 @ replicate 65528 CHR 0x00"

definition dir64 :: dinode where
  "dir64 = (node1 11 0x41ed)\<lparr>i_size := 65536, pages := \<lambda>_. \<lparr>pdata = page64, PageChecked = False, PageError = False\<rparr>\<rparr>"

lemma page64_fields: "de_ino page64 0 = 0" "raw_rec page64 0 = 0xffff" "de_nlen page64 0 = 0"
proof -
  have "take 4 (drop 0 page64) = le32_enc 0" by (simp add: page64_def)
  moreover have "take 2 (drop (0 + 4) page64) = le16_enc 0xffff" by (simp add: page64_def)
  moreover have "take 1 (drop (0 + 6) page64) = u8_enc 0" by (simp add: page64_def)
  ultimately show "de_ino page64 0 = 0" "raw_rec page64 0 = 0xffff" "de_nlen page64 0 = 0" by simp_all
qed

lemma dir64_check: "snd (ext2_check_page env64 dir64 0)"
proof -
  have e: "page_size env64 = 65536" "s_blocksize env64 = 65536" by (simp_all add: env64_def)
  have dlen: "ext2_rec_len_from_disk env64 0xffff = 65536" by (simp add: ext2_rec_len_from_disk_def e)
  then have rec: "rec_at env64 page64 0 = 65536" unfolding page64_fields(2) .
  have "rec_fits env64 page64 0" unfolding rec_fits_def page64_fields dlen
    by (simp add: Let_def EXT2_DIR_REC_LEN_eq ext2_chunk_size_def e)
  moreover have "ext2_check_loop env64 page64 65536 65536" by (subst ext2_check_loop.simps) simp
  ultimately have "ext2_check_loop env64 page64 65536 0"
    by (subst ext2_check_loop.simps) (simp add: rec [unfolded add_0])
  then show ?thesis by (simp add: ext2_check_page_def dir64_def e)
qed

theorem ext2_add_link_64k_witness: "snd (ext2_check_page env64 dir64 0) \<and> ext2_add_link env64 dir64 ''core'' 12 0x81a4 = None"
proof -
  have d: "pdata (pages dir64 0) = page64" "\<not> PageError (pages dir64 0)" "i_size dir64 = 65536" by (simp_all add: dir64_def)
  have e: "page_size env64 = 65536" "read_mapping_page env64 0 = None" by (simp_all add: env64_def env1_def)
  have "\<not> ext2_match ''core'' page64 0" unfolding ext2_match_def page64_fields by simp
  then show ?thesis
    using ext2_add_link_64k [OF e(1) d(3) e(2) d(2) dir64_check] page64_fields(2) dir64_check unfolding d(1) by simp
qed

end
